(* ===== verification/Prelude.thy ===== *)
theory Prelude
  imports
    Main
    "HOL-Library.AList"
    "HOL-Library.Multiset"
begin

text \<open>
  Shared vocabulary of the development: the result type of code that may throw, the
  state-and-exception type of \<open>async\<close> methods, JavaScript's insertion-ordered
  \<open>Map\<close>, the string operations the sources use, and the generic lemmas and
  \<^theory_text>\<open>named_theorems\<close> collections the components draw on.

  JavaScript strings are \<open>string\<close> (lists of 8-bit characters); \<open>bigint\<close> is \<open>int\<close>;
  a \<open>Date\<close> is its \<open>getTime()\<close> value in milliseconds, an \<open>int\<close>.
\<close>

section \<open>Collections of facts\<close>

named_theorems effect_simps \<open>equations that run the state-and-exception combinators\<close>
named_theorems ledger_simps \<open>rewrite rules for postings, nets and totals\<close>
named_theorems table_simps \<open>rewrite rules for SQL tables held as lists of rows\<close>

section \<open>Pure code that may throw\<close>

type_synonym ('e, 'a) result = "'e + 'a"

fun rbind :: "'e + 'a \<Rightarrow> ('a \<Rightarrow> 'e + 'b) \<Rightarrow> 'e + 'b" where
  "rbind (Inl e) f = Inl e"
| "rbind (Inr x) f = f x"

lemma rbind_Inr_iff: "rbind m f = Inr y \<longleftrightarrow> (\<exists>x. m = Inr x \<and> f x = Inr y)"
  by (cases m) auto

lemma rbind_Inl_iff: "rbind m f = Inl e \<longleftrightarrow> m = Inl e \<or> (\<exists>x. m = Inr x \<and> f x = Inl e)"
  by (cases m) auto

definition guard :: "bool \<Rightarrow> 'e \<Rightarrow> 'e + unit" where
  "guard b e = (if b then Inr () else Inl e)"

lemma guard_simps [simp]: "guard True e = Inr ()" "guard False e = Inl e"
  by (simp_all add: guard_def)

lemma guard_Inr_iff: "guard b e = Inr u \<longleftrightarrow> b"
  by (simp add: guard_def)

section \<open>Methods with state and exceptions\<close>

text \<open>
  A method that awaits effects runs on a state and returns either a value or the
  exception it threw, together with the state reached. An exception does not undo the
  effects that came before it; only \<open>sql.transaction\<close> does, see \<open>transaction\<close>.
\<close>

type_synonym ('s, 'e, 'a) eff = "'s \<Rightarrow> ('e + 'a) \<times> 's"

definition ret :: "'a \<Rightarrow> ('s, 'e, 'a) eff" where
  "ret x = (\<lambda>s. (Inr x, s))"

definition throw :: "'e \<Rightarrow> ('s, 'e, 'a) eff" where
  "throw e = (\<lambda>s. (Inl e, s))"

definition bind :: "('s, 'e, 'a) eff \<Rightarrow> ('a \<Rightarrow> ('s, 'e, 'b) eff) \<Rightarrow> ('s, 'e, 'b) eff" where
  "bind m f = (\<lambda>s. case m s of (Inl e, s') \<Rightarrow> (Inl e, s') | (Inr x, s') \<Rightarrow> f x s')"

definition lift :: "'e + 'a \<Rightarrow> ('s, 'e, 'a) eff" where
  "lift r = (\<lambda>s. (r, s))"

definition reads :: "('s \<Rightarrow> 'a) \<Rightarrow> ('s, 'e, 'a) eff" where
  "reads f = (\<lambda>s. (Inr (f s), s))"

definition modify :: "('s \<Rightarrow> 's) \<Rightarrow> ('s, 'e, unit) eff" where
  "modify f = (\<lambda>s. (Inr (), f s))"

text \<open>\<open>try { m } catch (e) { h e }\<close>\<close>

definition try_catch :: "('s, 'e, 'a) eff \<Rightarrow> ('e \<Rightarrow> ('s, 'e, 'a) eff) \<Rightarrow> ('s, 'e, 'a) eff" where
  "try_catch m h = (\<lambda>s. case m s of (Inl e, s') \<Rightarrow> h e s' | (Inr x, s') \<Rightarrow> (Inr x, s'))"

text \<open>\<open>try { m } finally { fin }\<close>, for a \<open>fin\<close> that does not throw\<close>

definition try_finally :: "('s, 'e, 'a) eff \<Rightarrow> ('s \<Rightarrow> 's) \<Rightarrow> ('s, 'e, 'a) eff" where
  "try_finally m fin = (\<lambda>s. case m s of (r, s') \<Rightarrow> (r, fin s'))"

text \<open>A database transaction: an exception restores the state at its start.\<close>

definition transaction :: "('s, 'e, 'a) eff \<Rightarrow> ('s, 'e, 'a) eff" where
  "transaction m = (\<lambda>s. case m s of (Inl e, s') \<Rightarrow> (Inl e, s) | (Inr x, s') \<Rightarrow> (Inr x, s'))"

text \<open>A \<open>for ... of\<close> loop that threads an accumulator and stops at the first exception.\<close>

fun for_each :: "('x \<Rightarrow> 'a \<Rightarrow> ('s, 'e, 'a) eff) \<Rightarrow> 'x list \<Rightarrow> 'a \<Rightarrow> ('s, 'e, 'a) eff" where
  "for_each f [] acc = ret acc"
| "for_each f (x # xs) acc = bind (f x acc) (\<lambda>acc'. for_each f xs acc')"

lemma ret_run [effect_simps]: "ret x s = (Inr x, s)"
  by (simp add: ret_def)

lemma throw_run [effect_simps]: "throw e s = (Inl e, s)"
  by (simp add: throw_def)

lemma lift_run [effect_simps]: "lift r s = (r, s)"
  by (simp add: lift_def)

lemma reads_run [effect_simps]: "reads f s = (Inr (f s), s)"
  by (simp add: reads_def)

lemma modify_run [effect_simps]: "modify f s = (Inr (), f s)"
  by (simp add: modify_def)

lemma bind_run [effect_simps]:
  "m s = (Inl e, s') \<Longrightarrow> bind m f s = (Inl e, s')"
  "m s = (Inr x, s') \<Longrightarrow> bind m f s = f x s'"
  by (simp_all add: bind_def)

lemma bind_unit_run [effect_simps]:
  "bind (ret x) f s = f x s"
  "bind (throw e) f s = (Inl e, s)"
  "bind (reads g) f s = f (g s) s"
  "bind (modify g) h s = h () (g s)"
  "bind (lift (Inr x)) f s = f x s"
  "bind (lift (Inl e)) f s = (Inl e, s)"
  by (simp_all add: bind_def ret_def throw_def reads_def modify_def lift_def)

lemma bind_Inr_iff:
  "bind m f s = (Inr y, s'') \<longleftrightarrow> (\<exists>x s'. m s = (Inr x, s') \<and> f x s' = (Inr y, s''))"
  by (auto simp: bind_def split: prod.splits sum.splits)

lemma bind_InrE:
  assumes "bind m f s = (Inr y, s'')"
  obtains x s' where "m s = (Inr x, s')" "f x s' = (Inr y, s'')"
  using assms by (auto simp: bind_Inr_iff)

lemma try_finally_Inr_iff:
  "try_finally m fin s = (Inr y, s'') \<longleftrightarrow> (\<exists>s'. m s = (Inr y, s') \<and> s'' = fin s')"
  by (auto simp: try_finally_def split: prod.splits)

lemma transaction_Inl: "transaction m s = (Inl e, s') \<Longrightarrow> s' = s"
  by (auto simp: transaction_def split: prod.splits sum.splits)

text \<open>An invariant that every iteration keeps, whether it throws or not, holds after the loop.\<close>

definition preserves :: "('s \<Rightarrow> bool) \<Rightarrow> ('s, 'e, 'a) eff \<Rightarrow> bool" where
  "preserves I m \<longleftrightarrow> (\<forall>s. I s \<longrightarrow> I (snd (m s)))"

lemma preservesI: "(\<And>s. I s \<Longrightarrow> I (snd (m s))) \<Longrightarrow> preserves I m"
  by (simp add: preserves_def)

lemma preservesD: "preserves I m \<Longrightarrow> I s \<Longrightarrow> I (snd (m s))"
  by (simp add: preserves_def)

lemma preserves_ret [intro]: "preserves I (ret x)"
  by (simp add: preserves_def ret_def)

lemma preserves_throw [intro]: "preserves I (throw e)"
  by (simp add: preserves_def throw_def)

lemma preserves_lift [intro]: "preserves I (lift r)"
  by (simp add: preserves_def lift_def)

lemma preserves_reads [intro]: "preserves I (reads f)"
  by (simp add: preserves_def reads_def)

lemma preserves_modify: "(\<And>s. I s \<Longrightarrow> I (f s)) \<Longrightarrow> preserves I (modify f)"
  by (simp add: preserves_def modify_def)

lemma preserves_bind [intro]:
  assumes "preserves I m" and "\<And>x. preserves I (f x)"
  shows "preserves I (bind m f)"
proof (rule preservesI)
  fix s assume "I s"
  with assms(1) have "I (snd (m s))" by (rule preservesD)
  with assms(2) show "I (snd (bind m f s))"
    by (auto simp: bind_def preserves_def split: prod.splits sum.splits)
qed

lemma preserves_try_catch [intro]:
  assumes "preserves I m" and "\<And>e. preserves I (h e)"
  shows "preserves I (try_catch m h)"
proof (rule preservesI)
  fix s assume "I s"
  with assms(1) have "I (snd (m s))" by (rule preservesD)
  with assms(2) show "I (snd (try_catch m h s))"
    by (auto simp: try_catch_def preserves_def split: prod.splits sum.splits)
qed

lemma preserves_try_finally:
  assumes "preserves I m" and "\<And>s. I s \<Longrightarrow> I (fin s)"
  shows "preserves I (try_finally m fin)"
proof (rule preservesI)
  fix s assume "I s"
  with assms(1) have "I (snd (m s))" by (rule preservesD)
  with assms(2) show "I (snd (try_finally m fin s))"
    by (auto simp: try_finally_def split: prod.splits)
qed

lemma preserves_if [intro]:
  "\<lbrakk>b \<Longrightarrow> preserves I m; \<not> b \<Longrightarrow> preserves I m'\<rbrakk> \<Longrightarrow> preserves I (if b then m else m')"
  by simp

lemma preserves_for_each:
  assumes "\<And>x acc. x \<in> set xs \<Longrightarrow> preserves I (f x acc)"
  shows "preserves I (for_each f xs acc)"
  using assms
proof (induction xs arbitrary: acc)
  case Nil
  then show ?case by auto
next
  case (Cons x xs)
  have "preserves I (f x acc)" by (rule Cons.prems) simp
  moreover have "\<And>acc. preserves I (for_each f xs acc)" by (rule Cons.IH) (simp add: Cons.prems)
  ultimately show ?case by auto
qed

lemma for_each_modify:
  "for_each (\<lambda>x _. modify (f x)) xs () s = (Inr (), fold f xs s)"
  by (induction xs arbitrary: s) (auto simp: ret_def bind_def modify_def)

section \<open>Decimal numerals\<close>

text \<open>\<open>bigint.toString()\<close> and the interpolation of an integer in a template literal.\<close>

definition digit_char :: "nat \<Rightarrow> char" where
  "digit_char d = char_of (48 + d)"

fun show_nat :: "nat \<Rightarrow> string" where
  "show_nat n = (if n < 10 then [digit_char n] else show_nat (n div 10) @ [digit_char (n mod 10)])"

declare show_nat.simps [simp del]

definition show_int :: "int \<Rightarrow> string" where
  "show_int i = (if i < 0 then ''-'' @ show_nat (nat (- i)) else show_nat (nat i))"

definition digit_val :: "char \<Rightarrow> nat" where
  "digit_val c = of_char c - 48"

definition read_nat :: "string \<Rightarrow> nat" where
  "read_nat s = foldl (\<lambda>acc c. acc * 10 + digit_val c) 0 s"

lemma digit_val_digit_char: "d < 10 \<Longrightarrow> digit_val (digit_char d) = d"
  by (simp add: digit_val_def digit_char_def)

lemma read_nat_snoc: "read_nat (s @ [c]) = read_nat s * 10 + digit_val c"
  by (simp add: read_nat_def)

lemma read_show_nat: "read_nat (show_nat n) = n"
proof (induction n rule: show_nat.induct)
  case (1 n)
  show ?case
  proof (cases "n < 10")
    case True
    then show ?thesis
      by (subst show_nat.simps) (simp add: read_nat_def digit_val_digit_char)
  next
    case False
    with 1 have "read_nat (show_nat (n div 10)) = n div 10" by simp
    with False show ?thesis
      by (subst show_nat.simps) (simp add: read_nat_snoc digit_val_digit_char)
  qed
qed

lemma show_nat_inj: "show_nat m = show_nat n \<longleftrightarrow> m = n"
  by (metis read_show_nat)

definition is_digit :: "char \<Rightarrow> bool" where
  "is_digit c \<longleftrightarrow> 48 \<le> (of_char c :: nat) \<and> (of_char c :: nat) \<le> 57"

lemma is_digit_digit_char: "d < 10 \<Longrightarrow> is_digit (digit_char d)"
  by (simp add: is_digit_def digit_char_def)

lemma show_nat_digits: "c \<in> set (show_nat n) \<Longrightarrow> is_digit c"
proof (induction n rule: show_nat.induct)
  case (1 n)
  then show ?case
    by (subst (asm) (2) show_nat.simps) (auto simp: is_digit_digit_char split: if_splits)
qed

lemma show_nat_nonempty: "show_nat n \<noteq> []"
  by (subst show_nat.simps) simp

lemma minus_not_digit: "\<not> is_digit (CHR ''-'')"
  by (simp add: is_digit_def)

lemma show_nat_no_minus: "show_nat n \<noteq> CHR ''-'' # t"
proof
  assume eq: "show_nat n = CHR ''-'' # t"
  have "is_digit (CHR ''-'')" by (rule show_nat_digits [of _ n]) (simp add: eq)
  with minus_not_digit show False by simp
qed

lemma show_int_inj: "show_int i = show_int j \<longleftrightarrow> i = j"
  using show_nat_no_minus [of "nat i" "show_nat (nat (- j))"]
    show_nat_no_minus [of "nat j" "show_nat (nat (- i))"]
  by (auto simp: show_int_def show_nat_inj)

lemma show_int_chars: "c \<in> set (show_int i) \<Longrightarrow> is_digit c \<or> c = CHR ''-''"
  by (auto simp: show_int_def dest: show_nat_digits split: if_splits)

lemma colon_not_in_show_int [simp]: "CHR '':'' \<notin> set (show_int i)"
  using show_int_chars [of "CHR '':''" i] by (auto simp: is_digit_def)

lemma nul_not_in_show_int [simp]: "CHR 0x00 \<notin> set (show_int i)"
  using show_int_chars [of "CHR 0x00" i] by (auto simp: is_digit_def)

section \<open>Strings\<close>

text \<open>\<open>toUpperCase\<close> and \<open>toLowerCase\<close> on the ASCII letters; other characters are unchanged.\<close>

definition upper_char :: "char \<Rightarrow> char" where
  "upper_char c = (if 97 \<le> (of_char c :: nat) \<and> (of_char c :: nat) \<le> 122
     then char_of ((of_char c :: nat) - 32) else c)"

definition toUpperCase :: "string \<Rightarrow> string" where
  "toUpperCase s = map upper_char s"

definition lower_char :: "char \<Rightarrow> char" where
  "lower_char c = (if 65 \<le> (of_char c :: nat) \<and> (of_char c :: nat) \<le> 90
     then char_of ((of_char c :: nat) + 32) else c)"

definition toLowerCase :: "string \<Rightarrow> string" where
  "toLowerCase s = map lower_char s"

lemma of_char_upper_char:
  "(of_char (upper_char c) :: nat) =
     (if 97 \<le> (of_char c :: nat) \<and> (of_char c :: nat) \<le> 122 then of_char c - 32 else of_char c)"
proof -
  have "(of_char c :: nat) < 256" by simp
  then have "(of_char c :: nat) - 32 < 256" by linarith
  then show ?thesis by (simp add: upper_char_def)
qed

lemma upper_char_idem [simp]: "upper_char (upper_char c) = upper_char c"
  by (subst (1) upper_char_def) (auto simp: of_char_upper_char)

lemma toUpperCase_idem [simp]: "toUpperCase (toUpperCase s) = toUpperCase s"
  by (simp add: toUpperCase_def)

lemma toUpperCase_append [simp]: "toUpperCase (s @ t) = toUpperCase s @ toUpperCase t"
  by (simp add: toUpperCase_def)

definition startsWith :: "string \<Rightarrow> string \<Rightarrow> bool" where
  "startsWith s p \<longleftrightarrow> take (length p) s = p"

definition endsWith :: "string \<Rightarrow> string \<Rightarrow> bool" where
  "endsWith s p \<longleftrightarrow> length p \<le> length s \<and> drop (length s - length p) s = p"

lemma startsWith_append [simp]: "startsWith (p @ s) p"
  by (simp add: startsWith_def)

text \<open>\<open>s.padStart(n, c)\<close>, for a single character \<open>c\<close>.\<close>

definition padStart :: "nat \<Rightarrow> char \<Rightarrow> string \<Rightarrow> string" where
  "padStart n c s = replicate (n - length s) c @ s"

text \<open>Joining two parts with a separator that occurs in neither left part is injective.\<close>

lemma sep_append_inj:
  assumes "c \<notin> set a" "c \<notin> set b"
  shows "a @ c # x = b @ c # y \<longleftrightarrow> a = b \<and> x = y"
  using assms
proof (induction a arbitrary: b)
  case Nil
  then show ?case by (cases b) auto
next
  case (Cons d a)
  then show ?case by (cases b) auto
qed

section \<open>JavaScript maps\<close>

text \<open>
  A JavaScript \<open>Map\<close> iterates in insertion order, and \<open>set\<close> on a present key keeps its
  place: this is \<open>AList.update\<close> on an association list, with \<open>map_of\<close> as \<open>get\<close>.
\<close>

type_synonym ('k, 'v) jsmap = "('k \<times> 'v) list"

definition map_get_or :: "('k, 'v) jsmap \<Rightarrow> 'k \<Rightarrow> 'v \<Rightarrow> 'v" where
  "map_get_or m k d = (case map_of m k of Some v \<Rightarrow> v | None \<Rightarrow> d)"

lemma map_get_or_Nil [simp]: "map_get_or [] k d = d"
  by (simp add: map_get_or_def)

lemma map_get_or_update [simp]:
  "map_get_or (AList.update k v m) k' d = (if k' = k then v else map_get_or m k' d)"
  by (simp add: map_get_or_def update_conv')

lemma fst_set_update [simp]: "fst ` set (AList.update k v m) = insert k (fst ` set m)"
  by (simp add: dom_map_of_conv_image_fst [symmetric] update_conv')

lemma map_of_in_values: "map_of m k = Some v \<Longrightarrow> v \<in> snd ` set m"
  by (force dest: map_of_SomeD)

section \<open>Sums over lists\<close>

lemma sum_list_if_eq:
  fixes f :: "'a \<Rightarrow> 'b :: comm_monoid_add"
  shows "sum_list (map (\<lambda>x. if P x then f x else 0) xs) = sum_list (map f (filter P xs))"
  by (induction xs) auto

lemma sum_list_neg: "sum_list (map (\<lambda>x. - f x) xs) = - sum_list (map f xs :: int list)"
  by (induction xs) auto

lemma sum_list_diff: "sum_list (map (\<lambda>x. f x - g x) xs) = sum_list (map f xs) - sum_list (map g xs :: int list)"
  by (induction xs) auto

lemma sum_list_filter_split:
  "sum_list (map f xs) = sum_list (map f (filter P xs)) + sum_list (map f (filter (\<lambda>x. \<not> P x) xs))"
  for f :: "'a \<Rightarrow> int"
  by (induction xs) auto

end
