(* ===== verification/App_Errors.thy ===== *)
theory App_Errors
  imports Prelude
begin

text \<open>
  The error vocabulary of the engine (\<open>types/errorTypes\<close>, \<open>src/common/exceptions\<close>) and the
  central handler that turns a thrown value into an HTTP response
  (\<open>src/common/errors\<close>). An exception class is its \<open>code\<close>; the free-form \<open>context\<close>, the stack
  and the class name are diagnostics no code branches on and are left out. The random
  error id and the clock are parameters.
\<close>

section \<open>Error codes\<close>

datatype (plugins only: code size) ErrorCode =
    UNAUTHORIZED | FORBIDDEN_SCOPE | INVALID_SCOPES | ACCOUNT_NOT_FOUND | INVALID_DESTINATION
  | UNSAFE_WEBHOOK_URL | NOT_FOUND | VALIDATION | BAD_REQUEST | RATE_LIMITED | INTERNAL
  | UNCLASSIFIED
  | AUTH_FAILED | ACCOUNT_LOCKED | MFA_REQUIRED | MFA_ENROLMENT_REQUIRED | PRINCIPAL_EXISTS
  | PRINCIPAL_NOT_FOUND | INVALID_ROLE | NOT_AUTHENTICATED | FORBIDDEN | CSRF_FAILED
  | PASSWORD_CHANGE_REQUIRED
  | UNSUPPORTED_CHAIN | CHAIN_MISCONFIGURED | AUTHORIZATION_INVALID | TRON_TX_MISMATCH
  | POLICY_DENIED | POLICY_APPROVAL_REQUIRED | POLICY_TIME_LOCKED | POLICY_COMPLIANCE_HOLD
  | POLICY_SELF_APPROVAL | WITHDRAWAL_NOT_FOUND | FEE_TREASURY_NOT_CONFIGURED | SWEEP_HALTED
  | GAS_FLOAT_DEPLETED | GAS_TREASURY_NOT_CONFIGURED
  | CONFIG_NOT_FOUND | CONFIG_INVALID_ENV
  | SIGNING_KEY_UNAVAILABLE | DATABASE_NOT_CONFIGURED | DATABASE_PLACEHOLDER_URL
  | LEDGER_INSUFFICIENT_FUNDS | LEDGER_UNKNOWN_ENTRY | LEDGER_UNBALANCED_ENTRY
  | LEDGER_INVALID_POSTING | LEDGER_DUPLICATE_ENTRY_ID
  | MPC_NODE_REJECTED | MPC_THRESHOLD_NOT_MET | MPC_BAD_CONTRIBUTION | MPC_INTERIM_FORBIDDEN
  | POOL_INSUFFICIENT_FUNDS | POOL_ADDRESS_NOT_FOUND | POOL_CONCURRENT_MODIFICATION
  | POOL_INVALID_TRANSITION | GATHER_BUSY | GATHER_STRATEGY_UNKNOWN
  | GATHER_STRATEGY_NOT_SUPPORTED

definition API_ERROR_CODES :: "ErrorCode list" where
  "API_ERROR_CODES = [UNAUTHORIZED, FORBIDDEN_SCOPE, INVALID_SCOPES,
     ACCOUNT_NOT_FOUND, INVALID_DESTINATION, UNSAFE_WEBHOOK_URL,
     NOT_FOUND, VALIDATION, BAD_REQUEST,
     RATE_LIMITED, INTERNAL, UNCLASSIFIED]"

definition AUTH_ERROR_CODES :: "ErrorCode list" where
  "AUTH_ERROR_CODES = [AUTH_FAILED, ACCOUNT_LOCKED, MFA_REQUIRED,
     MFA_ENROLMENT_REQUIRED, PRINCIPAL_EXISTS, PRINCIPAL_NOT_FOUND,
     INVALID_ROLE, NOT_AUTHENTICATED, FORBIDDEN,
     CSRF_FAILED, PASSWORD_CHANGE_REQUIRED]"

definition CHAIN_ERROR_CODES :: "ErrorCode list" where
  "CHAIN_ERROR_CODES = [UNSUPPORTED_CHAIN, CHAIN_MISCONFIGURED, AUTHORIZATION_INVALID,
     TRON_TX_MISMATCH, POLICY_DENIED, POLICY_APPROVAL_REQUIRED,
     POLICY_TIME_LOCKED, POLICY_COMPLIANCE_HOLD, POLICY_SELF_APPROVAL,
     WITHDRAWAL_NOT_FOUND, FEE_TREASURY_NOT_CONFIGURED, SWEEP_HALTED,
     GAS_FLOAT_DEPLETED, GAS_TREASURY_NOT_CONFIGURED]"

definition CONFIG_ERROR_CODES :: "ErrorCode list" where
  "CONFIG_ERROR_CODES = [CONFIG_NOT_FOUND, CONFIG_INVALID_ENV]"

definition INFRA_ERROR_CODES :: "ErrorCode list" where
  "INFRA_ERROR_CODES = [SIGNING_KEY_UNAVAILABLE, DATABASE_NOT_CONFIGURED, DATABASE_PLACEHOLDER_URL]"

definition LEDGER_ERROR_CODES :: "ErrorCode list" where
  "LEDGER_ERROR_CODES = [LEDGER_INSUFFICIENT_FUNDS, LEDGER_UNKNOWN_ENTRY, LEDGER_UNBALANCED_ENTRY,
     LEDGER_INVALID_POSTING, LEDGER_DUPLICATE_ENTRY_ID]"

definition MPC_ERROR_CODES :: "ErrorCode list" where
  "MPC_ERROR_CODES = [MPC_NODE_REJECTED, MPC_THRESHOLD_NOT_MET, MPC_BAD_CONTRIBUTION,
     MPC_INTERIM_FORBIDDEN]"

definition POOL_ERROR_CODES :: "ErrorCode list" where
  "POOL_ERROR_CODES = [POOL_INSUFFICIENT_FUNDS, POOL_ADDRESS_NOT_FOUND, POOL_CONCURRENT_MODIFICATION,
     POOL_INVALID_TRANSITION, GATHER_BUSY, GATHER_STRATEGY_UNKNOWN,
     GATHER_STRATEGY_NOT_SUPPORTED]"

definition ERROR_CODES :: "ErrorCode list" where
  "ERROR_CODES = API_ERROR_CODES @ AUTH_ERROR_CODES @ CHAIN_ERROR_CODES @ CONFIG_ERROR_CODES
     @ INFRA_ERROR_CODES @ LEDGER_ERROR_CODES @ MPC_ERROR_CODES @ POOL_ERROR_CODES"

section \<open>The catalogue\<close>

datatype ErrorSeverity = expected_sev | warning_sev | critical_sev

record ErrorPolicy =
  ep_status :: int
  ep_severity :: ErrorSeverity
  ep_exposable :: bool
  ep_retryable :: bool

definition expected :: "int \<Rightarrow> ErrorPolicy" where
  "expected st = \<lparr>ep_status = st, ep_severity = expected_sev, ep_exposable = True, ep_retryable = False\<rparr>"

definition conflict :: "int \<Rightarrow> ErrorPolicy" where
  "conflict st = \<lparr>ep_status = st, ep_severity = warning_sev, ep_exposable = True, ep_retryable = False\<rparr>"

definition transient :: "int \<Rightarrow> ErrorPolicy" where
  "transient st = \<lparr>ep_status = st, ep_severity = warning_sev, ep_exposable = False, ep_retryable = True\<rparr>"

definition internal :: "int \<Rightarrow> ErrorPolicy" where
  "internal st = \<lparr>ep_status = st, ep_severity = critical_sev, ep_exposable = False, ep_retryable = False\<rparr>"

fun ERROR_CATALOGUE :: "ErrorCode \<Rightarrow> ErrorPolicy" where
  "ERROR_CATALOGUE UNAUTHORIZED = expected 401"
| "ERROR_CATALOGUE FORBIDDEN_SCOPE = expected 403"
| "ERROR_CATALOGUE INVALID_SCOPES = expected 400"
| "ERROR_CATALOGUE ACCOUNT_NOT_FOUND = expected 404"
| "ERROR_CATALOGUE INVALID_DESTINATION = expected 400"
| "ERROR_CATALOGUE UNSAFE_WEBHOOK_URL = expected 400"
| "ERROR_CATALOGUE NOT_FOUND = expected 404"
| "ERROR_CATALOGUE VALIDATION = expected 400"
| "ERROR_CATALOGUE BAD_REQUEST = expected 400"
| "ERROR_CATALOGUE RATE_LIMITED =
     \<lparr>ep_status = 429, ep_severity = expected_sev, ep_exposable = True, ep_retryable = True\<rparr>"
| "ERROR_CATALOGUE INTERNAL = internal 500"
| "ERROR_CATALOGUE UNCLASSIFIED = internal 500"
| "ERROR_CATALOGUE AUTH_FAILED = expected 401"
| "ERROR_CATALOGUE ACCOUNT_LOCKED = expected 423"
| "ERROR_CATALOGUE MFA_REQUIRED = expected 401"
| "ERROR_CATALOGUE MFA_ENROLMENT_REQUIRED = expected 401"
| "ERROR_CATALOGUE PRINCIPAL_EXISTS = conflict 409"
| "ERROR_CATALOGUE PRINCIPAL_NOT_FOUND = expected 404"
| "ERROR_CATALOGUE INVALID_ROLE = expected 400"
| "ERROR_CATALOGUE NOT_AUTHENTICATED = expected 401"
| "ERROR_CATALOGUE FORBIDDEN = expected 403"
| "ERROR_CATALOGUE CSRF_FAILED = expected 403"
| "ERROR_CATALOGUE PASSWORD_CHANGE_REQUIRED = expected 403"
| "ERROR_CATALOGUE UNSUPPORTED_CHAIN = expected 400"
| "ERROR_CATALOGUE CHAIN_MISCONFIGURED = internal 500"
| "ERROR_CATALOGUE AUTHORIZATION_INVALID =
     \<lparr>ep_status = 403, ep_severity = critical_sev, ep_exposable = True, ep_retryable = False\<rparr>"
| "ERROR_CATALOGUE TRON_TX_MISMATCH = internal 500"
| "ERROR_CATALOGUE POLICY_DENIED = expected 403"
| "ERROR_CATALOGUE POLICY_APPROVAL_REQUIRED = expected 202"
| "ERROR_CATALOGUE POLICY_TIME_LOCKED = expected 202"
| "ERROR_CATALOGUE POLICY_COMPLIANCE_HOLD = expected 403"
| "ERROR_CATALOGUE POLICY_SELF_APPROVAL = expected 403"
| "ERROR_CATALOGUE WITHDRAWAL_NOT_FOUND = expected 404"
| "ERROR_CATALOGUE FEE_TREASURY_NOT_CONFIGURED =
     \<lparr>ep_status = 400, ep_severity = warning_sev, ep_exposable = True, ep_retryable = False\<rparr>"
| "ERROR_CATALOGUE SWEEP_HALTED = conflict 409"
| "ERROR_CATALOGUE GAS_FLOAT_DEPLETED =
     \<lparr>ep_status = 503, ep_severity = critical_sev, ep_exposable = False, ep_retryable = True\<rparr>"
| "ERROR_CATALOGUE GAS_TREASURY_NOT_CONFIGURED = internal 500"
| "ERROR_CATALOGUE CONFIG_NOT_FOUND = internal 500"
| "ERROR_CATALOGUE CONFIG_INVALID_ENV = internal 500"
| "ERROR_CATALOGUE SIGNING_KEY_UNAVAILABLE =
     \<lparr>ep_status = 503, ep_severity = critical_sev, ep_exposable = False, ep_retryable = True\<rparr>"
| "ERROR_CATALOGUE DATABASE_NOT_CONFIGURED = internal 500"
| "ERROR_CATALOGUE DATABASE_PLACEHOLDER_URL = internal 500"
| "ERROR_CATALOGUE LEDGER_INSUFFICIENT_FUNDS = conflict 409"
| "ERROR_CATALOGUE LEDGER_UNKNOWN_ENTRY = conflict 409"
| "ERROR_CATALOGUE LEDGER_UNBALANCED_ENTRY = internal 500"
| "ERROR_CATALOGUE LEDGER_INVALID_POSTING = expected 400"
| "ERROR_CATALOGUE LEDGER_DUPLICATE_ENTRY_ID = conflict 409"
| "ERROR_CATALOGUE MPC_NODE_REJECTED = transient 502"
| "ERROR_CATALOGUE MPC_THRESHOLD_NOT_MET = transient 503"
| "ERROR_CATALOGUE MPC_BAD_CONTRIBUTION =
     \<lparr>ep_status = 502, ep_severity = critical_sev, ep_exposable = False, ep_retryable = False\<rparr>"
| "ERROR_CATALOGUE MPC_INTERIM_FORBIDDEN = expected 403"
| "ERROR_CATALOGUE POOL_INSUFFICIENT_FUNDS = conflict 409"
| "ERROR_CATALOGUE POOL_ADDRESS_NOT_FOUND = expected 404"
| "ERROR_CATALOGUE POOL_CONCURRENT_MODIFICATION =
     \<lparr>ep_status = 409, ep_severity = warning_sev, ep_exposable = True, ep_retryable = True\<rparr>"
| "ERROR_CATALOGUE POOL_INVALID_TRANSITION = conflict 409"
| "ERROR_CATALOGUE GATHER_BUSY =
     \<lparr>ep_status = 409, ep_severity = expected_sev, ep_exposable = True, ep_retryable = True\<rparr>"
| "ERROR_CATALOGUE GATHER_STRATEGY_UNKNOWN = expected 400"
| "ERROR_CATALOGUE GATHER_STRATEGY_NOT_SUPPORTED = expected 400"

definition error_code_string :: "ErrorCode \<Rightarrow> string" where
  "error_code_string c = (case c of
     UNAUTHORIZED \<Rightarrow> ''UNAUTHORIZED''
   | FORBIDDEN_SCOPE \<Rightarrow> ''FORBIDDEN_SCOPE''
   | INVALID_SCOPES \<Rightarrow> ''INVALID_SCOPES''
   | ACCOUNT_NOT_FOUND \<Rightarrow> ''ACCOUNT_NOT_FOUND''
   | INVALID_DESTINATION \<Rightarrow> ''INVALID_DESTINATION''
   | UNSAFE_WEBHOOK_URL \<Rightarrow> ''UNSAFE_WEBHOOK_URL''
   | NOT_FOUND \<Rightarrow> ''NOT_FOUND''
   | VALIDATION \<Rightarrow> ''VALIDATION''
   | BAD_REQUEST \<Rightarrow> ''BAD_REQUEST''
   | RATE_LIMITED \<Rightarrow> ''RATE_LIMITED''
   | INTERNAL \<Rightarrow> ''INTERNAL''
   | UNCLASSIFIED \<Rightarrow> ''UNCLASSIFIED''
   | AUTH_FAILED \<Rightarrow> ''AUTH_FAILED''
   | ACCOUNT_LOCKED \<Rightarrow> ''ACCOUNT_LOCKED''
   | MFA_REQUIRED \<Rightarrow> ''MFA_REQUIRED''
   | MFA_ENROLMENT_REQUIRED \<Rightarrow> ''MFA_ENROLMENT_REQUIRED''
   | PRINCIPAL_EXISTS \<Rightarrow> ''PRINCIPAL_EXISTS''
   | PRINCIPAL_NOT_FOUND \<Rightarrow> ''PRINCIPAL_NOT_FOUND''
   | INVALID_ROLE \<Rightarrow> ''INVALID_ROLE''
   | NOT_AUTHENTICATED \<Rightarrow> ''NOT_AUTHENTICATED''
   | FORBIDDEN \<Rightarrow> ''FORBIDDEN''
   | CSRF_FAILED \<Rightarrow> ''CSRF_FAILED''
   | PASSWORD_CHANGE_REQUIRED \<Rightarrow> ''PASSWORD_CHANGE_REQUIRED''
   | UNSUPPORTED_CHAIN \<Rightarrow> ''UNSUPPORTED_CHAIN''
   | CHAIN_MISCONFIGURED \<Rightarrow> ''CHAIN_MISCONFIGURED''
   | AUTHORIZATION_INVALID \<Rightarrow> ''AUTHORIZATION_INVALID''
   | TRON_TX_MISMATCH \<Rightarrow> ''TRON_TX_MISMATCH''
   | POLICY_DENIED \<Rightarrow> ''POLICY_DENIED''
   | POLICY_APPROVAL_REQUIRED \<Rightarrow> ''POLICY_APPROVAL_REQUIRED''
   | POLICY_TIME_LOCKED \<Rightarrow> ''POLICY_TIME_LOCKED''
   | POLICY_COMPLIANCE_HOLD \<Rightarrow> ''POLICY_COMPLIANCE_HOLD''
   | POLICY_SELF_APPROVAL \<Rightarrow> ''POLICY_SELF_APPROVAL''
   | WITHDRAWAL_NOT_FOUND \<Rightarrow> ''WITHDRAWAL_NOT_FOUND''
   | FEE_TREASURY_NOT_CONFIGURED \<Rightarrow> ''FEE_TREASURY_NOT_CONFIGURED''
   | SWEEP_HALTED \<Rightarrow> ''SWEEP_HALTED''
   | GAS_FLOAT_DEPLETED \<Rightarrow> ''GAS_FLOAT_DEPLETED''
   | GAS_TREASURY_NOT_CONFIGURED \<Rightarrow> ''GAS_TREASURY_NOT_CONFIGURED''
   | CONFIG_NOT_FOUND \<Rightarrow> ''CONFIG_NOT_FOUND''
   | CONFIG_INVALID_ENV \<Rightarrow> ''CONFIG_INVALID_ENV''
   | SIGNING_KEY_UNAVAILABLE \<Rightarrow> ''SIGNING_KEY_UNAVAILABLE''
   | DATABASE_NOT_CONFIGURED \<Rightarrow> ''DATABASE_NOT_CONFIGURED''
   | DATABASE_PLACEHOLDER_URL \<Rightarrow> ''DATABASE_PLACEHOLDER_URL''
   | LEDGER_INSUFFICIENT_FUNDS \<Rightarrow> ''LEDGER_INSUFFICIENT_FUNDS''
   | LEDGER_UNKNOWN_ENTRY \<Rightarrow> ''LEDGER_UNKNOWN_ENTRY''
   | LEDGER_UNBALANCED_ENTRY \<Rightarrow> ''LEDGER_UNBALANCED_ENTRY''
   | LEDGER_INVALID_POSTING \<Rightarrow> ''LEDGER_INVALID_POSTING''
   | LEDGER_DUPLICATE_ENTRY_ID \<Rightarrow> ''LEDGER_DUPLICATE_ENTRY_ID''
   | MPC_NODE_REJECTED \<Rightarrow> ''MPC_NODE_REJECTED''
   | MPC_THRESHOLD_NOT_MET \<Rightarrow> ''MPC_THRESHOLD_NOT_MET''
   | MPC_BAD_CONTRIBUTION \<Rightarrow> ''MPC_BAD_CONTRIBUTION''
   | MPC_INTERIM_FORBIDDEN \<Rightarrow> ''MPC_INTERIM_FORBIDDEN''
   | POOL_INSUFFICIENT_FUNDS \<Rightarrow> ''POOL_INSUFFICIENT_FUNDS''
   | POOL_ADDRESS_NOT_FOUND \<Rightarrow> ''POOL_ADDRESS_NOT_FOUND''
   | POOL_CONCURRENT_MODIFICATION \<Rightarrow> ''POOL_CONCURRENT_MODIFICATION''
   | POOL_INVALID_TRANSITION \<Rightarrow> ''POOL_INVALID_TRANSITION''
   | GATHER_BUSY \<Rightarrow> ''GATHER_BUSY''
   | GATHER_STRATEGY_UNKNOWN \<Rightarrow> ''GATHER_STRATEGY_UNKNOWN''
   | GATHER_STRATEGY_NOT_SUPPORTED \<Rightarrow> ''GATHER_STRATEGY_NOT_SUPPORTED'')"

definition UNCLASSIFIED_POLICY :: ErrorPolicy where
  "UNCLASSIFIED_POLICY = ERROR_CATALOGUE UNCLASSIFIED"

definition policyFor :: "ErrorCode \<Rightarrow> ErrorPolicy" where
  "policyFor c = ERROR_CATALOGUE c"

section \<open>Thrown values\<close>

text \<open>
  \<open>AppError code message exposable\<close> is an instance of a class under
  \<open>src/common/exceptions\<close>. \<open>ForeignError\<close> is any other \<open>Error\<close>: its message, whether it has a
  \<open>validation\<close> property, and its \<open>statusCode\<close> and \<open>code\<close> properties.
\<close>

datatype app_error =
    AppError ErrorCode string bool
  | ForeignError string bool "int option" "string option"

abbreviation JsError :: "string \<Rightarrow> app_error" where
  "JsError m \<equiv> ForeignError m False None None"

abbreviation InsufficientFundsError :: "string \<Rightarrow> app_error" where
  "InsufficientFundsError m \<equiv> AppError LEDGER_INSUFFICIENT_FUNDS m True"

abbreviation UnknownEntryError :: "string \<Rightarrow> app_error" where
  "UnknownEntryError m \<equiv> AppError LEDGER_UNKNOWN_ENTRY m True"

abbreviation UnbalancedEntryError :: "string \<Rightarrow> app_error" where
  "UnbalancedEntryError m \<equiv> AppError LEDGER_UNBALANCED_ENTRY m True"

abbreviation InvalidPostingError :: "string \<Rightarrow> app_error" where
  "InvalidPostingError m \<equiv> AppError LEDGER_INVALID_POSTING m True"

abbreviation DuplicateEntryIdError :: "string \<Rightarrow> app_error" where
  "DuplicateEntryIdError m \<equiv> AppError LEDGER_DUPLICATE_ENTRY_ID m True"

abbreviation InsufficientPoolFundsError :: "string \<Rightarrow> app_error" where
  "InsufficientPoolFundsError m \<equiv> AppError POOL_INSUFFICIENT_FUNDS m True"

abbreviation PoolAddressNotFoundError :: "string \<Rightarrow> app_error" where
  "PoolAddressNotFoundError m \<equiv> AppError POOL_ADDRESS_NOT_FOUND m True"

abbreviation PoolConcurrentModificationError :: "string \<Rightarrow> app_error" where
  "PoolConcurrentModificationError m \<equiv> AppError POOL_CONCURRENT_MODIFICATION m True"

abbreviation InvalidPoolTransitionError :: "string \<Rightarrow> app_error" where
  "InvalidPoolTransitionError m \<equiv> AppError POOL_INVALID_TRANSITION m True"

abbreviation GatherBusyError :: "string \<Rightarrow> app_error" where
  "GatherBusyError m \<equiv> AppError GATHER_BUSY m True"

abbreviation UnknownGatherStrategyError :: "string \<Rightarrow> bool \<Rightarrow> app_error" where
  "UnknownGatherStrategyError m ex \<equiv> AppError GATHER_STRATEGY_UNKNOWN m ex"

abbreviation GatherStrategyNotSupportedError :: "string \<Rightarrow> app_error" where
  "GatherStrategyNotSupportedError m \<equiv> AppError GATHER_STRATEGY_NOT_SUPPORTED m True"

abbreviation InvalidAuthorizationError :: "string \<Rightarrow> app_error" where
  "InvalidAuthorizationError m \<equiv> AppError AUTHORIZATION_INVALID m True"

abbreviation PolicyDeniedError :: "string \<Rightarrow> app_error" where
  "PolicyDeniedError m \<equiv> AppError POLICY_DENIED m True"

abbreviation ApprovalRequiredError :: "string \<Rightarrow> app_error" where
  "ApprovalRequiredError m \<equiv> AppError POLICY_APPROVAL_REQUIRED m True"

abbreviation TimeLockedError :: "string \<Rightarrow> app_error" where
  "TimeLockedError m \<equiv> AppError POLICY_TIME_LOCKED m True"

abbreviation ComplianceHoldError :: "string \<Rightarrow> app_error" where
  "ComplianceHoldError m \<equiv> AppError POLICY_COMPLIANCE_HOLD m True"

abbreviation SelfApprovalError :: "string \<Rightarrow> app_error" where
  "SelfApprovalError m \<equiv> AppError POLICY_SELF_APPROVAL m True"

abbreviation WithdrawalNotFoundError :: "string \<Rightarrow> app_error" where
  "WithdrawalNotFoundError m \<equiv> AppError WITHDRAWAL_NOT_FOUND m True"

abbreviation SweepHaltedError :: "string \<Rightarrow> app_error" where
  "SweepHaltedError m \<equiv> AppError SWEEP_HALTED m True"

abbreviation GasFloatDepletedError :: "string \<Rightarrow> app_error" where
  "GasFloatDepletedError m \<equiv> AppError GAS_FLOAT_DEPLETED m True"

abbreviation GasTreasuryNotConfiguredError :: "string \<Rightarrow> app_error" where
  "GasTreasuryNotConfiguredError m \<equiv> AppError GAS_TREASURY_NOT_CONFIGURED m True"

fun err_message :: "app_error \<Rightarrow> string" where
  "err_message (AppError c m x) = m"
| "err_message (ForeignError m v st c) = m"

fun err_code :: "app_error \<Rightarrow> ErrorCode option" where
  "err_code (AppError c m x) = Some c"
| "err_code (ForeignError m v st c) = None"

definition INTERNAL_MESSAGE :: string where
  "INTERNAL_MESSAGE = ''An internal error occurred''"

definition isExposable :: "ErrorCode \<Rightarrow> bool \<Rightarrow> bool" where
  "isExposable c ex \<longleftrightarrow> ep_exposable (policyFor c) \<and> ex"

section \<open>Records, public bodies and the handler\<close>

record PublicError =
  pe_id :: string
  pe_code :: string
  pe_message :: string

record ErrorRecord =
  er_id :: string
  er_code :: string
  er_message :: string
  er_occurredAt :: int
  er_severity :: ErrorSeverity
  er_exposable :: bool

record ResolvedError =
  re_status :: int
  re_severity :: ErrorSeverity
  re_record :: ErrorRecord
  re_body :: PublicError
  re_persist :: bool

fun toErrorRecord :: "string \<Rightarrow> int \<Rightarrow> app_error \<Rightarrow> ErrorRecord" where
  "toErrorRecord i at (AppError c m ex) =
     \<lparr>er_id = i, er_code = error_code_string c, er_message = m, er_occurredAt = at,
      er_severity = ep_severity (policyFor c), er_exposable = isExposable c ex\<rparr>"
| "toErrorRecord i at (ForeignError m v st c) =
     \<lparr>er_id = i, er_code = ''UNCLASSIFIED'', er_message = m, er_occurredAt = at,
      er_severity = ep_severity UNCLASSIFIED_POLICY, er_exposable = ep_exposable UNCLASSIFIED_POLICY\<rparr>"

definition toPublic :: "string \<Rightarrow> ErrorCode \<Rightarrow> string \<Rightarrow> bool \<Rightarrow> PublicError" where
  "toPublic i c m ex =
     \<lparr>pe_id = i, pe_code = error_code_string c,
      pe_message = (if isExposable c ex then m else INTERNAL_MESSAGE)\<rparr>"

definition finish :: "int \<Rightarrow> ErrorRecord \<Rightarrow> PublicError \<Rightarrow> ResolvedError" where
  "finish st r p =
     \<lparr>re_status = st, re_severity = er_severity r, re_record = r, re_body = p,
      re_persist = (er_severity r \<noteq> expected_sev)\<rparr>"

fun resolveError :: "string \<Rightarrow> int \<Rightarrow> app_error \<Rightarrow> ResolvedError" where
  "resolveError i at (AppError c m ex) =
     finish (ep_status (policyFor c)) (toErrorRecord i at (AppError c m ex)) (toPublic i c m ex)"
| "resolveError i at (ForeignError m v st c) =
     (let r = toErrorRecord i at (ForeignError m v st c) in
      if v then
        finish (ep_status (policyFor VALIDATION))
          (r\<lparr>er_code := ''VALIDATION'', er_severity := ep_severity (policyFor VALIDATION)\<rparr>)
          \<lparr>pe_id = er_id r, pe_code = ''VALIDATION'', pe_message = m\<rparr>
      else
        let status = (case st of Some k \<Rightarrow> k | None \<Rightarrow> 500) in
        if status \<ge> 400 \<and> status < 500 then
          let code = (case c of Some k \<Rightarrow> k | None \<Rightarrow> ''BAD_REQUEST'') in
          finish status (r\<lparr>er_code := code\<rparr>)
            \<lparr>pe_id = er_id r, pe_code = code, pe_message = m\<rparr>
        else finish 500 r
          \<lparr>pe_id = er_id r, pe_code = ''INTERNAL'', pe_message = ''Internal error''\<rparr>)"

definition notFoundResponse :: "string \<Rightarrow> int \<Rightarrow> string \<Rightarrow> string \<Rightarrow> ResolvedError" where
  "notFoundResponse i at meth url =
     (let m = ''Route '' @ meth @ '':'' @ url @ '' not found'';
          r = toErrorRecord i at (JsError m) in
      finish (ep_status (policyFor NOT_FOUND))
        (r\<lparr>er_code := ''NOT_FOUND'', er_severity := ep_severity (policyFor NOT_FOUND)\<rparr>)
        \<lparr>pe_id = er_id r, pe_code = ''NOT_FOUND'', pe_message = m\<rparr>)"

text \<open>
  \<open>handleError\<close>: the sink is the list of captured records (\<open>InMemoryErrorSink\<close>), and
  \<open>onCritical\<close> is the list of records it was called with.
\<close>

record error_sinks =
  es_captured :: "ErrorRecord list"
  es_paged :: "ErrorRecord list"

definition handleError :: "string \<Rightarrow> int \<Rightarrow> app_error \<Rightarrow> error_sinks \<Rightarrow> ResolvedError \<times> error_sinks" where
  "handleError i at e k =
     (let r = resolveError i at e;
          k1 = (if re_persist r then k\<lparr>es_captured := es_captured k @ [re_record r]\<rparr> else k);
          k2 = (if re_severity r = critical_sev then k1\<lparr>es_paged := es_paged k1 @ [re_record r]\<rparr> else k1)
      in (r, k2))"

section \<open>What the catalogue and the handler promise\<close>

lemma ERROR_CODES_complete: "c \<in> set ERROR_CODES"
  by (cases c) (simp_all add: ERROR_CODES_def API_ERROR_CODES_def AUTH_ERROR_CODES_def
      CHAIN_ERROR_CODES_def CONFIG_ERROR_CODES_def INFRA_ERROR_CODES_def LEDGER_ERROR_CODES_def
      MPC_ERROR_CODES_def POOL_ERROR_CODES_def)

lemmas policy_defs = policyFor_def expected_def conflict_def transient_def internal_def

lemma status_is_4xx_5xx_or_202:
  "ep_status (policyFor c) = 202 \<or> (400 \<le> ep_status (policyFor c) \<and> ep_status (policyFor c) < 600)"
  by (cases c) (simp_all add: policy_defs)

lemma critical_server_errors_hidden:
  "ep_status (policyFor c) \<ge> 500 \<Longrightarrow> \<not> ep_exposable (policyFor c)"
  by (cases c) (simp_all add: policy_defs)

text \<open>C37. The error handler never leaks an internal message: a response with status 500 or
  above carries only one of the two generic texts, whatever was thrown; and every response
  status is either 202 or in [400, 600). Its record is persisted unless the severity is
  \<open>expected\<close> and pages exactly when it is \<open>critical\<close>.\<close>

theorem handleError_hides_internals:
  "let (r, k') = handleError i at e k in
     (if 500 \<le> re_status r then pe_message (re_body r) \<in> {INTERNAL_MESSAGE, ''Internal error''} else True)
     \<and> (re_status r = 202 \<or> 400 \<le> re_status r \<and> re_status r < 600)
     \<and> es_captured k' = es_captured k @ (if re_severity r \<noteq> expected_sev then [re_record r] else [])
     \<and> es_paged k' = es_paged k @ (if re_severity r = critical_sev then [re_record r] else [])"
proof (cases e)
  case (AppError c m ex)
  then show ?thesis
    using status_is_4xx_5xx_or_202 [of c] critical_server_errors_hidden [of c]
    by (auto simp: handleError_def Let_def finish_def toPublic_def isExposable_def split: prod.splits)
next
  case (ForeignError m v st c)
  then show ?thesis
    using status_is_4xx_5xx_or_202 [of VALIDATION]
    by (auto simp: handleError_def Let_def finish_def INTERNAL_MESSAGE_def policy_defs
        split: prod.splits option.splits)
qed

end
