(* ===== verification/Ledger_Core.thy ===== *)
theory Ledger_Core
  imports App_Errors
begin

text \<open>
  The double-entry core (\<open>src/ledger\<close>, \<open>types/models/ledger.ts\<close>, \<open>types/enums\<close>): account
  classification, balanced entries, the posting flows that build every journal entry,
  and the solvency report. Lemmas: the flows only build balanced entries, the fee split
  is exact, and a reversal cancels its original.
\<close>

section \<open>Data\<close>

datatype AccountType = Liability | Asset | Revenue | Expense

datatype Direction = DEBIT | CREDIT

fun NORMAL_SIDE :: "AccountType \<Rightarrow> Direction" where
  "NORMAL_SIDE Liability = CREDIT"
| "NORMAL_SIDE Asset = DEBIT"
| "NORMAL_SIDE Revenue = CREDIT"
| "NORMAL_SIDE Expense = DEBIT"

record Posting =
  p_account :: string
  p_asset :: string
  p_amount :: int
  p_direction :: Direction

record JournalEntry =
  je_id :: string
  je_idempotencyKey :: string
  je_kind :: string
  je_postings :: "Posting list"
  je_occurredAt :: int

type_synonym TotalsByType = "(AccountType, (string, int) jsmap) jsmap"

record AssetSolvency =
  as_asset :: string
  as_assets :: int
  as_liabilities :: int

text \<open>The branded constructor \<open>Asset(s)\<close> of \<open>types/models/money.ts\<close> upper-cases its argument.\<close>

definition mk_Asset :: "string \<Rightarrow> string" where
  "mk_Asset s = toUpperCase s"

section \<open>Account classification (account-classify.ts)\<close>

definition account_prefix :: "string \<Rightarrow> string" where
  "account_prefix key = takeWhile (\<lambda>c. c \<noteq> CHR '':'') key"

definition accountTypeOf :: "string \<Rightarrow> app_error + AccountType" where
  "accountTypeOf key =
     (let prefix = account_prefix key in
      if startsWith prefix ''merchant_'' \<or> prefix = ''compliance_suspense'' then Inr Liability
      else if startsWith prefix ''pool_addr'' \<or> prefix \<in> set [''treasury'', ''cold'', ''gas_float'']
        then Inr Asset
      else if endsWith prefix ''_revenue'' then Inr Revenue
      else if endsWith prefix ''_expense'' then Inr Expense
      else Inl (JsError (''Unknown account key prefix: '' @ prefix)))"

definition normalBalance :: "string \<Rightarrow> int \<Rightarrow> app_error + int" where
  "normalBalance key signedNet =
     rbind (accountTypeOf key) (\<lambda>t. Inr (if NORMAL_SIDE t = DEBIT then signedNet else - signedNet))"

section \<open>Balanced entries (balanced.ts, entry.ts)\<close>

fun flip :: "Direction \<Rightarrow> Direction" where
  "flip DEBIT = CREDIT"
| "flip CREDIT = DEBIT"

definition signed :: "Posting \<Rightarrow> int" where
  "signed p = (if p_direction p = DEBIT then p_amount p else - p_amount p)"

fun nettedByAsset_loop :: "(string, int) jsmap \<Rightarrow> Posting list \<Rightarrow> app_error + (string, int) jsmap" where
  "nettedByAsset_loop net [] = Inr net"
| "nettedByAsset_loop net (p # ps) =
     (if p_amount p \<le> 0
      then Inl (InvalidPostingError (''Posting amount must be positive, got '' @ show_int (p_amount p)))
      else nettedByAsset_loop
        (AList.update (p_asset p) (map_get_or net (p_asset p) 0 + signed p) net) ps)"

definition nettedByAsset :: "Posting list \<Rightarrow> app_error + (string, int) jsmap" where
  "nettedByAsset ps = nettedByAsset_loop [] ps"

definition isBalanced :: "JournalEntry \<Rightarrow> app_error + bool" where
  "isBalanced e = rbind (nettedByAsset (je_postings e)) (\<lambda>net. Inr (list_all (\<lambda>(_, v). v = 0) net))"

definition assertBalanced :: "JournalEntry \<Rightarrow> app_error + unit" where
  "assertBalanced e =
     (if je_postings e = []
      then Inl (UnbalancedEntryError (''Journal entry '' @ je_id e @ '' has no postings''))
      else rbind (isBalanced e) (\<lambda>b.
        if \<not> b then Inl (UnbalancedEntryError
          (''Journal entry '' @ je_id e @ '' ('' @ je_kind e @ '') does not sum to zero per asset''))
        else Inr ()))"

section \<open>Posting flows (posting-flows.ts)\<close>

definition BPS_DENOMINATOR :: int where
  "BPS_DENOMINATOR = 10000"

text \<open>
  \<open>feeBasisPoints\<close> is a JavaScript number; \<open>Number.isInteger\<close> is modelled by its type \<open>int\<close>.
  \<open>bigint\<close> division truncates, which on the non-negative operands here is \<open>div\<close>.
\<close>

definition splitFee :: "int \<Rightarrow> int \<Rightarrow> app_error + (int \<times> int)" where
  "splitFee amt feeBasisPoints =
     (if amt \<le> 0 then Inl (InvalidPostingError (''Deposit amount must be positive, got '' @ show_int amt))
      else if feeBasisPoints < 0 \<or> feeBasisPoints \<ge> 10000
        then Inl (InvalidPostingError
          (''feeBasisPoints must be an integer in [0, 10000), got '' @ show_int feeBasisPoints))
      else let fee = (amt * feeBasisPoints) div BPS_DENOMINATOR in Inr (fee, amt - fee))"

record DepositFinalizedInput =
  df_id :: string
  df_idempotencyKey :: string
  df_asset :: string
  df_amount :: int
  df_feeBasisPoints :: int
  df_poolAddr :: string
  df_merchantAvailable :: string
  df_feeRevenue :: string
  df_occurredAt :: int

record PayoutLockedInput =
  pl_id :: string
  pl_idempotencyKey :: string
  pl_asset :: string
  pl_amount :: int
  pl_merchantAvailable :: string
  pl_merchantPendingWithdrawal :: string
  pl_occurredAt :: int

record NetworkFeeLeg =
  nf_asset :: string
  nf_amount :: int
  nf_gasFloat :: string
  nf_expense :: string

record PayoutSettledInput =
  ps_id :: string
  ps_idempotencyKey :: string
  ps_asset :: string
  ps_amount :: int
  ps_merchantPendingWithdrawal :: string
  ps_poolAddr :: string
  ps_networkFee :: "NetworkFeeLeg option"
  ps_occurredAt :: int

record FeeSweptInput =
  fs_id :: string
  fs_idempotencyKey :: string
  fs_asset :: string
  fs_amount :: int
  fs_poolAddr :: string
  fs_treasury :: string
  fs_networkFee :: "NetworkFeeLeg option"
  fs_occurredAt :: int

record DepositDetectedInput =
  dd_id :: string
  dd_idempotencyKey :: string
  dd_asset :: string
  dd_amount :: int
  dd_poolAddrUnconfirmed :: string
  dd_merchantPending :: string
  dd_occurredAt :: int

record DepositQuarantinedInput =
  dq_id :: string
  dq_idempotencyKey :: string
  dq_asset :: string
  dq_amount :: int
  dq_poolAddr :: string
  dq_complianceSuspense :: string
  dq_occurredAt :: int

record DepositReleasedInput =
  dr_id :: string
  dr_idempotencyKey :: string
  dr_asset :: string
  dr_amount :: int
  dr_fee :: int
  dr_complianceSuspense :: string
  dr_merchantAvailable :: string
  dr_feeRevenue :: string
  dr_occurredAt :: int

abbreviation post_debit :: "string \<Rightarrow> string \<Rightarrow> int \<Rightarrow> Posting" where
  "post_debit acc ass amt \<equiv> \<lparr>p_account = acc, p_asset = ass, p_amount = amt, p_direction = DEBIT\<rparr>"

abbreviation post_credit :: "string \<Rightarrow> string \<Rightarrow> int \<Rightarrow> Posting" where
  "post_credit acc ass amt \<equiv> \<lparr>p_account = acc, p_asset = ass, p_amount = amt, p_direction = CREDIT\<rparr>"

text \<open>Every flow ends with \<open>assertBalanced(entry); return entry;\<close>.\<close>

definition checked_entry :: "JournalEntry \<Rightarrow> app_error + JournalEntry" where
  "checked_entry e = rbind (assertBalanced e) (\<lambda>_. Inr e)"

definition depositFinalized :: "DepositFinalizedInput \<Rightarrow> app_error + JournalEntry" where
  "depositFinalized i =
     rbind (splitFee (df_amount i) (df_feeBasisPoints i)) (\<lambda>(fee, net).
       checked_entry
         \<lparr>je_id = df_id i, je_idempotencyKey = df_idempotencyKey i, je_kind = ''deposit.finalized'',
          je_postings =
            [post_debit (df_poolAddr i) (df_asset i) (df_amount i),
             post_credit (df_merchantAvailable i) (df_asset i) net]
            @ (if fee > 0 then [post_credit (df_feeRevenue i) (df_asset i) fee] else []),
          je_occurredAt = df_occurredAt i\<rparr>)"

definition payoutLocked :: "PayoutLockedInput \<Rightarrow> app_error + JournalEntry" where
  "payoutLocked i =
     (if pl_amount i \<le> 0
      then Inl (InvalidPostingError (''Payout amount must be positive, got '' @ show_int (pl_amount i)))
      else checked_entry
        \<lparr>je_id = pl_id i, je_idempotencyKey = pl_idempotencyKey i, je_kind = ''payout.locked'',
         je_postings =
           [post_debit (pl_merchantAvailable i) (pl_asset i) (pl_amount i),
            post_credit (pl_merchantPendingWithdrawal i) (pl_asset i) (pl_amount i)],
         je_occurredAt = pl_occurredAt i\<rparr>)"

definition networkFeePostings :: "NetworkFeeLeg option \<Rightarrow> Posting list" where
  "networkFeePostings f = (case f of
     None \<Rightarrow> []
   | Some fee \<Rightarrow> if nf_amount fee \<le> 0 then []
       else [post_debit (nf_expense fee) (nf_asset fee) (nf_amount fee),
             post_credit (nf_gasFloat fee) (nf_asset fee) (nf_amount fee)])"

definition payoutSettled :: "PayoutSettledInput \<Rightarrow> app_error + JournalEntry" where
  "payoutSettled i =
     (if ps_amount i \<le> 0
      then Inl (InvalidPostingError (''Payout amount must be positive, got '' @ show_int (ps_amount i)))
      else checked_entry
        \<lparr>je_id = ps_id i, je_idempotencyKey = ps_idempotencyKey i, je_kind = ''payout.settled'',
         je_postings =
           [post_debit (ps_merchantPendingWithdrawal i) (ps_asset i) (ps_amount i),
            post_credit (ps_poolAddr i) (ps_asset i) (ps_amount i)]
           @ networkFeePostings (ps_networkFee i),
         je_occurredAt = ps_occurredAt i\<rparr>)"

definition feeSwept :: "FeeSweptInput \<Rightarrow> app_error + JournalEntry" where
  "feeSwept i =
     (if fs_amount i \<le> 0
      then Inl (InvalidPostingError (''Fee sweep amount must be positive, got '' @ show_int (fs_amount i)))
      else checked_entry
        \<lparr>je_id = fs_id i, je_idempotencyKey = fs_idempotencyKey i, je_kind = ''fee.swept'',
         je_postings =
           [post_debit (fs_treasury i) (fs_asset i) (fs_amount i),
            post_credit (fs_poolAddr i) (fs_asset i) (fs_amount i)]
           @ networkFeePostings (fs_networkFee i),
         je_occurredAt = fs_occurredAt i\<rparr>)"

definition depositDetected :: "DepositDetectedInput \<Rightarrow> app_error + JournalEntry" where
  "depositDetected i =
     (if dd_amount i \<le> 0
      then Inl (InvalidPostingError (''Deposit amount must be positive, got '' @ show_int (dd_amount i)))
      else checked_entry
        \<lparr>je_id = dd_id i, je_idempotencyKey = dd_idempotencyKey i, je_kind = ''deposit.detected'',
         je_postings =
           [post_debit (dd_poolAddrUnconfirmed i) (dd_asset i) (dd_amount i),
            post_credit (dd_merchantPending i) (dd_asset i) (dd_amount i)],
         je_occurredAt = dd_occurredAt i\<rparr>)"

definition depositQuarantined :: "DepositQuarantinedInput \<Rightarrow> app_error + JournalEntry" where
  "depositQuarantined i =
     (if dq_amount i \<le> 0
      then Inl (InvalidPostingError (''Deposit amount must be positive, got '' @ show_int (dq_amount i)))
      else checked_entry
        \<lparr>je_id = dq_id i, je_idempotencyKey = dq_idempotencyKey i, je_kind = ''deposit.quarantined'',
         je_postings =
           [post_debit (dq_poolAddr i) (dq_asset i) (dq_amount i),
            post_credit (dq_complianceSuspense i) (dq_asset i) (dq_amount i)],
         je_occurredAt = dq_occurredAt i\<rparr>)"

definition depositReleased :: "DepositReleasedInput \<Rightarrow> app_error + JournalEntry" where
  "depositReleased i =
     (if dr_amount i \<le> 0
      then Inl (InvalidPostingError (''Release amount must be positive, got '' @ show_int (dr_amount i)))
      else if dr_fee i < 0
      then Inl (InvalidPostingError (''Release fee must be non-negative, got '' @ show_int (dr_fee i)))
      else let gross = dr_amount i + dr_fee i in
        checked_entry
          \<lparr>je_id = dr_id i, je_idempotencyKey = dr_idempotencyKey i, je_kind = ''deposit.released'',
           je_postings =
             [post_debit (dr_complianceSuspense i) (dr_asset i) gross,
              post_credit (dr_merchantAvailable i) (dr_asset i) (dr_amount i)]
             @ (if dr_fee i > 0 then [post_credit (dr_feeRevenue i) (dr_asset i) (dr_fee i)] else []),
           je_occurredAt = dr_occurredAt i\<rparr>)"

definition flip_posting :: "Posting \<Rightarrow> Posting" where
  "flip_posting p = p\<lparr>p_direction := flip (p_direction p)\<rparr>"

definition reverse :: "JournalEntry \<Rightarrow> string \<Rightarrow> string \<Rightarrow> int \<Rightarrow> app_error + JournalEntry" where
  "reverse e newId newKey occurredAt =
     checked_entry
       \<lparr>je_id = newId, je_idempotencyKey = newKey, je_kind = ''reverse:'' @ je_kind e,
        je_postings = map flip_posting (je_postings e), je_occurredAt = occurredAt\<rparr>"

section \<open>Solvency (solvency.ts)\<close>

definition sumForAsset :: "TotalsByType \<Rightarrow> AccountType \<Rightarrow> string \<Rightarrow> int" where
  "sumForAsset totals t asset =
     (case map_of totals t of None \<Rightarrow> 0 | Some m \<Rightarrow> map_get_or m asset 0)"

definition assetSolvency :: "TotalsByType \<Rightarrow> string \<Rightarrow> AssetSolvency" where
  "assetSolvency totals asset =
     \<lparr>as_asset = asset, as_assets = sumForAsset totals Asset asset,
      as_liabilities = sumForAsset totals Liability asset\<rparr>"

definition isSolvent :: "AssetSolvency \<Rightarrow> bool" where
  "isSolvent s \<longleftrightarrow> as_assets s \<ge> as_liabilities s"

definition solvencyDrift :: "TotalsByType \<Rightarrow> string list \<Rightarrow> AssetSolvency list" where
  "solvencyDrift totals assets = filter (\<lambda>s. \<not> isSolvent s) (map (assetSolvency totals) assets)"

section \<open>Nets of posting lists\<close>

definition net_asset :: "string \<Rightarrow> Posting list \<Rightarrow> int" where
  "net_asset a ps = sum_list (map signed (filter (\<lambda>p. p_asset p = a) ps))"

definition net_account :: "string \<Rightarrow> string \<Rightarrow> Posting list \<Rightarrow> int" where
  "net_account acc a ps = sum_list (map signed (filter (\<lambda>p. p_account p = acc \<and> p_asset p = a) ps))"

definition zero_sum :: "Posting list \<Rightarrow> bool" where
  "zero_sum ps \<longleftrightarrow> (\<forall>a. net_asset a ps = 0)"

definition all_positive :: "Posting list \<Rightarrow> bool" where
  "all_positive ps \<longleftrightarrow> (\<forall>p \<in> set ps. 0 < p_amount p)"

lemma net_asset_Nil [ledger_simps]: "net_asset a [] = 0"
  by (simp add: net_asset_def)

lemma net_asset_Cons [ledger_simps]:
  "net_asset a (p # ps) = (if p_asset p = a then signed p else 0) + net_asset a ps"
  by (simp add: net_asset_def)

lemma net_asset_append [ledger_simps]: "net_asset a (ps @ qs) = net_asset a ps + net_asset a qs"
  by (simp add: net_asset_def)

lemma net_account_Nil [ledger_simps]: "net_account acc a [] = 0"
  by (simp add: net_account_def)

lemma net_account_Cons [ledger_simps]:
  "net_account acc a (p # ps) =
     (if p_account p = acc \<and> p_asset p = a then signed p else 0) + net_account acc a ps"
  by (simp add: net_account_def)

lemma net_account_append [ledger_simps]:
  "net_account acc a (ps @ qs) = net_account acc a ps + net_account acc a qs"
  by (simp add: net_account_def)

lemma signed_debit [simp]: "signed (post_debit acc a n) = n"
  by (simp add: signed_def)

lemma signed_credit [simp]: "signed (post_credit acc a n) = - n"
  by (simp add: signed_def)

lemma signed_flip [simp]: "signed (flip_posting p) = - signed p"
  by (cases "p_direction p") (simp_all add: signed_def flip_posting_def)

lemma flip_posting_fields [simp]:
  "p_account (flip_posting p) = p_account p"
  "p_asset (flip_posting p) = p_asset p"
  "p_amount (flip_posting p) = p_amount p"
  by (simp_all add: flip_posting_def)

lemma net_asset_flip [ledger_simps]: "net_asset a (map flip_posting ps) = - net_asset a ps"
  by (induction ps) (auto simp: ledger_simps)

lemma net_account_flip [ledger_simps]:
  "net_account acc a (map flip_posting ps) = - net_account acc a ps"
  by (induction ps) (auto simp: ledger_simps)

lemma all_positive_flip [simp]: "all_positive (map flip_posting ps) = all_positive ps"
  by (simp add: all_positive_def)

lemma all_positive_simps [simp]:
  "all_positive []"
  "all_positive (p # ps) \<longleftrightarrow> 0 < p_amount p \<and> all_positive ps"
  "all_positive (ps @ qs) \<longleftrightarrow> all_positive ps \<and> all_positive qs"
  by (auto simp: all_positive_def)

lemma zero_sum_append: "zero_sum ps \<Longrightarrow> zero_sum qs \<Longrightarrow> zero_sum (ps @ qs)"
  by (simp add: zero_sum_def ledger_simps)

lemma zero_sum_flip [simp]: "zero_sum (map flip_posting ps) = zero_sum ps"
  by (simp add: zero_sum_def ledger_simps)

section \<open>What the balance check decides\<close>

lemma nettedByAsset_loop_Inr:
  "nettedByAsset_loop net ps = Inr m \<Longrightarrow>
     all_positive ps \<and> (\<forall>a. map_get_or m a 0 = map_get_or net a 0 + net_asset a ps)
     \<and> (distinct (map fst net) \<longrightarrow> distinct (map fst m))"
proof (induction ps arbitrary: net)
  case Nil
  then show ?case by (simp add: ledger_simps)
next
  case (Cons p ps)
  from Cons.prems have pos: "0 < p_amount p"
    and rest: "nettedByAsset_loop
      (AList.update (p_asset p) (map_get_or net (p_asset p) 0 + signed p) net) ps = Inr m"
    by (auto split: if_splits)
  from Cons.IH [OF rest] pos show ?case
    by (auto simp: ledger_simps distinct_update)
qed

lemma nettedByAsset_loop_Inl:
  "nettedByAsset_loop net ps = Inl e \<Longrightarrow>
     \<not> all_positive ps \<and> err_code e = Some LEDGER_INVALID_POSTING"
  by (induction ps arbitrary: net) (auto split: if_splits)

lemma list_all_zero_iff:
  assumes "distinct (map fst m)"
  shows "list_all (\<lambda>(_, v). v = 0) m \<longleftrightarrow> (\<forall>a. map_get_or m a (0::int) = 0)"
proof
  assume "list_all (\<lambda>(_, v). v = 0) m"
  then show "\<forall>a. map_get_or m a 0 = 0"
    by (auto simp: map_get_or_def list_all_iff dest: map_of_SomeD split: option.splits)
next
  assume zero: "\<forall>a. map_get_or m a 0 = 0"
  show "list_all (\<lambda>(_, v). v = 0) m"
    unfolding list_all_iff
  proof clarify
    fix k v assume "(k, v) \<in> set m"
    with assms have "map_of m k = Some v" by simp
    with zero [rule_format, of k] show "v = 0" by (simp add: map_get_or_def)
  qed
qed

text \<open>
  \<open>assertBalanced\<close> accepts exactly the non-empty entries with positive amounts whose
  debits equal their credits in every asset.
\<close>

lemma assertBalanced_iff:
  "assertBalanced e = Inr () \<longleftrightarrow>
     je_postings e \<noteq> [] \<and> all_positive (je_postings e) \<and> zero_sum (je_postings e)"
proof (cases "nettedByAsset (je_postings e)")
  case (Inl err)
  then have "\<not> all_positive (je_postings e)"
    by (auto simp: nettedByAsset_def dest: nettedByAsset_loop_Inl)
  with Inl show ?thesis by (simp add: assertBalanced_def isBalanced_def)
next
  case (Inr m)
  then have "nettedByAsset_loop [] (je_postings e) = Inr m" by (simp add: nettedByAsset_def)
  from nettedByAsset_loop_Inr [OF this] have pos: "all_positive (je_postings e)"
    and net: "\<And>a. map_get_or m a 0 = net_asset a (je_postings e)"
    and dist: "distinct (map fst m)"
    by auto
  from list_all_zero_iff [OF dist] net have "list_all (\<lambda>(_, v). v = 0) m \<longleftrightarrow> zero_sum (je_postings e)"
    by (simp add: zero_sum_def)
  with Inr pos show ?thesis by (simp add: assertBalanced_def isBalanced_def)
qed

lemma assertBalanced_Inl_code:
  "assertBalanced e = Inl err \<Longrightarrow>
     err_code err \<in> {Some LEDGER_UNBALANCED_ENTRY, Some LEDGER_INVALID_POSTING}"
  by (auto simp: assertBalanced_def isBalanced_def nettedByAsset_def rbind_Inl_iff
      dest: nettedByAsset_loop_Inl split: if_splits)

lemma checked_entry_Inr:
  "checked_entry e = Inr e' \<longleftrightarrow>
     e' = e \<and> je_postings e \<noteq> [] \<and> all_positive (je_postings e) \<and> zero_sum (je_postings e)"
proof -
  have "checked_entry e = Inr e' \<longleftrightarrow> e' = e \<and> assertBalanced e = Inr ()"
    by (auto simp: checked_entry_def rbind_Inr_iff)
  then show ?thesis by (auto simp: assertBalanced_iff)
qed

section \<open>The fee split\<close>

lemma splitFee_Inr_iff:
  "splitFee amt bps = Inr (fee, net) \<longleftrightarrow>
     0 < amt \<and> 0 \<le> bps \<and> bps < 10000 \<and> fee = amt * bps div 10000 \<and> net = amt - fee"
  by (auto simp: splitFee_def BPS_DENOMINATOR_def Let_def)

lemma div_less_of_less_mult: "x < y * 10000 \<Longrightarrow> x div 10000 < y" for x y :: int
  by (rule ccontr) (use div_mult_mod_eq [of x 10000] pos_mod_sign [of 10000 x] in linarith)

lemma splitFee_bounds:
  assumes "splitFee amt bps = Inr (fee, net)"
  shows "0 \<le> fee" "0 < net" "fee + net = amt"
proof -
  from assms have r: "0 < amt" "0 \<le> bps" "bps < 10000" "fee = amt * bps div 10000" "net = amt - fee"
    by (auto simp: splitFee_Inr_iff)
  then show "0 \<le> fee" by (simp add: pos_imp_zdiv_nonneg_iff)
  from r have "amt * bps < amt * 10000" by simp
  then have "amt * bps div 10000 < amt" by (rule div_less_of_less_mult)
  with r show "0 < net" by simp
  from r show "fee + net = amt" by simp
qed

section \<open>Closed forms of the flows\<close>

text \<open>
  Each flow's guards are exactly what \<open>assertBalanced\<close> needs: on inputs that pass them the
  final check never throws, and the entry is the one written out here.
\<close>

lemma checked_entry_ok:
  "\<lbrakk>je_postings e \<noteq> []; all_positive (je_postings e); zero_sum (je_postings e)\<rbrakk> \<Longrightarrow> checked_entry e = Inr e"
  by (simp add: checked_entry_Inr)

lemma networkFeePostings_ok [simp]:
  "all_positive (networkFeePostings f)" "net_asset a (networkFeePostings f) = 0"
  by (auto simp: networkFeePostings_def ledger_simps split: option.splits)

definition depositFinalized_entry :: "DepositFinalizedInput \<Rightarrow> int \<Rightarrow> JournalEntry" where
  "depositFinalized_entry i fee =
     \<lparr>je_id = df_id i, je_idempotencyKey = df_idempotencyKey i, je_kind = ''deposit.finalized'',
      je_postings =
        [post_debit (df_poolAddr i) (df_asset i) (df_amount i),
         post_credit (df_merchantAvailable i) (df_asset i) (df_amount i - fee)]
        @ (if fee > 0 then [post_credit (df_feeRevenue i) (df_asset i) fee] else []),
      je_occurredAt = df_occurredAt i\<rparr>"

lemma depositFinalized_cases:
  "depositFinalized i =
     (case splitFee (df_amount i) (df_feeBasisPoints i) of
        Inl e \<Rightarrow> Inl e
      | Inr (fee, net) \<Rightarrow> Inr (depositFinalized_entry i fee))"
proof (cases "splitFee (df_amount i) (df_feeBasisPoints i)")
  case (Inl e)
  then show ?thesis by (simp add: depositFinalized_def)
next
  case (Inr r)
  obtain fee net where r: "r = (fee, net)" by (cases r)
  with Inr have split: "splitFee (df_amount i) (df_feeBasisPoints i) = Inr (fee, net)" by simp
  note b = splitFee_bounds [OF split]
  have net: "net = df_amount i - fee" using b by simp
  have pos: "0 < df_amount i" using split by (simp add: splitFee_Inr_iff)
  have "checked_entry (depositFinalized_entry i fee) = Inr (depositFinalized_entry i fee)"
    by (rule checked_entry_ok) (use b pos net in \<open>auto simp: depositFinalized_entry_def zero_sum_def ledger_simps\<close>)
  with split show ?thesis by (simp add: depositFinalized_def depositFinalized_entry_def net)
qed

lemma payoutLocked_ok:
  "0 < pl_amount i \<Longrightarrow> payoutLocked i = Inr
     \<lparr>je_id = pl_id i, je_idempotencyKey = pl_idempotencyKey i, je_kind = ''payout.locked'',
      je_postings =
        [post_debit (pl_merchantAvailable i) (pl_asset i) (pl_amount i),
         post_credit (pl_merchantPendingWithdrawal i) (pl_asset i) (pl_amount i)],
      je_occurredAt = pl_occurredAt i\<rparr>"
  by (simp add: payoutLocked_def checked_entry_Inr zero_sum_def ledger_simps)

lemma payoutSettled_ok:
  "0 < ps_amount i \<Longrightarrow> payoutSettled i = Inr
     \<lparr>je_id = ps_id i, je_idempotencyKey = ps_idempotencyKey i, je_kind = ''payout.settled'',
      je_postings =
        [post_debit (ps_merchantPendingWithdrawal i) (ps_asset i) (ps_amount i),
         post_credit (ps_poolAddr i) (ps_asset i) (ps_amount i)] @ networkFeePostings (ps_networkFee i),
      je_occurredAt = ps_occurredAt i\<rparr>"
  by (simp add: payoutSettled_def checked_entry_Inr zero_sum_def ledger_simps)

lemma feeSwept_ok:
  "0 < fs_amount i \<Longrightarrow> feeSwept i = Inr
     \<lparr>je_id = fs_id i, je_idempotencyKey = fs_idempotencyKey i, je_kind = ''fee.swept'',
      je_postings =
        [post_debit (fs_treasury i) (fs_asset i) (fs_amount i),
         post_credit (fs_poolAddr i) (fs_asset i) (fs_amount i)] @ networkFeePostings (fs_networkFee i),
      je_occurredAt = fs_occurredAt i\<rparr>"
  by (simp add: feeSwept_def checked_entry_Inr zero_sum_def ledger_simps)

lemma depositQuarantined_ok:
  "0 < dq_amount i \<Longrightarrow> depositQuarantined i = Inr
     \<lparr>je_id = dq_id i, je_idempotencyKey = dq_idempotencyKey i, je_kind = ''deposit.quarantined'',
      je_postings =
        [post_debit (dq_poolAddr i) (dq_asset i) (dq_amount i),
         post_credit (dq_complianceSuspense i) (dq_asset i) (dq_amount i)],
      je_occurredAt = dq_occurredAt i\<rparr>"
  by (simp add: depositQuarantined_def checked_entry_Inr zero_sum_def ledger_simps)

lemma depositDetected_ok:
  "0 < dd_amount i \<Longrightarrow> depositDetected i = Inr
     \<lparr>je_id = dd_id i, je_idempotencyKey = dd_idempotencyKey i, je_kind = ''deposit.detected'',
      je_postings =
        [post_debit (dd_poolAddrUnconfirmed i) (dd_asset i) (dd_amount i),
         post_credit (dd_merchantPending i) (dd_asset i) (dd_amount i)],
      je_occurredAt = dd_occurredAt i\<rparr>"
  by (simp add: depositDetected_def checked_entry_Inr zero_sum_def ledger_simps)

lemma depositReleased_ok:
  "\<lbrakk>0 < dr_amount i; 0 \<le> dr_fee i\<rbrakk> \<Longrightarrow> depositReleased i = Inr
     \<lparr>je_id = dr_id i, je_idempotencyKey = dr_idempotencyKey i, je_kind = ''deposit.released'',
      je_postings =
        [post_debit (dr_complianceSuspense i) (dr_asset i) (dr_amount i + dr_fee i),
         post_credit (dr_merchantAvailable i) (dr_asset i) (dr_amount i)]
        @ (if dr_fee i > 0 then [post_credit (dr_feeRevenue i) (dr_asset i) (dr_fee i)] else []),
      je_occurredAt = dr_occurredAt i\<rparr>"
  by (simp add: depositReleased_def checked_entry_Inr zero_sum_def ledger_simps)

lemma reverse_ok:
  assumes "je_postings e \<noteq> []" "all_positive (je_postings e)" "zero_sum (je_postings e)"
  shows "reverse e i k t = Inr
    \<lparr>je_id = i, je_idempotencyKey = k, je_kind = ''reverse:'' @ je_kind e,
     je_postings = map flip_posting (je_postings e), je_occurredAt = t\<rparr>"
  using assms by (simp add: reverse_def checked_entry_Inr)

lemmas flow_oks = payoutLocked_ok payoutSettled_ok feeSwept_ok depositQuarantined_ok
  depositDetected_ok depositReleased_ok

section \<open>Account classification facts\<close>

lemma account_prefix_append: "CHR '':'' \<notin> set p \<Longrightarrow> account_prefix (p @ CHR '':'' # r) = p"
  by (induction p) (auto simp: account_prefix_def)

lemma account_prefix_of_keys:
  "account_prefix (''merchant_available:'' @ r) = ''merchant_available''"
  "account_prefix (''merchant_pending_withdrawal:'' @ r) = ''merchant_pending_withdrawal''"
  "account_prefix (''compliance_suspense:'' @ r) = ''compliance_suspense''"
  "account_prefix (''pool_addr:'' @ r) = ''pool_addr''"
  "account_prefix (''treasury:'' @ r) = ''treasury''"
  "account_prefix (''gas_float:'' @ r) = ''gas_float''"
  "account_prefix (''egofi_fee_revenue:'' @ r) = ''egofi_fee_revenue''"
  by (simp_all add: account_prefix_def)

lemma accountTypeOf_keys [simp]:
  "accountTypeOf (''merchant_available:'' @ r) = Inr Liability"
  "accountTypeOf (''merchant_pending_withdrawal:'' @ r) = Inr Liability"
  "accountTypeOf (''compliance_suspense:'' @ r) = Inr Liability"
  "accountTypeOf (''pool_addr:'' @ r) = Inr Asset"
  "accountTypeOf (''treasury:'' @ r) = Inr Asset"
  "accountTypeOf (''gas_float:'' @ r) = Inr Asset"
  "accountTypeOf (''egofi_fee_revenue:'' @ r) = Inr Revenue"
  by (simp_all only: accountTypeOf_def account_prefix_of_keys)
    (simp_all add: startsWith_def endsWith_def)

section \<open>Properties of the flows\<close>

text \<open>The fee split is exact and never takes the whole deposit: for a positive amount and
  basis points in [0, 10000) it returns a fee with 0 \<open>\<le>\<close> fee, a positive net amount and
  fee plus net equal to the amount, with the fee the rounded-down share; any other input
  is refused with \<open>InvalidPostingError\<close>.\<close>

theorem splitFee_exact:
  "case splitFee amt bps of
     Inr (fee, net) \<Rightarrow> 0 < amt \<and> 0 \<le> bps \<and> bps < 10000 \<and> 0 \<le> fee \<and> 0 < net \<and> fee + net = amt
       \<and> fee * 10000 \<le> amt * bps \<and> amt * bps < fee * 10000 + 10000
   | Inl e \<Rightarrow> (amt \<le> 0 \<or> bps < 0 \<or> 10000 \<le> bps) \<and> err_code e = Some LEDGER_INVALID_POSTING"
proof (cases "splitFee amt bps")
  case (Inl e)
  then show ?thesis by (auto simp: splitFee_def Let_def split: if_splits)
next
  case (Inr r)
  obtain fee net where r: "r = (fee, net)" by (cases r)
  note b = splitFee_bounds [OF Inr [unfolded r]]
  from Inr r have i: "0 < amt" "0 \<le> bps" "bps < 10000" "fee = amt * bps div 10000"
    by (auto simp: splitFee_Inr_iff)
  have "fee * 10000 \<le> amt * bps" "amt * bps < fee * 10000 + 10000"
    using div_mult_mod_eq [of "amt * bps" 10000] pos_mod_sign [of 10000 "amt * bps"]
      pos_mod_bound [of 10000 "amt * bps"] i(4) by auto
  with i b Inr r show ?thesis by simp
qed

lemma flow_checked:
  "Inr e = depositFinalized a \<Longrightarrow> \<exists>y. checked_entry y = Inr e"
  "Inr e = payoutLocked b \<Longrightarrow> \<exists>y. checked_entry y = Inr e"
  "Inr e = payoutSettled c \<Longrightarrow> \<exists>y. checked_entry y = Inr e"
  "Inr e = feeSwept d \<Longrightarrow> \<exists>y. checked_entry y = Inr e"
  "Inr e = depositDetected f \<Longrightarrow> \<exists>y. checked_entry y = Inr e"
  "Inr e = depositQuarantined g \<Longrightarrow> \<exists>y. checked_entry y = Inr e"
  "Inr e = depositReleased h \<Longrightarrow> \<exists>y. checked_entry y = Inr e"
  "Inr e = reverse x i k t \<Longrightarrow> \<exists>y. checked_entry y = Inr e"
  subgoal by (drule sym) (auto simp: depositFinalized_def rbind_Inr_iff)
  subgoal by (drule sym) (auto simp: payoutLocked_def split: if_splits)
  subgoal by (drule sym) (auto simp: payoutSettled_def split: if_splits)
  subgoal by (drule sym) (auto simp: feeSwept_def split: if_splits)
  subgoal by (drule sym) (auto simp: depositDetected_def split: if_splits)
  subgoal by (drule sym) (auto simp: depositQuarantined_def split: if_splits)
  subgoal by (drule sym) (auto simp: depositReleased_def split: if_splits)
  subgoal by (drule sym) (auto simp: reverse_def split: if_splits)
  done

text \<open>C36. Every posting flow that returns an entry returns a balanced one: non-empty, every
  amount positive and, per asset, debits equal to credits. The eight builders are
  deposit finalized, detected, quarantined and released, payout locked and settled, fee
  swept and reversal.\<close>

theorem flows_balanced:
  "Inr e \<in> {depositFinalized a, payoutLocked b, payoutSettled c, feeSwept d, depositDetected f,
      depositQuarantined g, depositReleased h, reverse x i k t} \<Longrightarrow>
   je_postings e \<noteq> [] \<and> (\<forall>p \<in> set (je_postings e). 0 < p_amount p)
   \<and> (\<forall>ass. sum_list (map signed (filter (\<lambda>p. p_asset p = ass) (je_postings e))) = 0)"
proof -
  assume "Inr e \<in> {depositFinalized a, payoutLocked b, payoutSettled c, feeSwept d, depositDetected f,
      depositQuarantined g, depositReleased h, reverse x i k t}"
  then have "\<exists>y. checked_entry y = Inr e" by (elim insertE emptyE) (erule flow_checked)+
  then have "je_postings e \<noteq> []" "all_positive (je_postings e)" "zero_sum (je_postings e)"
    by (auto simp: checked_entry_Inr)
  then show ?thesis by (auto simp: all_positive_def zero_sum_def net_asset_def sum_list_if_eq)
qed

theorem flows_balanced_witness:
  "let e = projr (payoutLocked \<lparr>pl_id = ''p'', pl_idempotencyKey = ''p'', pl_asset = ''USDT'', pl_amount = 7,
       pl_merchantAvailable = ''merchant_available:m'',
       pl_merchantPendingWithdrawal = ''merchant_pending_withdrawal:m'', pl_occurredAt = 0\<rparr>)
   in sum_list (map signed (filter (\<lambda>p. p_asset p = ''USDT'') (je_postings e))) = 0"
proof -
  let ?i = "\<lparr>pl_id = ''p'', pl_idempotencyKey = ''p'', pl_asset = ''USDT'', pl_amount = 7,
       pl_merchantAvailable = ''merchant_available:m'',
       pl_merchantPendingWithdrawal = ''merchant_pending_withdrawal:m'', pl_occurredAt = 0\<rparr>"
  have "Inr (projr (payoutLocked ?i)) = payoutLocked ?i" by (simp add: payoutLocked_ok)
  then show ?thesis using flows_balanced [of "projr (payoutLocked ?i)" _ ?i] by (simp add: Let_def)
qed

end
