(* ===== verification/Ledger_Store.thy ===== *)
theory Ledger_Store
  imports Ledger_Core
begin

text \<open>
  The \<open>LedgerStore\<close> port (\<open>src/ledger/ledger.port.ts\<close>) and its two adapters: the in-memory
  store (\<open>src/stores/memory-ledger.store.ts\<close>) and the Postgres store
  (\<open>src/stores/sql-ledger.store.ts\<close> with \<open>src/queries/ledger.queries.ts\<close> and
  \<open>src/schemas/sql/ledger.schema.ts\<close>). The port is a record of operations over a state
  type; the locale \<open>ledger_store\<close> states what a client may rely on, and both adapters
  interpret it.

  A SQL table is the list of its rows in insertion order; the \<open>bigserial\<close> id of a posting is
  its position. \<open>INSERT ... ON CONFLICT DO NOTHING\<close> refuses a row that violates a unique
  constraint, a violated \<open>CHECK\<close> throws, and an exception in \<open>sql.transaction\<close> restores the
  tables.
\<close>

section \<open>The port\<close>

record 's LedgerStore =
  ls_append :: "JournalEntry \<Rightarrow> ('s, app_error, bool) eff"
  ls_balance :: "string \<Rightarrow> string \<Rightarrow> 's \<Rightarrow> int"
  ls_postingsFor :: "string \<Rightarrow> string \<Rightarrow> 's \<Rightarrow> Posting list"
  ls_entryPostings :: "string \<Rightarrow> 's \<Rightarrow> Posting list"
  ls_totalsByType :: "'s \<Rightarrow> app_error + TotalsByType"

text \<open>The loop body both stores share: one signed amount added to its type's total.\<close>

definition normalPositive :: "AccountType \<Rightarrow> int \<Rightarrow> int" where
  "normalPositive t n = (if t = Asset \<or> t = Expense then n else - n)"

definition add_total :: "AccountType \<Rightarrow> string \<Rightarrow> int \<Rightarrow> TotalsByType \<Rightarrow> TotalsByType" where
  "add_total t a n totals =
     (let perAsset = (case map_of totals t of Some m \<Rightarrow> m | None \<Rightarrow> []);
          perAsset' = AList.update a (map_get_or perAsset a 0 + normalPositive t n) perAsset
      in AList.update t perAsset' totals)"

fun totals_loop :: "TotalsByType \<Rightarrow> (string \<times> string \<times> int) list \<Rightarrow> app_error + TotalsByType" where
  "totals_loop totals [] = Inr totals"
| "totals_loop totals ((acc, a, n) # rows) =
     rbind (accountTypeOf acc) (\<lambda>t. totals_loop (add_total t a n totals) rows)"

section \<open>The in-memory adapter\<close>

record MemoryLedger =
  ml_seenKeys :: "string list"
  ml_postings :: "Posting list"
  ml_byEntry :: "(string, Posting list) jsmap"

definition memory_init :: MemoryLedger where
  "memory_init = \<lparr>ml_seenKeys = [], ml_postings = [], ml_byEntry = []\<rparr>"

definition memory_append :: "JournalEntry \<Rightarrow> (MemoryLedger, app_error, bool) eff" where
  "memory_append e s =
     (if je_idempotencyKey e \<in> set (ml_seenKeys s) then (Inr False, s)
      else (Inr True,
        s\<lparr>ml_seenKeys := ml_seenKeys s @ [je_idempotencyKey e],
          ml_postings := ml_postings s @ je_postings e,
          ml_byEntry := AList.update (je_id e) (je_postings e) (ml_byEntry s)\<rparr>))"

definition memory_entryPostings :: "string \<Rightarrow> MemoryLedger \<Rightarrow> Posting list" where
  "memory_entryPostings i s = map_get_or (ml_byEntry s) i []"

definition memory_balance :: "string \<Rightarrow> string \<Rightarrow> MemoryLedger \<Rightarrow> int" where
  "memory_balance acc a s =
     foldl (\<lambda>net p. if p_account p = acc \<and> p_asset p = a then net + signed p else net) 0 (ml_postings s)"

definition memory_postingsFor :: "string \<Rightarrow> string \<Rightarrow> MemoryLedger \<Rightarrow> Posting list" where
  "memory_postingsFor acc a s = filter (\<lambda>p. p_account p = acc \<and> p_asset p = a) (ml_postings s)"

definition memory_totalsByType :: "MemoryLedger \<Rightarrow> app_error + TotalsByType" where
  "memory_totalsByType s =
     totals_loop [] (map (\<lambda>p. (p_account p, p_asset p, signed p)) (ml_postings s))"

definition MemoryLedgerStore :: "MemoryLedger LedgerStore" where
  "MemoryLedgerStore =
     \<lparr>ls_append = memory_append, ls_balance = memory_balance, ls_postingsFor = memory_postingsFor,
      ls_entryPostings = memory_entryPostings, ls_totalsByType = memory_totalsByType\<rparr>"

section \<open>The SQL adapter\<close>

record journal_entry_row =
  jr_id :: string
  jr_idempotency_key :: string
  jr_kind :: string
  jr_occurred_at :: int

record posting_row =
  pr_journal_entry_id :: string
  pr_posting :: Posting

text \<open>The \<open>balance\<close> table: primary key \<open>(account, asset)\<close>, then \<open>amount\<close> and \<open>version\<close>.\<close>

type_synonym balance_table = "((string \<times> string) \<times> (int \<times> nat)) list"

record SqlLedger =
  sq_journal_entry :: "journal_entry_row list"
  sq_posting :: "posting_row list"
  sq_balance :: balance_table

definition sql_init :: SqlLedger where
  "sql_init = \<lparr>sq_journal_entry = [], sq_posting = [], sq_balance = []\<rparr>"

definition insertIgnoringDuplicate :: "journal_entry_row \<Rightarrow> (SqlLedger, app_error, bool) eff" where
  "insertIgnoringDuplicate row s =
     (if jr_id row \<in> set (map jr_id (sq_journal_entry s))
         \<or> jr_idempotency_key row \<in> set (map jr_idempotency_key (sq_journal_entry s))
      then (Inr False, s)
      else (Inr True, s\<lparr>sq_journal_entry := sq_journal_entry s @ [row]\<rparr>))"

definition idByIdempotencyKey :: "string \<Rightarrow> SqlLedger \<Rightarrow> string option" where
  "idByIdempotencyKey k s =
     map_option jr_id (List.find (\<lambda>r. jr_idempotency_key r = k) (sq_journal_entry s))"

definition posting_insert :: "string \<Rightarrow> Posting \<Rightarrow> (SqlLedger, app_error, unit) eff" where
  "posting_insert eid p s =
     (if p_amount p > 0
      then (Inr (), s\<lparr>sq_posting := sq_posting s @ [\<lparr>pr_journal_entry_id = eid, pr_posting = p\<rparr>]\<rparr>)
      else (Inl (JsError ''new row for relation posting violates check constraint''), s))"

definition applyDelta_row :: "string \<Rightarrow> string \<Rightarrow> int \<Rightarrow> balance_table \<Rightarrow> balance_table" where
  "applyDelta_row acc a delta t =
     (case map_of t (acc, a) of
        None \<Rightarrow> AList.update (acc, a) (delta, 1) t
      | Some (n, v) \<Rightarrow> AList.update (acc, a) (n + delta, v + 1) t)"

definition applyDelta :: "string \<Rightarrow> string \<Rightarrow> int \<Rightarrow> (SqlLedger, app_error, unit) eff" where
  "applyDelta acc a delta = modify (\<lambda>s. s\<lparr>sq_balance := applyDelta_row acc a delta (sq_balance s)\<rparr>)"

definition nul :: char where
  "nul = CHR 0x00"

text \<open>The separator in the map key is the NUL character.\<close>

fun nettedByAccount_loop ::
  "(string, string \<times> string \<times> int) jsmap \<Rightarrow> Posting list \<Rightarrow> (string, string \<times> string \<times> int) jsmap" where
  "nettedByAccount_loop by_key [] = by_key"
| "nettedByAccount_loop by_key (p # ps) =
     (let key = p_account p @ nul # p_asset p;
          delta = (if p_direction p = DEBIT then p_amount p else - p_amount p)
      in nettedByAccount_loop
        (case map_of by_key key of
           Some (acc, a, d) \<Rightarrow> AList.update key (acc, a, d + delta) by_key
         | None \<Rightarrow> AList.update key (p_account p, p_asset p, delta) by_key) ps)"

definition nettedByAccount :: "Posting list \<Rightarrow> (string \<times> string \<times> int) list" where
  "nettedByAccount ps = map snd (nettedByAccount_loop [] ps)"

definition sql_append :: "JournalEntry \<Rightarrow> (SqlLedger, app_error, bool) eff" where
  "sql_append e = transaction
     (bind (insertIgnoringDuplicate
         \<lparr>jr_id = je_id e, jr_idempotency_key = je_idempotencyKey e, jr_kind = je_kind e,
          jr_occurred_at = je_occurredAt e\<rparr>) (\<lambda>inserted.
      if \<not> inserted then
        bind (reads (idByIdempotencyKey (je_idempotencyKey e))) (\<lambda>existing.
          case existing of
            None \<Rightarrow> throw (DuplicateEntryIdError
              (''Journal entry id '' @ je_id e @ '' already exists under a different idempotency key''))
          | Some _ \<Rightarrow> ret False)
      else
        bind (for_each (\<lambda>p _. posting_insert (je_id e) p) (je_postings e) ()) (\<lambda>_.
        bind (for_each (\<lambda>(acc, a, delta) _. applyDelta acc a delta) (nettedByAccount (je_postings e)) ())
          (\<lambda>_. ret True))))"

definition bal_of :: "balance_table \<Rightarrow> string \<Rightarrow> string \<Rightarrow> int" where
  "bal_of t acc a = (case map_of t (acc, a) of Some (n, _) \<Rightarrow> n | None \<Rightarrow> 0)"

definition sql_balance :: "string \<Rightarrow> string \<Rightarrow> SqlLedger \<Rightarrow> int" where
  "sql_balance acc a s = bal_of (sq_balance s) acc a"

definition sql_postingsFor :: "string \<Rightarrow> string \<Rightarrow> SqlLedger \<Rightarrow> Posting list" where
  "sql_postingsFor acc a s =
     filter (\<lambda>p. p_account p = acc \<and> p_asset p = a) (map pr_posting (sq_posting s))"

definition sql_entryPostings :: "string \<Rightarrow> SqlLedger \<Rightarrow> Posting list" where
  "sql_entryPostings i s = map pr_posting (filter (\<lambda>r. pr_journal_entry_id r = i) (sq_posting s))"

text \<open>\<open>GROUP BY account, asset\<close> with the signed sum; groups in order of first appearance.\<close>

fun group_net :: "((string \<times> string), int) jsmap \<Rightarrow> Posting list \<Rightarrow> ((string \<times> string), int) jsmap" where
  "group_net m [] = m"
| "group_net m (p # ps) =
     group_net (AList.update (p_account p, p_asset p) (map_get_or m (p_account p, p_asset p) 0 + signed p) m) ps"

definition netByAccountAsset :: "SqlLedger \<Rightarrow> ((string \<times> string) \<times> int) list" where
  "netByAccountAsset s = group_net [] (map pr_posting (sq_posting s))"

definition sql_totalsByType :: "SqlLedger \<Rightarrow> app_error + TotalsByType" where
  "sql_totalsByType s = totals_loop [] (map (\<lambda>((acc, a), n). (acc, a, n)) (netByAccountAsset s))"

record DriftRow =
  dw_account :: string
  dw_asset :: string
  dw_materialized :: int
  dw_fromHistory :: int

definition reconcileInternal :: "SqlLedger \<Rightarrow> DriftRow list" where
  "reconcileInternal s =
     map (\<lambda>((acc, a), (n, v)).
         \<lparr>dw_account = acc, dw_asset = a, dw_materialized = n,
          dw_fromHistory = map_get_or (netByAccountAsset s) (acc, a) 0\<rparr>)
       (filter (\<lambda>((acc, a), (n, v)). n \<noteq> map_get_or (netByAccountAsset s) (acc, a) 0) (sq_balance s))"

definition SqlLedgerStore :: "SqlLedger LedgerStore" where
  "SqlLedgerStore =
     \<lparr>ls_append = sql_append, ls_balance = sql_balance, ls_postingsFor = sql_postingsFor,
      ls_entryPostings = sql_entryPostings, ls_totalsByType = sql_totalsByType\<rparr>"

lemmas store_sel_simps [simp] = LedgerStore.simps

section \<open>Totals by account type\<close>

definition type_net :: "AccountType \<Rightarrow> string \<Rightarrow> (string \<times> string \<times> int) list \<Rightarrow> int" where
  "type_net t a rows =
     sum_list (map (\<lambda>(acc, b, n). if accountTypeOf acc = Inr t \<and> b = a then normalPositive t n else 0) rows)"

lemma sumForAsset_add_total [ledger_simps]:
  "sumForAsset (add_total t a n m) u b = sumForAsset m u b + (if u = t \<and> b = a then normalPositive t n else 0)"
  by (auto simp: sumForAsset_def add_total_def Let_def update_conv' split: option.splits)

lemma totals_loop_Inr:
  "totals_loop m rows = Inr r \<Longrightarrow>
     sumForAsset r t a = sumForAsset m t a + type_net t a rows
     \<and> (\<forall>(acc, b, n) \<in> set rows. \<exists>u. accountTypeOf acc = Inr u)"
proof (induction m rows rule: totals_loop.induct)
  case (1 totals)
  then show ?case by (simp add: type_net_def)
next
  case (2 totals acc b n rows)
  from "2.prems" obtain u where u: "accountTypeOf acc = Inr u"
    and r: "totals_loop (add_total u b n totals) rows = Inr r"
    by (auto simp: rbind_Inr_iff)
  from "2.IH" [OF r] u show ?case
    by (auto simp: type_net_def ledger_simps)
qed

lemma totals_loop_defined:
  assumes "\<forall>(acc, b, n) \<in> set rows. \<exists>u. accountTypeOf acc = Inr u"
  shows "\<exists>r. totals_loop m rows = Inr r"
  using assms
proof (induction m rows rule: totals_loop.induct)
  case (1 totals)
  then show ?case by simp
next
  case (2 totals acc b n rows)
  then obtain u where "accountTypeOf acc = Inr u" by auto
  with "2.IH" [of u] "2.prems" show ?case by simp
qed

text \<open>Grouping rows by account and asset first does not change any total.\<close>

definition pair_sum :: "(string \<times> string \<Rightarrow> int \<Rightarrow> int) \<Rightarrow> ((string \<times> string) \<times> int) list \<Rightarrow> int" where
  "pair_sum f m = sum_list (map (\<lambda>(k, n). f k n) m)"

lemma pair_sum_update:
  assumes add: "\<And>k x y. f k (x + y) = f k x + f k y"
  shows "pair_sum f (AList.update k (map_get_or m k 0 + n) m) = pair_sum f m + f k n"
proof -
  have "pair_sum f (AList.update k v m) =
      (case map_of m k of None \<Rightarrow> pair_sum f m + f k v | Some w \<Rightarrow> pair_sum f m - f k w + f k v)" for v
    by (induction m) (auto simp: pair_sum_def split: option.splits)
  then show ?thesis
    by (simp add: map_get_or_def add split: option.splits)
qed

lemma pair_sum_group_net:
  assumes "\<And>k x y. f k (x + y) = f k x + f k y"
  shows "pair_sum f (group_net m ps) =
    pair_sum f m + sum_list (map (\<lambda>p. f (p_account p, p_asset p) (signed p)) ps)"
  by (induction m ps rule: group_net.induct) (simp_all add: pair_sum_update [OF assms])

lemma type_net_group_net:
  "type_net t a (map (\<lambda>((acc, b), n). (acc, b, n)) (group_net [] ps)) =
   type_net t a (map (\<lambda>p. (p_account p, p_asset p, signed p)) ps)"
proof -
  define f :: "string \<times> string \<Rightarrow> int \<Rightarrow> int" where
    "f = (\<lambda>(acc, b) n. if accountTypeOf acc = Inr t \<and> b = a then normalPositive t n else 0)"
  have add: "f k (x + y) = f k x + f k y" for k x y
    by (cases k) (simp add: f_def normalPositive_def)
  have "type_net t a (map (\<lambda>((acc, b), n). (acc, b, n)) m) = pair_sum f m" for m
    unfolding type_net_def pair_sum_def f_def by (induction m) auto
  moreover have "type_net t a (map (\<lambda>p. (p_account p, p_asset p, signed p)) ps) =
      sum_list (map (\<lambda>p. f (p_account p, p_asset p) (signed p)) ps)"
    unfolding type_net_def f_def by (simp add: o_def)
  moreover have "pair_sum f [] = 0" by (simp add: pair_sum_def)
  ultimately show ?thesis using pair_sum_group_net [where f = f and m = "[]" and ps = ps, OF add] by simp
qed

lemma map_get_or_group_net:
  "map_get_or (group_net m ps) (acc, a) 0 = map_get_or m (acc, a) 0 + net_account acc a ps"
  by (induction m ps rule: group_net.induct) (auto simp: ledger_simps)

lemma fst_group_net: "fst ` set (group_net m ps) = fst ` set m \<union> (\<lambda>p. (p_account p, p_asset p)) ` set ps"
proof (induction m ps rule: group_net.induct)
  case (2 m p ps)
  then show ?case by auto
qed simp

text \<open>
  Over zero-sum postings on classified accounts, assets plus expenses equal liabilities
  plus revenue in every asset.
\<close>

lemma type_nets_split:
  assumes "\<forall>p \<in> set ps. \<exists>u. accountTypeOf (p_account p) = Inr u"
  defines "rows \<equiv> map (\<lambda>p. (p_account p, p_asset p, signed p)) ps"
  shows "type_net Asset a rows + type_net Expense a rows - type_net Liability a rows
    - type_net Revenue a rows = net_asset a ps"
  using assms(1) unfolding rows_def
proof (induction ps)
  case Nil
  then show ?case by (simp add: type_net_def ledger_simps)
next
  case (Cons p ps)
  from Cons.prems obtain u where "accountTypeOf (p_account p) = Inr u" by auto
  with Cons show ?case
    by (cases u) (auto simp: type_net_def ledger_simps normalPositive_def)
qed

section \<open>The contract of the port\<close>

text \<open>
  \<open>log s\<close> is the sequence of postings ever appended, \<open>keys s\<close> the idempotency keys and
  \<open>ids s\<close> the entry ids used, \<open>entry s i\<close> the postings recorded under the id \<open>i\<close>.
  \<open>storable\<close> is what the store's column types demand of an entry.
\<close>

locale ledger_store =
  fixes st :: "'s LedgerStore"
    and inv :: "'s \<Rightarrow> bool"
    and keys :: "'s \<Rightarrow> string set"
    and ids :: "'s \<Rightarrow> string set"
    and entry :: "'s \<Rightarrow> string \<Rightarrow> Posting list"
    and log :: "'s \<Rightarrow> Posting list"
    and storable :: "Posting list \<Rightarrow> bool"
  assumes append_seen:
      "inv s \<Longrightarrow> je_idempotencyKey e \<in> keys s \<Longrightarrow> ls_append st e s = (Inr False, s)"
    and append_fresh:
      "\<lbrakk>inv s; je_idempotencyKey e \<notin> keys s; je_id e \<notin> ids s; all_positive (je_postings e);
        storable (je_postings e)\<rbrakk> \<Longrightarrow> \<exists>s'. ls_append st e s = (Inr True, s')"
    and append_applied:
      "\<lbrakk>inv s; all_positive (je_postings e); storable (je_postings e); ls_append st e s = (Inr True, s')\<rbrakk> \<Longrightarrow>
        inv s' \<and> log s' = log s @ je_postings e \<and> keys s' = insert (je_idempotencyKey e) (keys s)
        \<and> ids s' = insert (je_id e) (ids s) \<and> entry s' = (entry s)(je_id e := je_postings e)
        \<and> je_idempotencyKey e \<notin> keys s"
    and append_refused:
      "\<lbrakk>inv s; all_positive (je_postings e); storable (je_postings e); ls_append st e s = (r, s'); r \<noteq> Inr True\<rbrakk> \<Longrightarrow> s' = s"
    and append_error:
      "\<lbrakk>inv s; all_positive (je_postings e); storable (je_postings e); ls_append st e s = (Inl err, s')\<rbrakk> \<Longrightarrow>
        err_code err = Some LEDGER_DUPLICATE_ENTRY_ID \<and> je_id e \<in> ids s"
    and balance_log: "inv s \<Longrightarrow> ls_balance st acc a s = net_account acc a (log s)"
    and postingsFor_log:
      "inv s \<Longrightarrow> ls_postingsFor st acc a s = filter (\<lambda>p. p_account p = acc \<and> p_asset p = a) (log s)"
    and entryPostings_entry: "inv s \<Longrightarrow> ls_entryPostings st i s = entry s i"
    and totals_log:
      "inv s \<Longrightarrow> ls_totalsByType st s = Inr t \<Longrightarrow>
        sumForAsset t ty a = type_net ty a (map (\<lambda>p. (p_account p, p_asset p, signed p)) (log s))"
    and totals_classified:
      "inv s \<Longrightarrow> (\<exists>t. ls_totalsByType st s = Inr t) \<longleftrightarrow>
        (\<forall>p \<in> set (log s). \<exists>u. accountTypeOf (p_account p) = Inr u)"
    and storable_flip: "storable ps \<Longrightarrow> storable (map flip_posting ps)"

section \<open>The in-memory adapter meets the contract\<close>

lemma totals_loop_classified:
  "(\<exists>r. totals_loop m rows = Inr r) \<longleftrightarrow> (\<forall>(acc, b, n) \<in> set rows. \<exists>u. accountTypeOf acc = Inr u)"
proof
  assume "\<exists>r. totals_loop m rows = Inr r"
  then obtain r where "totals_loop m rows = Inr r" by blast
  from totals_loop_Inr [OF this] show "\<forall>(acc, b, n) \<in> set rows. \<exists>u. accountTypeOf acc = Inr u"
    by blast
qed (rule totals_loop_defined)

lemma memory_balance_net: "memory_balance acc a s = net_account acc a (ml_postings s)"
proof -
  have "foldl (\<lambda>net p. if p_account p = acc \<and> p_asset p = a then net + signed p else net) n ps =
      n + net_account acc a ps" for n ps
    by (induction ps arbitrary: n) (auto simp: ledger_simps)
  then show ?thesis by (simp add: memory_balance_def)
qed

lemma sumForAsset_Nil [simp]: "sumForAsset [] t a = 0"
  by (simp add: sumForAsset_def)

lemma memory_totals_log:
  assumes "memory_totalsByType s = Inr t"
  shows "sumForAsset t ty a = type_net ty a (map (\<lambda>p. (p_account p, p_asset p, signed p)) (ml_postings s))"
  using totals_loop_Inr [OF assms [unfolded memory_totalsByType_def], of ty a] by simp

interpretation memory: ledger_store MemoryLedgerStore "\<lambda>_. True" "\<lambda>s. set (ml_seenKeys s)"
  "\<lambda>s. fst ` set (ml_byEntry s)" "\<lambda>s i. map_get_or (ml_byEntry s) i []" ml_postings "\<lambda>_. True"
proof (unfold_locales, goal_cases)
  case (3 s e s')
  then have "je_idempotencyKey e \<notin> set (ml_seenKeys s)" and
    s': "s' = s\<lparr>ml_seenKeys := ml_seenKeys s @ [je_idempotencyKey e],
      ml_postings := ml_postings s @ je_postings e,
      ml_byEntry := AList.update (je_id e) (je_postings e) (ml_byEntry s)\<rparr>"
    by (auto simp: MemoryLedgerStore_def memory_append_def split: if_splits)
  then show ?case by (simp add: fun_eq_iff)
next
  case (9 s t ty a)
  then show ?case by (simp add: MemoryLedgerStore_def memory_totals_log)
next
  case (10 s)
  then show ?case by (auto simp: MemoryLedgerStore_def memory_totalsByType_def totals_loop_classified)
qed (auto simp: MemoryLedgerStore_def memory_append_def memory_balance_net memory_postingsFor_def
    memory_entryPostings_def split: if_splits)

section \<open>The SQL adapter meets the contract\<close>

text \<open>A Postgres \<open>text\<close> value holds no NUL character.\<close>

definition nul_free :: "Posting list \<Rightarrow> bool" where
  "nul_free ps \<longleftrightarrow> (\<forall>p \<in> set ps. nul \<notin> set (p_account p))"

definition delta_sum :: "string \<Rightarrow> string \<Rightarrow> (string \<times> string \<times> int) list \<Rightarrow> int" where
  "delta_sum acc a ds = sum_list (map (\<lambda>(x, y, d). if x = acc \<and> y = a then d else 0) ds)"

definition keyed :: "(string, string \<times> string \<times> int) jsmap \<Rightarrow> bool" where
  "keyed m \<longleftrightarrow> (\<forall>(k, x, y, d) \<in> set m. k = x @ nul # y \<and> nul \<notin> set x)"

lemma delta_sum_update:
  "delta_sum acc a (map snd (AList.update k (x, y, d) m)) =
     delta_sum acc a (map snd m) + (if x = acc \<and> y = a then d else 0)
     - (case map_of m k of None \<Rightarrow> 0 | Some (x', y', d') \<Rightarrow> if x' = acc \<and> y' = a then d' else 0)"
  by (induction m) (auto simp: delta_sum_def)

lemma keyed_update: "keyed m \<Longrightarrow> nul \<notin> set x \<Longrightarrow> keyed (AList.update (x @ nul # y) (x, y, d) m)"
  by (induction m) (auto simp: keyed_def)

lemma nettedByAccount_loop_sum:
  assumes "keyed m" "nul_free ps"
  shows "delta_sum acc a (map snd (nettedByAccount_loop m ps)) =
    delta_sum acc a (map snd m) + net_account acc a ps"
  using assms
proof (induction ps arbitrary: m)
  case Nil
  then show ?case by (simp add: ledger_simps)
next
  case (Cons p ps)
  let ?k = "p_account p @ nul # p_asset p"
  let ?d = "if p_direction p = DEBIT then p_amount p else - p_amount p"
  let ?m = "case map_of m ?k of Some (x, y, d) \<Rightarrow> AList.update ?k (x, y, d + ?d) m
    | None \<Rightarrow> AList.update ?k (p_account p, p_asset p, ?d) m"
  from Cons.prems have np: "nul \<notin> set (p_account p)" and rest: "nul_free ps" by (auto simp: nul_free_def)
  have same: "x = p_account p \<and> y = p_asset p" if "map_of m ?k = Some (x, y, d)" for x y d
  proof -
    from map_of_SomeD [OF that] Cons.prems(1) have "?k = x @ nul # y" "nul \<notin> set x"
      by (auto simp: keyed_def)
    with np show ?thesis using sep_append_inj [of nul "p_account p" x] by auto
  qed
  have k: "keyed ?m"
    using Cons.prems(1) np by (auto simp: keyed_update dest: same split: option.splits)
  have sum: "delta_sum acc a (map snd ?m) =
      delta_sum acc a (map snd m) + (if p_account p = acc \<and> p_asset p = a then ?d else 0)"
    using same by (auto simp: delta_sum_update split: option.splits)
  have "nettedByAccount_loop m (p # ps) = nettedByAccount_loop ?m ps" by (simp add: Let_def)
  with Cons.IH [OF k rest] sum show ?case by (simp add: ledger_simps signed_def)
qed

lemma nettedByAccount_sum:
  "nul_free ps \<Longrightarrow> delta_sum acc a (nettedByAccount ps) = net_account acc a ps"
  using nettedByAccount_loop_sum [of "[]" ps acc a]
  by (simp add: nettedByAccount_def keyed_def delta_sum_def)

lemma bal_of_applyDelta_row [table_simps]:
  "bal_of (applyDelta_row x y d t) acc a = bal_of t acc a + (if x = acc \<and> y = a then d else 0)"
  by (auto simp: bal_of_def applyDelta_row_def update_conv' split: option.splits prod.splits)

lemma bal_of_fold_applyDelta:
  "bal_of (fold (\<lambda>(x, y, d). applyDelta_row x y d) ds t) acc a = bal_of t acc a + delta_sum acc a ds"
  by (induction ds arbitrary: t) (auto simp: table_simps delta_sum_def)

lemma distinct_applyDelta_row: "distinct (map fst t) \<Longrightarrow> distinct (map fst (applyDelta_row x y d t))"
  by (simp add: applyDelta_row_def distinct_update split: option.splits)

lemma distinct_fold_applyDelta:
  "distinct (map fst t) \<Longrightarrow> distinct (map fst (fold (\<lambda>(x, y, d). applyDelta_row x y d) ds t))"
  by (induction ds arbitrary: t) (auto simp: distinct_applyDelta_row)

lemma for_each_posting_insert:
  "all_positive ps \<Longrightarrow> for_each (\<lambda>p _. posting_insert i p) ps () s =
     (Inr (), s\<lparr>sq_posting := sq_posting s @ map (\<lambda>p. \<lparr>pr_journal_entry_id = i, pr_posting = p\<rparr>) ps\<rparr>)"
  by (induction ps arbitrary: s) (auto simp: ret_def bind_def posting_insert_def)

lemma for_each_applyDelta:
  "for_each (\<lambda>(x, y, d) _. applyDelta x y d) ds () s =
     (Inr (), s\<lparr>sq_balance := fold (\<lambda>(x, y, d). applyDelta_row x y d) ds (sq_balance s)\<rparr>)"
  by (induction ds arbitrary: s) (auto simp: ret_def bind_def applyDelta_def modify_def)

definition sql_log :: "SqlLedger \<Rightarrow> Posting list" where
  "sql_log s = map pr_posting (sq_posting s)"

definition sql_inv :: "SqlLedger \<Rightarrow> bool" where
  "sql_inv s \<longleftrightarrow>
     (\<forall>acc a. bal_of (sq_balance s) acc a = net_account acc a (sql_log s))
     \<and> distinct (map fst (sq_balance s))
     \<and> pr_journal_entry_id ` set (sq_posting s) \<subseteq> jr_id ` set (sq_journal_entry s)
     \<and> distinct (map jr_id (sq_journal_entry s))
     \<and> distinct (map jr_idempotency_key (sq_journal_entry s))"

text \<open>What one call of \<open>append\<close> does, on each of its three branches.\<close>

definition sql_applied :: "JournalEntry \<Rightarrow> SqlLedger \<Rightarrow> SqlLedger" where
  "sql_applied e s =
     \<lparr>sq_journal_entry = sq_journal_entry s @
        [\<lparr>jr_id = je_id e, jr_idempotency_key = je_idempotencyKey e, jr_kind = je_kind e,
          jr_occurred_at = je_occurredAt e\<rparr>],
      sq_posting = sq_posting s @ map (\<lambda>p. \<lparr>pr_journal_entry_id = je_id e, pr_posting = p\<rparr>) (je_postings e),
      sq_balance = fold (\<lambda>(x, y, d). applyDelta_row x y d) (nettedByAccount (je_postings e)) (sq_balance s)\<rparr>"

lemma sql_applied_fields:
  "jr_idempotency_key ` set (sq_journal_entry (sql_applied e s)) =
     insert (je_idempotencyKey e) (jr_idempotency_key ` set (sq_journal_entry s))"
  "jr_id ` set (sq_journal_entry (sql_applied e s)) = insert (je_id e) (jr_id ` set (sq_journal_entry s))"
  "sql_log (sql_applied e s) = sql_log s @ je_postings e"
  by (simp_all add: sql_applied_def sql_log_def o_def)

lemma find_key_None_iff:
  "idByIdempotencyKey k s = None \<longleftrightarrow> k \<notin> jr_idempotency_key ` set (sq_journal_entry s)"
  by (auto simp: idByIdempotencyKey_def find_None_iff)

lemma sql_append_cases:
  assumes "all_positive (je_postings e)"
  shows "sql_append e s =
    (if je_idempotencyKey e \<in> jr_idempotency_key ` set (sq_journal_entry s) then (Inr False, s)
     else if je_id e \<in> jr_id ` set (sq_journal_entry s)
       then (Inl (DuplicateEntryIdError
         (''Journal entry id '' @ je_id e @ '' already exists under a different idempotency key'')), s)
     else (Inr True, sql_applied e s))"
proof -
  let ?r = "\<lparr>jr_id = je_id e, jr_idempotency_key = je_idempotencyKey e, jr_kind = je_kind e,
    jr_occurred_at = je_occurredAt e\<rparr>"
  show ?thesis
    using assms find_key_None_iff [of "je_idempotencyKey e" s]
    by (auto simp: sql_append_def transaction_def bind_def insertIgnoringDuplicate_def reads_def
        throw_def ret_def for_each_posting_insert for_each_applyDelta sql_applied_def
        split: option.splits)
qed

lemma sql_inv_applied:
  assumes "sql_inv s" "nul_free (je_postings e)"
    "je_idempotencyKey e \<notin> jr_idempotency_key ` set (sq_journal_entry s)"
    "je_id e \<notin> jr_id ` set (sq_journal_entry s)"
  shows "sql_inv (sql_applied e s)"
  using assms
  by (auto simp: sql_inv_def sql_applied_def sql_log_def bal_of_fold_applyDelta nettedByAccount_sum
      distinct_fold_applyDelta ledger_simps o_def)

lemma sql_totals_log:
  assumes "sql_totalsByType s = Inr t"
  shows "sumForAsset t ty a = type_net ty a (map (\<lambda>p. (p_account p, p_asset p, signed p)) (sql_log s))"
  using totals_loop_Inr [OF assms [unfolded sql_totalsByType_def], of ty a]
  by (simp add: netByAccountAsset_def type_net_group_net sql_log_def)

lemma sql_totals_classified:
  "(\<exists>t. sql_totalsByType s = Inr t) \<longleftrightarrow>
     (\<forall>p \<in> set (sql_log s). \<exists>u. accountTypeOf (p_account p) = Inr u)"
proof -
  have "(\<forall>(acc, b, n) \<in> set (map (\<lambda>((acc, a), n). (acc, a, n)) m). \<exists>u. accountTypeOf acc = Inr u)
      \<longleftrightarrow> (\<forall>k \<in> fst ` set m. \<exists>u. accountTypeOf (fst k) = Inr u)" for m :: "((string \<times> string) \<times> int) list"
    by auto
  from this [of "group_net [] (sql_log s)"] show ?thesis
    by (simp only: sql_totalsByType_def totals_loop_classified netByAccountAsset_def fst_group_net
        sql_log_def [symmetric]) auto
qed

interpretation sqlst: ledger_store SqlLedgerStore sql_inv
  "\<lambda>s. jr_idempotency_key ` set (sq_journal_entry s)" "\<lambda>s. jr_id ` set (sq_journal_entry s)"
  "\<lambda>s i. sql_entryPostings i s" sql_log nul_free
proof (unfold_locales, goal_cases)
  case (1 s e)
  then show ?case
    by (auto simp: SqlLedgerStore_def sql_append_def transaction_def bind_def insertIgnoringDuplicate_def
        reads_def ret_def throw_def find_key_None_iff split: option.splits)
next
  case (3 s e s')
  then have fresh: "je_idempotencyKey e \<notin> jr_idempotency_key ` set (sq_journal_entry s)"
    "je_id e \<notin> jr_id ` set (sq_journal_entry s)" and s': "s' = sql_applied e s"
    by (auto simp: SqlLedgerStore_def sql_append_cases split: if_splits)
  have none: "filter (\<lambda>r. pr_journal_entry_id r = je_id e) (sq_posting s) = []"
    using 3(1) fresh(2) by (force simp: sql_inv_def filter_empty_conv)
  have "sql_entryPostings i s' = ((\<lambda>i. sql_entryPostings i s)(je_id e := je_postings e)) i" for i
    using none by (auto simp: s' sql_applied_def sql_entryPostings_def o_def filter_empty_conv)
  then have "(\<lambda>i. sql_entryPostings i s') = (\<lambda>i. sql_entryPostings i s)(je_id e := je_postings e)"
    by (simp add: fun_eq_iff)
  with 3(1,3) fresh show ?case by (simp add: s' sql_inv_applied sql_applied_fields)
next
  case (9 s t ty a)
  then show ?case by (simp add: SqlLedgerStore_def sql_totals_log)
qed (auto simp: SqlLedgerStore_def sql_append_cases sql_balance_def sql_inv_def sql_postingsFor_def
    sql_log_def sql_totals_classified [unfolded sql_log_def] nul_free_def split: if_splits)

end
