(* ===== verification/Ledger_Service.thy ===== *)
theory Ledger_Service
  imports Ledger_Store
begin

text \<open>
  \<open>LedgerService\<close> (\<open>src/services/ledger.service.ts\<close>) over any store of the port. Its lemmas
  are proved once from the port's contract, in the context of \<open>ledger_store\<close>, and reach the
  two adapters through their interpretations: every reachable ledger is zero-sum, a
  payout lock never exceeds the available balance, a reversal cancels its original, and
  the Postgres adapter answers every command as the in-memory one does.
\<close>

section \<open>The service\<close>

definition post :: "'s LedgerStore \<Rightarrow> JournalEntry \<Rightarrow> ('s, app_error, bool) eff" where
  "post st e = bind (lift (assertBalanced e)) (\<lambda>_. ls_append st e)"

definition getBalance :: "'s LedgerStore \<Rightarrow> string \<Rightarrow> string \<Rightarrow> ('s, app_error, int) eff" where
  "getBalance st acc a = reads (ls_balance st acc a)"

definition availableBalance :: "'s LedgerStore \<Rightarrow> string \<Rightarrow> string \<Rightarrow> ('s, app_error, int) eff" where
  "availableBalance st acc a = bind (reads (ls_balance st acc a)) (\<lambda>b. lift (normalBalance acc b))"

definition lockPayout :: "'s LedgerStore \<Rightarrow> PayoutLockedInput \<Rightarrow> ('s, app_error, bool) eff" where
  "lockPayout st i =
     bind (availableBalance st (pl_merchantAvailable i) (pl_asset i)) (\<lambda>available.
       if pl_amount i > available
       then throw (InsufficientFundsError (''Payout of '' @ show_int (pl_amount i) @ '' exceeds available ''
         @ show_int available @ '' for '' @ pl_merchantAvailable i))
       else bind (lift (payoutLocked i)) (post st))"

definition reverseByRef ::
  "'s LedgerStore \<Rightarrow> string \<Rightarrow> string \<Rightarrow> string \<Rightarrow> int \<Rightarrow> ('s, app_error, bool) eff" where
  "reverseByRef st originalId newId newKey occurredAt =
     bind (reads (ls_entryPostings st originalId)) (\<lambda>original.
       if original = []
       then throw (UnknownEntryError (''Cannot reverse unknown journal entry '' @ originalId))
       else post st
         \<lparr>je_id = newId, je_idempotencyKey = newKey, je_kind = ''reverse'',
          je_postings = map flip_posting original, je_occurredAt = occurredAt\<rparr>)"

definition checkSolvency :: "'s LedgerStore \<Rightarrow> string list \<Rightarrow> ('s, app_error, AssetSolvency list) eff" where
  "checkSolvency st assets =
     (\<lambda>s. (rbind (ls_totalsByType st s) (\<lambda>t. Inr (solvencyDrift t assets)), s))"

definition svc_isSolvent :: "'s LedgerStore \<Rightarrow> string \<Rightarrow> ('s, app_error, bool) eff" where
  "svc_isSolvent st asset = bind (checkSolvency st [asset]) (\<lambda>d. ret (d = []))"

section \<open>Commands and reachable ledgers\<close>

text \<open>The calls that can change a ledger; every writer in the engine is one of them.\<close>

datatype ledger_cmd =
    Post JournalEntry
  | LockPayout PayoutLockedInput
  | ReverseByRef string string string int

fun run_cmd :: "'s LedgerStore \<Rightarrow> ledger_cmd \<Rightarrow> ('s, app_error, bool) eff" where
  "run_cmd st (Post e) = post st e"
| "run_cmd st (LockPayout i) = lockPayout st i"
| "run_cmd st (ReverseByRef o' n k t) = reverseByRef st o' n k t"

fun run_cmds :: "'s LedgerStore \<Rightarrow> ledger_cmd list \<Rightarrow> 's \<Rightarrow> (app_error + bool) list \<times> 's" where
  "run_cmds st [] s = ([], s)"
| "run_cmds st (c # cs) s =
     (case run_cmd st c s of (r, s1) \<Rightarrow> case run_cmds st cs s1 of (rs, s2) \<Rightarrow> (r # rs, s2))"

fun cmd_storable :: "(Posting list \<Rightarrow> bool) \<Rightarrow> ledger_cmd \<Rightarrow> bool" where
  "cmd_storable P (Post e) = P (je_postings e)"
| "cmd_storable P (LockPayout i) =
     P [post_debit (pl_merchantAvailable i) (pl_asset i) (pl_amount i),
        post_credit (pl_merchantPendingWithdrawal i) (pl_asset i) (pl_amount i)]"
| "cmd_storable P (ReverseByRef o' n k t) = True"

inductive ledger_reachable :: "'s LedgerStore \<Rightarrow> (Posting list \<Rightarrow> bool) \<Rightarrow> 's \<Rightarrow> 's \<Rightarrow> bool"
  for st :: "'s LedgerStore" and P :: "Posting list \<Rightarrow> bool" and s0 :: 's where
  start: "ledger_reachable st P s0 s0"
| step: "ledger_reachable st P s0 s \<Longrightarrow> cmd_storable P c \<Longrightarrow> run_cmd st c s = (r, t) \<Longrightarrow>
     ledger_reachable st P s0 t"

inductive_cases ledger_reachableE: "ledger_reachable st P s0 s"

lemma run_cmds_reachable:
  "list_all (cmd_storable P) cs \<Longrightarrow> ledger_reachable st P s0 s \<Longrightarrow>
     ledger_reachable st P s0 (snd (run_cmds st cs s))"
proof (induction cs arbitrary: s)
  case Nil
  then show ?case by simp
next
  case (Cons c cs)
  obtain r s1 where r: "run_cmd st c s = (r, s1)" by (cases "run_cmd st c s")
  from Cons.prems have "ledger_reachable st P s0 s1"
    by (auto intro: ledger_reachable.step [OF _ _ r])
  from Cons.IH [OF _ this] Cons.prems r show ?case
    by (auto split: prod.splits)
qed

section \<open>What the contract gives the service\<close>

context ledger_store
begin

definition sound :: "'s \<Rightarrow> bool" where
  "sound s \<longleftrightarrow> inv s \<and> zero_sum (log s) \<and>
     (\<forall>i. entry s i \<noteq> [] \<longrightarrow> all_positive (entry s i) \<and> zero_sum (entry s i) \<and> storable (entry s i))"

lemma post_cases:
  assumes "inv s" "storable (je_postings e)" "post st e s = (r, s')"
  shows "(r = Inr True \<and> assertBalanced e = Inr () \<and> inv s' \<and> log s' = log s @ je_postings e
      \<and> keys s' = insert (je_idempotencyKey e) (keys s) \<and> ids s' = insert (je_id e) (ids s)
      \<and> entry s' = (entry s)(je_id e := je_postings e) \<and> je_idempotencyKey e \<notin> keys s)
    \<or> (r \<noteq> Inr True \<and> s' = s)"
proof (cases "assertBalanced e")
  case (Inl err)
  with assms(3) show ?thesis by (auto simp: post_def effect_simps)
next
  case (Inr u)
  then have bal: "assertBalanced e = Inr ()" by simp
  then have pos: "all_positive (je_postings e)" by (simp add: assertBalanced_iff)
  from assms(3) bal have app: "ls_append st e s = (r, s')" by (simp add: post_def effect_simps)
  show ?thesis
  proof (cases "r = Inr True")
    case True
    with app append_applied [OF assms(1) pos assms(2)] bal show ?thesis by blast
  next
    case False
    with append_refused [OF assms(1) pos assms(2) app] show ?thesis by blast
  qed
qed

lemma post_sound:
  assumes "sound s" "storable (je_postings e)" "post st e s = (r, s')"
  shows "sound s'"
proof -
  from assms(1) have "inv s" by (simp add: sound_def)
  from post_cases [OF this assms(2,3)] assms(1,2) show ?thesis
    by (auto simp: sound_def assertBalanced_iff zero_sum_append split: if_splits)
qed

lemma lockPayout_sound:
  assumes "sound s" "cmd_storable storable (LockPayout i)" "lockPayout st i s = (r, s')"
  shows "sound s'"
proof (cases "normalBalance (pl_merchantAvailable i) (ls_balance st (pl_merchantAvailable i) (pl_asset i) s)")
  case (Inl e)
  with assms show ?thesis by (auto simp: lockPayout_def availableBalance_def effect_simps bind_def reads_def lift_def)
next
  case (Inr av)
  show ?thesis
  proof (cases "pl_amount i > av \<or> pl_amount i \<le> 0")
    case True
    with Inr assms(3) have "s' = s"
      by (auto simp: lockPayout_def availableBalance_def bind_def reads_def lift_def throw_def
          payoutLocked_def split: if_splits)
    with assms(1) show ?thesis by simp
  next
    case False
    then obtain e where e: "payoutLocked i = Inr e"
      "je_postings e = [post_debit (pl_merchantAvailable i) (pl_asset i) (pl_amount i),
        post_credit (pl_merchantPendingWithdrawal i) (pl_asset i) (pl_amount i)]"
      using payoutLocked_ok [of i] by auto
    from False Inr assms(3) e(1) have "post st e s = (r, s')"
      by (simp add: lockPayout_def availableBalance_def bind_def reads_def lift_def)
    moreover from assms(2) e(2) have "storable (je_postings e)" by simp
    ultimately show ?thesis using post_sound [OF assms(1)] by blast
  qed
qed

lemma reverseByRef_sound:
  assumes "sound s" "reverseByRef st o' n k t s = (r, s')"
  shows "sound s'"
proof (cases "entry s o' = []")
  case True
  with assms show ?thesis
    by (auto simp: reverseByRef_def effect_simps sound_def entryPostings_entry)
next
  case False
  with assms(1) have "storable (map flip_posting (entry s o'))"
    by (auto simp: sound_def storable_flip)
  moreover from assms(1) have "ls_entryPostings st o' s = entry s o'"
    by (simp add: sound_def entryPostings_entry)
  with False assms(2) have "post st \<lparr>je_id = n, je_idempotencyKey = k, je_kind = ''reverse'',
      je_postings = map flip_posting (entry s o'), je_occurredAt = t\<rparr> s = (r, s')"
    by (simp add: reverseByRef_def effect_simps)
  ultimately show ?thesis using post_sound [OF assms(1)] by (metis JournalEntry.select_convs(4))
qed

lemma run_cmd_sound:
  assumes "sound s" "cmd_storable storable c" "run_cmd st c s = (r, s')"
  shows "sound s'"
  using assms by (cases c) (auto intro: post_sound lockPayout_sound reverseByRef_sound)

lemma reachable_sound: "ledger_reachable st storable s0 s \<Longrightarrow> sound s0 \<Longrightarrow> sound s"
  by (induction rule: ledger_reachable.induct) (auto intro: run_cmd_sound)

lemma sound_totals:
  assumes "sound s" "ls_totalsByType st s = Inr t"
  shows "sumForAsset t Asset a + sumForAsset t Expense a = sumForAsset t Liability a + sumForAsset t Revenue a"
proof -
  from assms have i: "inv s" and z: "net_asset a (log s) = 0" by (auto simp: sound_def zero_sum_def)
  from i assms(2) totals_classified have "\<forall>p \<in> set (log s). \<exists>u. accountTypeOf (p_account p) = Inr u"
    by blast
  from type_nets_split [OF this, of a] z show ?thesis
    by (simp add: totals_log [OF i assms(2)])
qed

lemma isSolvent_iff:
  assumes "sound s" "ls_totalsByType st s = Inr t"
  shows "svc_isSolvent st a s = (Inr (sumForAsset t Expense a \<le> sumForAsset t Revenue a), s)"
  using sound_totals [OF assms, of a] assms(2)
  by (auto simp: svc_isSolvent_def checkSolvency_def bind_def ret_def solvencyDrift_def isSolvent_def
      assetSolvency_def)

lemma post_fresh:
  assumes "inv s" "storable (je_postings e)" "assertBalanced e = Inr ()"
    "je_idempotencyKey e \<notin> keys s" "je_id e \<notin> ids s"
  shows "\<exists>s'. post st e s = (Inr True, s')"
proof -
  from assms(3) have "all_positive (je_postings e)" by (simp add: assertBalanced_iff)
  from append_fresh [OF assms(1,4,5) this assms(2)] assms(3) show ?thesis
    by (auto simp: post_def effect_simps)
qed

lemma post_seen:
  assumes "inv s" "assertBalanced e = Inr ()" "je_idempotencyKey e \<in> keys s"
  shows "post st e s = (Inr False, s)"
  using append_seen [OF assms(1,3)] assms(2) by (simp add: post_def effect_simps)

lemma post_idempotent:
  assumes "inv s" "storable (je_postings e)" "post st e s = (Inr True, s')"
  shows "post st e s' = (Inr False, s')"
  using post_cases [OF assms] by (auto intro: post_seen)

lemma availableBalance_run:
  assumes "accountTypeOf acc = Inr Liability"
  shows "availableBalance st acc a s = (Inr (- ls_balance st acc a s), s)"
  using assms by (simp add: availableBalance_def effect_simps normalBalance_def)

lemma lockPayout_refuses:
  assumes "accountTypeOf (pl_merchantAvailable i) = Inr Liability"
    and "pl_amount i > - ls_balance st (pl_merchantAvailable i) (pl_asset i) s"
  shows "\<exists>m. lockPayout st i s = (Inl (InsufficientFundsError m), s)"
proof -
  have "bind (availableBalance st (pl_merchantAvailable i) (pl_asset i)) f s =
      f (- ls_balance st (pl_merchantAvailable i) (pl_asset i) s) s" for f :: "int \<Rightarrow> ('s, app_error, bool) eff"
    by (rule bind_run(2)) (rule availableBalance_run [OF assms(1)])
  with assms(2) show ?thesis by (auto simp: lockPayout_def effect_simps)
qed

lemma lockPayout_applied:
  assumes i: "inv s" and L: "accountTypeOf (pl_merchantAvailable i) = Inr Liability"
    and stor: "cmd_storable storable (LockPayout i)"
    and ne: "pl_merchantAvailable i \<noteq> pl_merchantPendingWithdrawal i"
    and run: "lockPayout st i s = (Inr True, s')"
  shows "0 < pl_amount i"
    and "pl_amount i \<le> - ls_balance st (pl_merchantAvailable i) (pl_asset i) s"
    and "ls_balance st (pl_merchantAvailable i) (pl_asset i) s' =
      ls_balance st (pl_merchantAvailable i) (pl_asset i) s + pl_amount i"
    and "ls_balance st (pl_merchantPendingWithdrawal i) (pl_asset i) s' =
      ls_balance st (pl_merchantPendingWithdrawal i) (pl_asset i) s - pl_amount i"
    and "inv s'"
proof -
  let ?av = "- ls_balance st (pl_merchantAvailable i) (pl_asset i) s"
  have av: "bind (availableBalance st (pl_merchantAvailable i) (pl_asset i)) f s = f ?av s"
    for f :: "int \<Rightarrow> ('s, app_error, bool) eff"
    by (rule bind_run(2)) (rule availableBalance_run [OF L])
  from run have le: "pl_amount i \<le> ?av"
    by (auto simp: lockPayout_def av effect_simps split: if_splits)
  with run have pos: "0 < pl_amount i"
    by (cases "0 < pl_amount i") (auto simp: lockPayout_def av effect_simps payoutLocked_def)
  note e = payoutLocked_ok [OF pos]
  have "post st (projr (payoutLocked i)) s = (Inr True, s')"
    using run le by (simp add: lockPayout_def av effect_simps e)
  from post_cases [OF i _ this] stor have c: "inv s'" "log s' = log s @ je_postings (projr (payoutLocked i))"
    by (auto simp: e)
  show "0 < pl_amount i" "pl_amount i \<le> ?av" "inv s'" by fact+
  show "ls_balance st (pl_merchantAvailable i) (pl_asset i) s' =
      ls_balance st (pl_merchantAvailable i) (pl_asset i) s + pl_amount i"
    "ls_balance st (pl_merchantPendingWithdrawal i) (pl_asset i) s' =
      ls_balance st (pl_merchantPendingWithdrawal i) (pl_asset i) s - pl_amount i"
    using i c ne by (simp_all add: balance_log e ledger_simps)
qed

lemma reverse_cancels:
  assumes "sound s" "storable (je_postings e)" "post st e s = (Inr True, s1)"
    and k: "k \<notin> keys s1" and n: "n \<notin> ids s1"
  shows "\<exists>s2. reverseByRef st (je_id e) n k t s1 = (Inr True, s2) \<and> inv s2
    \<and> (\<forall>acc a. ls_balance st acc a s2 = ls_balance st acc a s)"
proof -
  from assms(1) have i: "inv s" by (simp add: sound_def)
  from post_cases [OF i assms(2,3)] have p: "assertBalanced e = Inr ()" "inv s1"
    "log s1 = log s @ je_postings e" "entry s1 (je_id e) = je_postings e"
    by auto
  let ?r = "\<lparr>je_id = n, je_idempotencyKey = k, je_kind = ''reverse'',
    je_postings = map flip_posting (je_postings e), je_occurredAt = t\<rparr>"
  from p(1) have bal: "assertBalanced ?r = Inr ()" "je_postings e \<noteq> []" by (auto simp: assertBalanced_iff)
  have stor: "storable (je_postings ?r)" using assms(2) by (simp add: storable_flip)
  obtain s2 where s2: "post st ?r s1 = (Inr True, s2)"
    using post_fresh [OF p(2) stor bal(1)] k n by auto
  from post_cases [OF p(2) stor s2] have c: "inv s2" "log s2 = log s1 @ map flip_posting (je_postings e)"
    by auto
  have "reverseByRef st (je_id e) n k t s1 = (Inr True, s2)"
    using s2 bal(2) p by (simp add: reverseByRef_def effect_simps entryPostings_entry)
  moreover have "ls_balance st acc a s2 = ls_balance st acc a s" for acc a
    using i c p by (simp add: balance_log ledger_simps)
  ultimately show ?thesis using c(1) by blast
qed

end

section \<open>The Postgres adapter simulates the in-memory one\<close>

text \<open>Every caller in the engine uses the idempotency key as the entry id.\<close>

fun canonical_cmd :: "ledger_cmd \<Rightarrow> bool" where
  "canonical_cmd (Post e) \<longleftrightarrow> je_id e = je_idempotencyKey e"
| "canonical_cmd (LockPayout i) \<longleftrightarrow> pl_id i = pl_idempotencyKey i"
| "canonical_cmd (ReverseByRef o' n k t) \<longleftrightarrow> n = k"

definition ledger_sim :: "SqlLedger \<Rightarrow> MemoryLedger \<Rightarrow> bool" where
  "ledger_sim s m \<longleftrightarrow>
     sqlst.sound s \<and> sql_log s = ml_postings m
     \<and> jr_idempotency_key ` set (sq_journal_entry s) = set (ml_seenKeys m)
     \<and> jr_id ` set (sq_journal_entry s) = set (ml_seenKeys m)
     \<and> (\<forall>i. sql_entryPostings i s = memory_entryPostings i m)"

lemma sql_init_sound [simp]: "sqlst.sound sql_init"
  unfolding sqlst.sound_def
  by (simp add: sql_inv_def sql_init_def sql_log_def bal_of_def zero_sum_def sql_entryPostings_def ledger_simps)

lemma memory_init_sound [simp]: "memory.sound memory_init"
  by (simp add: memory.sound_def memory_init_def zero_sum_def ledger_simps)

lemma ledger_sim_init: "ledger_sim sql_init memory_init"
  by (simp add: ledger_sim_def)
    (simp add: sql_init_def memory_init_def sql_log_def sql_entryPostings_def memory_entryPostings_def)

lemma ledger_sim_inv: "ledger_sim s m \<Longrightarrow> sql_inv s"
  by (simp add: ledger_sim_def sqlst.sound_def)

lemma ledger_sim_balance: "ledger_sim s m \<Longrightarrow> sql_balance acc a s = memory_balance acc a m"
  using sqlst.balance_log [of s] memory.balance_log ledger_sim_inv [of s m]
  by (simp add: ledger_sim_def SqlLedgerStore_def MemoryLedgerStore_def)

lemma post_sim:
  assumes sim: "ledger_sim s m" and canon: "je_id e = je_idempotencyKey e"
    and free: "nul_free (je_postings e)"
    and run: "post SqlLedgerStore e s = (r, s')" "post MemoryLedgerStore e m = (r', m')"
  shows "r = r' \<and> ledger_sim s' m'"
proof (cases "assertBalanced e")
  case (Inl err)
  with run sim show ?thesis by (simp add: post_def effect_simps)
next
  case (Inr u)
  then have bal: "assertBalanced e = Inr ()" by simp
  then have pos: "all_positive (je_postings e)" by (simp add: assertBalanced_iff)
  from sim have S: "sqlst.sound s" by (simp add: ledger_sim_def)
  from run bal have app: "sql_append e s = (r, s')" "memory_append e m = (r', m')"
    by (simp_all add: post_def effect_simps SqlLedgerStore_def MemoryLedgerStore_def)
  show ?thesis
  proof (cases "je_idempotencyKey e \<in> set (ml_seenKeys m)")
    case True
    with sim app show ?thesis
      by (simp add: ledger_sim_def sql_append_cases [OF pos] memory_append_def)
  next
    case False
    with sim canon app have r: "r = Inr True" "s' = sql_applied e s" "r' = Inr True"
      and m': "m' = m\<lparr>ml_seenKeys := ml_seenKeys m @ [je_idempotencyKey e],
        ml_postings := ml_postings m @ je_postings e,
        ml_byEntry := AList.update (je_id e) (je_postings e) (ml_byEntry m)\<rparr>"
      by (auto simp: ledger_sim_def sql_append_cases [OF pos] memory_append_def)
    have "sqlst.sound s'" by (rule sqlst.post_sound [OF S free run(1)])
    moreover have "(\<lambda>i. sql_entryPostings i s') = (\<lambda>i. sql_entryPostings i s)(je_id e := je_postings e)"
      using sqlst.post_cases [OF ledger_sim_inv [OF sim] free run(1)] r by simp
    then have "sql_entryPostings i s' = memory_entryPostings i m'" for i
      using sim by (simp add: fun_eq_iff ledger_sim_def memory_entryPostings_def m')
    ultimately show ?thesis
      using sim r canon by (simp add: ledger_sim_def m' sql_applied_fields)
  qed
qed

lemma run_cmd_sim:
  assumes sim: "ledger_sim s m" and canon: "canonical_cmd c" and stor: "cmd_storable nul_free c"
    and run: "run_cmd SqlLedgerStore c s = (r, s')" "run_cmd MemoryLedgerStore c m = (r', m')"
  shows "r = r' \<and> ledger_sim s' m'"
proof (cases c)
  case (Post e)
  with assms post_sim [of s m e r s' r' m'] show ?thesis by simp
next
  case (LockPayout i)
  have bal: "ls_balance SqlLedgerStore (pl_merchantAvailable i) (pl_asset i) s =
      ls_balance MemoryLedgerStore (pl_merchantAvailable i) (pl_asset i) m"
    using ledger_sim_balance [OF sim] by (simp add: SqlLedgerStore_def MemoryLedgerStore_def)
  show ?thesis
  proof (cases "normalBalance (pl_merchantAvailable i)
      (ls_balance MemoryLedgerStore (pl_merchantAvailable i) (pl_asset i) m)")
    case (Inl err)
    with run bal sim LockPayout show ?thesis
      by (simp add: lockPayout_def availableBalance_def bind_def reads_def lift_def)
  next
    case (Inr av)
    note unf = lockPayout_def availableBalance_def bind_def reads_def lift_def throw_def
    show ?thesis
    proof (cases "av < pl_amount i \<or> \<not> 0 < pl_amount i")
      case True
      with run bal sim LockPayout Inr show ?thesis
        by (auto simp: unf payoutLocked_def split: if_splits)
    next
      case False
      then obtain e where e: "payoutLocked i = Inr e" "je_id e = pl_id i"
        "je_idempotencyKey e = pl_idempotencyKey i"
        "je_postings e = [post_debit (pl_merchantAvailable i) (pl_asset i) (pl_amount i),
          post_credit (pl_merchantPendingWithdrawal i) (pl_asset i) (pl_amount i)]"
        using payoutLocked_ok [of i] by auto
      from False Inr run bal LockPayout e(1) have "post SqlLedgerStore e s = (r, s')"
        "post MemoryLedgerStore e m = (r', m')"
        by (simp_all add: unf)
      from post_sim [OF sim _ _ this] canon stor LockPayout e show ?thesis by simp
    qed
  qed
next
  case (ReverseByRef o' n k t)
  have en: "ls_entryPostings SqlLedgerStore o' s = ls_entryPostings MemoryLedgerStore o' m"
    using sim by (simp add: ledger_sim_def SqlLedgerStore_def MemoryLedgerStore_def)
  let ?ps = "ls_entryPostings MemoryLedgerStore o' m"
  let ?e = "\<lparr>je_id = n, je_idempotencyKey = k, je_kind = ''reverse'',
    je_postings = map flip_posting ?ps, je_occurredAt = t\<rparr>"
  show ?thesis
  proof (cases "?ps = []")
    case True
    with run en sim ReverseByRef show ?thesis by (simp add: reverseByRef_def effect_simps)
  next
    case False
    have "nul_free ?ps"
      using sim False en unfolding ledger_sim_def sqlst.sound_def
      by (metis LedgerStore.select_convs(4) SqlLedgerStore_def)
    then have "nul_free (je_postings ?e)" by (simp add: sqlst.storable_flip)
    moreover from run en False ReverseByRef have "post SqlLedgerStore ?e s = (r, s')"
      "post MemoryLedgerStore ?e m = (r', m')"
      by (simp_all add: reverseByRef_def effect_simps)
    moreover from canon ReverseByRef have "je_id ?e = je_idempotencyKey ?e" by simp
    ultimately show ?thesis using post_sim [OF sim] by blast
  qed
qed

lemma run_cmds_sim:
  assumes "ledger_sim s m" "list_all canonical_cmd cs" "list_all (cmd_storable nul_free) cs"
  shows "fst (run_cmds SqlLedgerStore cs s) = fst (run_cmds MemoryLedgerStore cs m)
    \<and> ledger_sim (snd (run_cmds SqlLedgerStore cs s)) (snd (run_cmds MemoryLedgerStore cs m))"
  using assms
proof (induction cs arbitrary: s m)
  case Nil
  then show ?case by simp
next
  case (Cons c cs)
  obtain r s' where s: "run_cmd SqlLedgerStore c s = (r, s')" by fastforce
  obtain r' m' where m: "run_cmd MemoryLedgerStore c m = (r', m')" by fastforce
  from run_cmd_sim [OF Cons.prems(1) _ _ s m] Cons.prems have "r = r'" "ledger_sim s' m'" by auto
  with Cons.IH [of s' m'] Cons.prems s m show ?case by (auto split: prod.splits)
qed

section \<open>Properties of the ledger on Postgres\<close>

lemma reachable_inv:
  assumes "ledger_reachable SqlLedgerStore nul_free sql_init s"
  shows "sqlst.sound s \<and> sql_inv s"
proof -
  have "sqlst.sound s" by (rule sqlst.reachable_sound [OF assms sql_init_sound])
  then show ?thesis unfolding sqlst.sound_def by blast
qed

definition ex_deposit :: JournalEntry where
  "ex_deposit = projr (depositFinalized
     \<lparr>df_id = ''d1'', df_idempotencyKey = ''d1'', df_asset = ''USDT'', df_amount = 1000,
      df_feeBasisPoints = 150, df_poolAddr = ''pool_addr:TRON:a'',
      df_merchantAvailable = ''merchant_available:m1'', df_feeRevenue = ''fee_revenue:t1'',
      df_occurredAt = 1\<rparr>)"

definition ex_lock :: PayoutLockedInput where
  "ex_lock = \<lparr>pl_id = ''p1'', pl_idempotencyKey = ''p1'', pl_asset = ''USDT'', pl_amount = 400,
     pl_merchantAvailable = ''merchant_available:m1'',
     pl_merchantPendingWithdrawal = ''merchant_pending_withdrawal:m1'', pl_occurredAt = 2\<rparr>"

definition ex_cmds :: "ledger_cmd list" where
  "ex_cmds = [Post ex_deposit, LockPayout ex_lock, Post ex_deposit, ReverseByRef ''p1'' ''r1'' ''r1'' 3]"

definition ex_sql :: SqlLedger where
  "ex_sql = snd (run_cmds SqlLedgerStore [Post ex_deposit] sql_init)"

lemma ex_deposit_eq:
  "ex_deposit = \<lparr>je_id = ''d1'', je_idempotencyKey = ''d1'', je_kind = ''deposit.finalized'', je_postings =
     [post_debit ''pool_addr:TRON:a'' ''USDT'' 1000, post_credit ''merchant_available:m1'' ''USDT'' 985,
      post_credit ''fee_revenue:t1'' ''USDT'' 15], je_occurredAt = 1\<rparr>"
  by code_simp

lemma ex_cmds_ok: "list_all canonical_cmd ex_cmds" "list_all (cmd_storable nul_free) ex_cmds"
  by (simp_all add: ex_cmds_def ex_deposit_eq ex_lock_def nul_free_def nul_def)

lemma ex_sql_reachable: "ledger_reachable SqlLedgerStore nul_free sql_init ex_sql"
  unfolding ex_sql_def
  by (rule run_cmds_reachable) (simp_all add: ledger_reachable.start ex_deposit_eq nul_free_def nul_def)

text \<open>C2. On every ledger the service can reach on Postgres, whatever the sequence of posts,
  locks, reversals, retries and failures, assets plus expenses equal liabilities plus
  revenue in each asset.\<close>

theorem sql_accounting_identity:
  assumes "ledger_reachable SqlLedgerStore nul_free sql_init s" and "sql_totalsByType s = Inr t"
  shows "sumForAsset t Asset a + sumForAsset t Expense a = sumForAsset t Liability a + sumForAsset t Revenue a"
  using sqlst.sound_totals [of s t a] reachable_inv [OF assms(1)] assms(2)
  by (simp add: SqlLedgerStore_def)

theorem sql_accounting_identity_witness:
  "\<exists>t. sql_totalsByType ex_sql = Inr t \<and> sumForAsset t Asset ''USDT'' = 1000
     \<and> sumForAsset t Asset ''USDT'' + sumForAsset t Expense ''USDT'' =
       sumForAsset t Liability ''USDT'' + sumForAsset t Revenue ''USDT''"
proof -
  have "sql_totalsByType ex_sql = Inr [(Asset, [(''USDT'', 1000)]), (Liability, [(''USDT'', 985)]),
      (Revenue, [(''USDT'', 15)])]" by code_simp
  with sql_accounting_identity [OF ex_sql_reachable this, of "''USDT''"] show ?thesis
    by (intro exI conjI) (assumption, simp_all add: sumForAsset_def map_get_or_def)
qed

text \<open>The solvency check of the service answers yes exactly when recorded expenses do not
  exceed recorded revenue in the asset, and it never changes the ledger.\<close>

theorem sql_isSolvent_iff:
  assumes "ledger_reachable SqlLedgerStore nul_free sql_init s" and "sql_totalsByType s = Inr t"
  shows "svc_isSolvent SqlLedgerStore a s = (Inr (sumForAsset t Expense a \<le> sumForAsset t Revenue a), s)"
  using sqlst.isSolvent_iff [of s t a] reachable_inv [OF assms(1)] assms(2)
  by (simp add: SqlLedgerStore_def)

theorem sql_isSolvent_iff_witness: "svc_isSolvent SqlLedgerStore ''USDT'' ex_sql = (Inr True, ex_sql)"
proof -
  have "sql_totalsByType ex_sql = Inr [(Asset, [(''USDT'', 1000)]), (Liability, [(''USDT'', 985)]),
      (Revenue, [(''USDT'', 15)])]" by code_simp
  from sql_isSolvent_iff [OF ex_sql_reachable this, of "''USDT''"] show ?thesis
    by (simp add: sumForAsset_def map_get_or_def)
qed

text \<open>The materialised balance table never drifts from the posting history: the internal
  reconciler reports nothing on any reachable ledger.\<close>

theorem reconcileInternal_clean:
  assumes "ledger_reachable SqlLedgerStore nul_free sql_init s"
  shows "reconcileInternal s = []"
proof -
  from reachable_inv [OF assms] have inv: "sql_inv s" by simp
  have "n = map_get_or (netByAccountAsset s) (acc, a) 0" if "((acc, a), (n, v)) \<in> set (sq_balance s)" for acc a n v
  proof -
    from inv that have "bal_of (sq_balance s) acc a = n" by (simp add: sql_inv_def bal_of_def)
    with inv show ?thesis
      by (simp add: sql_inv_def netByAccountAsset_def map_get_or_group_net sql_log_def)
  qed
  then show ?thesis unfolding reconcileInternal_def by (auto simp: filter_empty_conv)
qed

theorem reconcileInternal_clean_witness:
  "sq_balance ex_sql \<noteq> [] \<and> reconcileInternal ex_sql = []"
proof
  show "sq_balance ex_sql \<noteq> []" by code_simp
  show "reconcileInternal ex_sql = []" by (rule reconcileInternal_clean [OF ex_sql_reachable])
qed



text \<open>Posting is exactly-once per idempotency key: after a post was applied, any balanced
  entry under the same key answers \<open>False\<close> and leaves every table as it is.\<close>

theorem post_exactly_once:
  assumes "ledger_reachable SqlLedgerStore nul_free sql_init s" and "nul_free (je_postings e)"
    and "post SqlLedgerStore e s = (Inr True, s')"
    and "je_idempotencyKey e' = je_idempotencyKey e" and "assertBalanced e' = Inr ()"
  shows "post SqlLedgerStore e' s' = (Inr False, s')"
proof -
  from reachable_inv [OF assms(1)] have "sql_inv s" by simp
  from sqlst.post_cases [OF this assms(2,3)] have "sql_inv s'"
    "je_idempotencyKey e' \<in> jr_idempotency_key ` set (sq_journal_entry s')"
    using assms(4) by auto
  then show ?thesis using sqlst.post_seen assms(5) by blast
qed

theorem post_exactly_once_witness:
  "post SqlLedgerStore (ex_deposit\<lparr>je_id := ''other''\<rparr>) ex_sql = (Inr False, ex_sql)"
proof -
  have "post SqlLedgerStore ex_deposit sql_init = (Inr True, ex_sql)"
    unfolding ex_sql_def by code_simp
  moreover have "nul_free (je_postings ex_deposit)" by (simp add: ex_deposit_eq nul_free_def nul_def)
  moreover have "assertBalanced (ex_deposit\<lparr>je_id := ''other''\<rparr>) = Inr ()" by code_simp
  ultimately show ?thesis by (intro post_exactly_once [OF ledger_reachable.start]) simp_all
qed

text \<open>C14. A payout lock never overdraws: it is refused with \<open>InsufficientFundsError\<close> and no
  change when the amount exceeds the available balance; when it is applied, the amount was
  positive and covered, exactly it moves from available to pending-withdrawal, and the
  available balance stays non-negative; a covered positive amount under a fresh key is
  always applied.\<close>

theorem lockPayout_never_overdraws:
  assumes reach: "ledger_reachable SqlLedgerStore nul_free sql_init s"
    and L: "accountTypeOf (pl_merchantAvailable i) = Inr Liability"
    and stor: "cmd_storable nul_free (LockPayout i)"
    and ne: "pl_merchantAvailable i \<noteq> pl_merchantPendingWithdrawal i"
    and run: "lockPayout SqlLedgerStore i s = (r, s')"
  defines "avail \<equiv> \<lambda>t. - sql_balance (pl_merchantAvailable i) (pl_asset i) t"
    and "pending \<equiv> \<lambda>t. - sql_balance (pl_merchantPendingWithdrawal i) (pl_asset i) t"
  shows "(avail s < pl_amount i \<longrightarrow> (\<exists>m. r = Inl (InsufficientFundsError m)) \<and> s' = s)
    \<and> (r = Inr True \<longrightarrow> 0 < pl_amount i \<and> pl_amount i \<le> avail s \<and> 0 \<le> avail s'
        \<and> avail s' = avail s - pl_amount i \<and> pending s' = pending s + pl_amount i)
    \<and> (0 < pl_amount i \<and> pl_amount i \<le> avail s
        \<and> pl_idempotencyKey i \<notin> jr_idempotency_key ` set (sq_journal_entry s)
        \<and> pl_id i \<notin> jr_id ` set (sq_journal_entry s) \<longrightarrow> r = Inr True)"
proof (intro conjI impI)
  from reachable_inv [OF reach] have inv: "sql_inv s" by simp
  have sel: "ls_balance SqlLedgerStore = sql_balance" by (simp add: SqlLedgerStore_def)
  assume "avail s < pl_amount i"
  with sqlst.lockPayout_refuses [OF L, of s] run show "\<exists>m. r = Inl (InsufficientFundsError m)" "s' = s"
    by (auto simp: sel avail_def)
next
  from reachable_inv [OF reach] have inv: "sql_inv s" by simp
  have sel: "ls_balance SqlLedgerStore = sql_balance" by (simp add: SqlLedgerStore_def)
  assume "r = Inr True"
  with run have "lockPayout SqlLedgerStore i s = (Inr True, s')" by simp
  note a = sqlst.lockPayout_applied [OF inv L stor ne this, unfolded sel]
  from a show "0 < pl_amount i" "pl_amount i \<le> avail s" "0 \<le> avail s'"
    "avail s' = avail s - pl_amount i" "pending s' = pending s + pl_amount i"
    by (simp_all add: avail_def pending_def)
next
  from reachable_inv [OF reach] have inv: "sql_inv s" by simp
  assume a: "0 < pl_amount i \<and> pl_amount i \<le> avail s
    \<and> pl_idempotencyKey i \<notin> jr_idempotency_key ` set (sq_journal_entry s)
    \<and> pl_id i \<notin> jr_id ` set (sq_journal_entry s)"
  then obtain e where e: "payoutLocked i = Inr e" "je_idempotencyKey e = pl_idempotencyKey i" "je_id e = pl_id i"
    "je_postings e = [post_debit (pl_merchantAvailable i) (pl_asset i) (pl_amount i),
      post_credit (pl_merchantPendingWithdrawal i) (pl_asset i) (pl_amount i)]"
    using payoutLocked_ok [of i] by auto
  have "assertBalanced e = Inr ()" using a by (simp add: assertBalanced_iff e zero_sum_def ledger_simps)
  then obtain t where "post SqlLedgerStore e s = (Inr True, t)"
    using sqlst.post_fresh [OF inv] stor a e by fastforce
  moreover have "lockPayout SqlLedgerStore i s = post SqlLedgerStore e s"
    using a e(1) L by (simp add: lockPayout_def availableBalance_def normalBalance_def bind_def reads_def lift_def
        avail_def SqlLedgerStore_def)
  ultimately show "r = Inr True" using run by simp
qed

theorem lockPayout_never_overdraws_witness:
  "- sql_balance ''merchant_available:m1'' ''USDT'' ex_sql = 985
   \<and> - sql_balance ''merchant_available:m1'' ''USDT'' (snd (lockPayout SqlLedgerStore ex_lock ex_sql)) = 585
   \<and> 0 \<le> - sql_balance ''merchant_available:m1'' ''USDT'' (snd (lockPayout SqlLedgerStore ex_lock ex_sql))"
proof -
  have b: "- sql_balance ''merchant_available:m1'' ''USDT'' ex_sql = 985" by code_simp
  have r: "lockPayout SqlLedgerStore ex_lock ex_sql =
      (Inr True, snd (lockPayout SqlLedgerStore ex_lock ex_sql))" by code_simp
  have "accountTypeOf (pl_merchantAvailable ex_lock) = Inr Liability" by code_simp
  moreover have "cmd_storable nul_free (LockPayout ex_lock)" by (simp add: ex_lock_def nul_free_def nul_def)
  moreover have "pl_merchantAvailable ex_lock \<noteq> pl_merchantPendingWithdrawal ex_lock" by (simp add: ex_lock_def)
  ultimately show ?thesis
    using lockPayout_never_overdraws [OF ex_sql_reachable _ _ _ r] b by (simp add: ex_lock_def)
qed

text \<open>Reversing an applied entry by its id, under a fresh id and key, always succeeds and
  restores every balance to what it was before the entry.\<close>

theorem reverse_restores_balances:
  assumes "ledger_reachable SqlLedgerStore nul_free sql_init s" and "nul_free (je_postings e)"
    and "post SqlLedgerStore e s = (Inr True, s1)"
    and "k \<notin> jr_idempotency_key ` set (sq_journal_entry s1)" and "n \<notin> jr_id ` set (sq_journal_entry s1)"
  shows "\<exists>s2. reverseByRef SqlLedgerStore (je_id e) n k t s1 = (Inr True, s2)
    \<and> (\<forall>acc a. sql_balance acc a s2 = sql_balance acc a s)"
proof -
  from reachable_inv [OF assms(1)] have "sqlst.sound s" by simp
  from sqlst.reverse_cancels [OF this assms(2-5), of t] show ?thesis
    by (auto simp: SqlLedgerStore_def)
qed

theorem reverse_restores_balances_witness:
  "\<exists>s2. reverseByRef SqlLedgerStore ''d1'' ''r1'' ''r1'' 9 ex_sql = (Inr True, s2)
    \<and> (\<forall>acc a. sql_balance acc a s2 = sql_balance acc a sql_init)"
proof -
  have "post SqlLedgerStore ex_deposit sql_init = (Inr True, ex_sql)"
    unfolding ex_sql_def by code_simp
  moreover have "nul_free (je_postings ex_deposit)" by (simp add: ex_deposit_eq nul_free_def nul_def)
  moreover have "''r1'' \<notin> jr_idempotency_key ` set (sq_journal_entry ex_sql)"
    "''r1'' \<notin> jr_id ` set (sq_journal_entry ex_sql)" by code_simp+
  moreover have "je_id ex_deposit = ''d1''" by (simp add: ex_deposit_eq)
  ultimately show ?thesis using reverse_restores_balances [OF ledger_reachable.start] by metis
qed

end
