(* ===== verification/Policy.thy ===== *)
theory Policy
  imports App_Errors "HOL-Library.Word"
begin

unbundle bit_operations_syntax

text \<open>
  The payout policy: \<open>PolicyEngine\<close> and its in-memory guards (\<open>src/chains/payout/policy.ts\<close>),
  the Postgres kill switch, velocity limiter and allow-list (\<open>src/stores/policy.store.ts\<close>,
  \<open>src/queries/policy.queries.ts\<close>) and the approval store (\<open>src/stores/approval.store.ts\<close>).

  The two velocity limiters share the contract \<open>velocity_limiter\<close>; its lemma bounds what any
  sequence of admitted payouts spends in a window.
\<close>

section \<open>Data (types/models/payout.ts)\<close>

record PayoutContext =
  cx_tenant :: string
  cx_merchant :: string
  cx_chain :: string
  cx_asset :: string
  cx_amountBaseUnits :: int
  cx_destination :: string
  cx_requester :: "string option"
  cx_approvals :: "string list option"
  cx_requestedAt :: "int option"

record ApprovalPolicy =
  ap_thresholdBaseUnits :: int
  ap_required :: int

record TimeLockPolicy =
  tl_thresholdBaseUnits :: int
  tl_delayMs :: int

datatype PolicyDecision =
    ALLOW
  | DENY string
  | REQUIRE_APPROVAL int int
  | HOLD string
  | DELAY int

record VelocityConfig =
  vc_windowMs :: int
  vc_maxTotalBaseUnits :: int

section \<open>The engine (policy.ts)\<close>

record 's PolicyConfig =
  pc_maxPerPayoutBaseUnits :: int
  pc_allowlist :: "string list"
  pc_allowlistStore :: "(PayoutContext \<Rightarrow> int \<Rightarrow> ('s, app_error, bool) eff) option"
  pc_killSwitch :: "(PayoutContext \<Rightarrow> ('s, app_error, bool) eff) option"
  pc_sanctions :: "(string \<Rightarrow> ('s, app_error, bool) eff) option"
  pc_solvency :: "(string \<Rightarrow> ('s, app_error, bool) eff) option"
  pc_approval :: "ApprovalPolicy option"
  pc_timeLock :: "TimeLockPolicy option"
  pc_velocity :: "(PayoutContext \<Rightarrow> int \<Rightarrow> ('s, app_error, unit) eff) option"

text \<open>A guard that is absent answers the given default.\<close>

definition ask :: "'g option \<Rightarrow> ('g \<Rightarrow> ('s, app_error, bool) eff) \<Rightarrow> bool \<Rightarrow> ('s, app_error, bool) eff" where
  "ask g f d = (case g of None \<Rightarrow> ret d | Some x \<Rightarrow> f x)"

definition approvers :: "PayoutContext \<Rightarrow> string list" where
  "approvers ctx = remdups (filter (\<lambda>a. a \<noteq> [] \<and> Some a \<noteq> cx_requester ctx)
     (case cx_approvals ctx of None \<Rightarrow> [] | Some l \<Rightarrow> l))"

definition approval_gate :: "ApprovalPolicy option \<Rightarrow> PayoutContext \<Rightarrow> PolicyDecision option" where
  "approval_gate pol ctx =
     (case pol of
        None \<Rightarrow> None
      | Some ap \<Rightarrow>
          if cx_amountBaseUnits ctx > ap_thresholdBaseUnits ap
             \<and> int (length (approvers ctx)) < ap_required ap
          then Some (REQUIRE_APPROVAL (ap_required ap) (int (length (approvers ctx))))
          else None)"

definition timelock_gate :: "TimeLockPolicy option \<Rightarrow> PayoutContext \<Rightarrow> int \<Rightarrow> PolicyDecision option" where
  "timelock_gate pol ctx now =
     (case pol of
        None \<Rightarrow> None
      | Some lk \<Rightarrow>
          if cx_amountBaseUnits ctx > tl_thresholdBaseUnits lk then
            let anchor = (case cx_requestedAt ctx of None \<Rightarrow> now | Some t \<Rightarrow> t);
                until = anchor + tl_delayMs lk
            in if now < until then Some (DELAY until) else None
          else None)"

definition velocity_gate ::
  "(PayoutContext \<Rightarrow> int \<Rightarrow> ('s, app_error, unit) eff) option \<Rightarrow> PayoutContext \<Rightarrow> int \<Rightarrow> ('s, app_error, PolicyDecision) eff" where
  "velocity_gate vel ctx now =
     (case vel of
        None \<Rightarrow> ret ALLOW
      | Some admit \<Rightarrow>
          try_catch (bind (admit ctx now) (\<lambda>_. ret ALLOW))
            (\<lambda>err. if err_code err = Some POLICY_DENIED then ret (DENY (err_message err)) else throw err))"

definition evaluate :: "'s PolicyConfig \<Rightarrow> PayoutContext \<Rightarrow> int \<Rightarrow> ('s, app_error, PolicyDecision) eff" where
  "evaluate cfg ctx now =
     bind (ask (pc_killSwitch cfg) (\<lambda>k. k ctx) False) (\<lambda>halted.
     if halted then ret (DENY ''Payouts are halted (kill-switch engaged)'')
     else if cx_amountBaseUnits ctx \<le> 0 then ret (DENY ''Payout amount must be positive'')
     else if cx_amountBaseUnits ctx > pc_maxPerPayoutBaseUnits cfg
       then ret (DENY ''Payout exceeds the per-payout limit'')
     else let staticAllowed = (cx_destination ctx \<in> set (pc_allowlist cfg)) in
     bind (if staticAllowed then ret False else ask (pc_allowlistStore cfg) (\<lambda>u. u ctx now) False) (\<lambda>storeAllowed.
     if \<not> staticAllowed \<and> \<not> storeAllowed
       then ret (DENY ''Destination is not allow-listed or still in cool-down'')
     else bind (ask (pc_sanctions cfg) (\<lambda>b. b (cx_destination ctx)) False) (\<lambda>blocked.
     if blocked then ret (HOLD ''Destination is sanctions-screened'')
     else bind (ask (pc_solvency cfg) (\<lambda>f. f (cx_asset ctx)) True) (\<lambda>solvent.
     if \<not> solvent then ret (DENY ''Refused: solvency invariant not satisfied for asset'')
     else case approval_gate (pc_approval cfg) ctx of
       Some d \<Rightarrow> ret d
     | None \<Rightarrow>
         case timelock_gate (pc_timeLock cfg) ctx now of
           Some d \<Rightarrow> ret d
         | None \<Rightarrow> velocity_gate (pc_velocity cfg) ctx now))))"

text \<open>\<open>check\<close> renders the deadline with \<open>toISOString\<close>, here the millisecond numeral.\<close>

definition policy_check :: "'s PolicyConfig \<Rightarrow> PayoutContext \<Rightarrow> int \<Rightarrow> ('s, app_error, unit) eff" where
  "policy_check cfg ctx now =
     bind (evaluate cfg ctx now) (\<lambda>d.
       case d of
         ALLOW \<Rightarrow> ret ()
       | REQUIRE_APPROVAL needed have \<Rightarrow> throw (ApprovalRequiredError (''Payout requires '' @ show_int needed
           @ '' distinct approvals (have '' @ show_int have @ '')''))
       | HOLD reason \<Rightarrow> throw (ComplianceHoldError reason)
       | DELAY until \<Rightarrow> throw (TimeLockedError (''Payout is time-locked until '' @ show_int until))
       | DENY reason \<Rightarrow> throw (PolicyDeniedError reason))"

section \<open>In-memory guards (policy.ts)\<close>

text \<open>\<open>FlagKillSwitch\<close>: a boolean.\<close>

definition flag_engage :: "bool \<Rightarrow> bool" where "flag_engage tripped = True"
definition flag_reset :: "bool \<Rightarrow> bool" where "flag_reset tripped = False"
definition flag_engaged :: "PayoutContext \<Rightarrow> (bool, app_error, bool) eff" where
  "flag_engaged ctx = reads (\<lambda>tripped. tripped)"

definition denylist_isBlocked :: "string list \<Rightarrow> string \<Rightarrow> ('s, app_error, bool) eff" where
  "denylist_isBlocked blocked address = ret (address \<in> set blocked)"

definition velocity_key :: "PayoutContext \<Rightarrow> string" where
  "velocity_key ctx = cx_tenant ctx @ '':'' @ cx_merchant ctx @ '':'' @ cx_asset ctx"

text \<open>The log: per key, the list of (time, amount) pairs.\<close>

type_synonym velocity_log = "(string, (int \<times> int) list) jsmap"

definition memory_admit :: "VelocityConfig \<Rightarrow> PayoutContext \<Rightarrow> int \<Rightarrow> (velocity_log, app_error, unit) eff" where
  "memory_admit cfg ctx now log =
     (let key = velocity_key ctx;
          cutoff = now - vc_windowMs cfg;
          recent = filter (\<lambda>(at, _). at \<ge> cutoff) (map_get_or log key []);
          spent = sum_list (map snd recent)
      in if spent + cx_amountBaseUnits ctx > vc_maxTotalBaseUnits cfg
         then (Inl (PolicyDeniedError ''Payout exceeds the rolling velocity limit''), log)
         else (Inr (), AList.update key (recent @ [(now, cx_amountBaseUnits ctx)]) log))"

section \<open>Postgres guards (policy.store.ts, policy.queries.ts)\<close>

record kill_switch_row =
  ks_engaged :: bool
  ks_reason :: "string option"
  ks_updated_at :: int

record payout_log_row =
  pw_tenant :: string
  pw_merchant :: string
  pw_asset :: string
  pw_amount_base_units :: int
  pw_at :: int

record allowlist_row =
  aw_usable_at :: int
  aw_added_at :: int

record policy_db =
  pd_kill :: "(string, kill_switch_row) jsmap"
  pd_log :: "payout_log_row list"
  pd_allow :: "(string \<times> string \<times> string \<times> string, allowlist_row) jsmap"

definition policy_db_init :: policy_db where
  "policy_db_init = \<lparr>pd_kill = [], pd_log = [], pd_allow = []\<rparr>"

definition GLOBAL :: string where
  "GLOBAL = ''global''"

definition kill_engaged :: "string \<Rightarrow> PayoutContext \<Rightarrow> (policy_db, app_error, bool) eff" where
  "kill_engaged scope ctx = reads (\<lambda>s. case map_of (pd_kill s) scope of None \<Rightarrow> False | Some r \<Rightarrow> ks_engaged r)"

definition kill_set :: "string \<Rightarrow> bool \<Rightarrow> string option \<Rightarrow> int \<Rightarrow> policy_db \<Rightarrow> policy_db" where
  "kill_set scope engaged reason now s =
     s\<lparr>pd_kill := AList.update scope \<lparr>ks_engaged = engaged, ks_reason = reason, ks_updated_at = now\<rparr> (pd_kill s)\<rparr>"

definition kill_engage :: "string \<Rightarrow> string \<Rightarrow> int \<Rightarrow> policy_db \<Rightarrow> policy_db" where
  "kill_engage scope reason now = kill_set scope True (Some reason) now"

definition kill_trip :: "string \<Rightarrow> string \<Rightarrow> int \<Rightarrow> policy_db \<Rightarrow> policy_db" where
  "kill_trip scope reason now = kill_engage scope reason now"

definition kill_reset :: "string \<Rightarrow> int \<Rightarrow> policy_db \<Rightarrow> policy_db" where
  "kill_reset scope now = kill_set scope False None now"

text \<open>\<open>advisoryKey\<close>: FNV-1a over the code units, read as a signed 64-bit integer.\<close>

fun fnv_loop :: "int \<Rightarrow> string \<Rightarrow> int" where
  "fnv_loop h [] = h"
| "fnv_loop h (c # s) = fnv_loop (((h XOR of_char c) * 1099511628211) AND 0xffffffffffffffff) s"

definition advisoryKey :: "string \<Rightarrow> int" where
  "advisoryKey s =
     (let h = fnv_loop 1469598103934665603 s
      in if h \<ge> 0x8000000000000000 then h - 0x10000000000000000 else h)"

definition in_window :: "string \<Rightarrow> string \<Rightarrow> string \<Rightarrow> payout_log_row \<Rightarrow> bool" where
  "in_window tenant merchant asset r \<longleftrightarrow> pw_tenant r = tenant \<and> pw_merchant r = merchant \<and> pw_asset r = asset"

definition spentSince :: "string \<Rightarrow> string \<Rightarrow> string \<Rightarrow> int \<Rightarrow> payout_log_row list \<Rightarrow> int" where
  "spentSince tenant merchant asset since l =
     sum_list (map pw_amount_base_units (filter (\<lambda>r. in_window tenant merchant asset r \<and> pw_at r \<ge> since) l))"

definition log_prune :: "string \<Rightarrow> string \<Rightarrow> string \<Rightarrow> int \<Rightarrow> payout_log_row list \<Rightarrow> payout_log_row list" where
  "log_prune tenant merchant asset before l =
     filter (\<lambda>r. \<not> (in_window tenant merchant asset r \<and> pw_at r < before)) l"

text \<open>The advisory lock serialises the transaction; it is one atomic step here.\<close>

definition sql_admit :: "VelocityConfig \<Rightarrow> PayoutContext \<Rightarrow> int \<Rightarrow> (policy_db, app_error, unit) eff" where
  "sql_admit cfg ctx now = transaction (\<lambda>s.
     let cutoff = now - vc_windowMs cfg;
         t = cx_tenant ctx; m = cx_merchant ctx; a = cx_asset ctx;
         spent = spentSince t m a cutoff (pd_log s)
     in if spent + cx_amountBaseUnits ctx > vc_maxTotalBaseUnits cfg
        then (Inl (PolicyDeniedError ''Payout exceeds the rolling velocity limit''), s)
        else
          let row = \<lparr>pw_tenant = t, pw_merchant = m, pw_asset = a,
                pw_amount_base_units = cx_amountBaseUnits ctx, pw_at = now\<rparr>
          in (Inr (), s\<lparr>pd_log := log_prune t m a cutoff (pd_log s @ [row])\<rparr>))"

text \<open>\<open>SqlAllowlist\<close>. The conflict branch of \<open>add\<close> re-writes the stored \<open>usable_at\<close>.\<close>

definition allow_add ::
  "string \<Rightarrow> string \<Rightarrow> string \<Rightarrow> string \<Rightarrow> int \<Rightarrow> int \<Rightarrow> policy_db \<Rightarrow> int \<times> policy_db" where
  "allow_add tenant merchant chain address cooldownMs now s =
     (let usableAt = now + max 0 cooldownMs; k = (tenant, merchant, chain, address) in
      case map_of (pd_allow s) k of
        None \<Rightarrow> (usableAt, s\<lparr>pd_allow := AList.update k \<lparr>aw_usable_at = usableAt, aw_added_at = now\<rparr> (pd_allow s)\<rparr>)
      | Some r \<Rightarrow> (aw_usable_at r, s))"

definition allow_remove :: "string \<Rightarrow> string \<Rightarrow> string \<Rightarrow> string \<Rightarrow> policy_db \<Rightarrow> bool \<times> policy_db" where
  "allow_remove tenant merchant chain address s =
     (let k = (tenant, merchant, chain, address) in
      (map_of (pd_allow s) k \<noteq> None, s\<lparr>pd_allow := AList.delete k (pd_allow s)\<rparr>))"

definition allow_usable :: "PayoutContext \<Rightarrow> int \<Rightarrow> (policy_db, app_error, bool) eff" where
  "allow_usable ctx now = reads (\<lambda>s.
     case map_of (pd_allow s) (cx_tenant ctx, cx_merchant ctx, cx_chain ctx, cx_destination ctx) of
       None \<Rightarrow> False
     | Some r \<Rightarrow> aw_usable_at r \<le> now)"

section \<open>Approvals (approval.store.ts)\<close>

record approval_row =
  av_intent_key :: string
  av_approver :: string
  av_tenant :: string
  av_at :: int

definition approve ::
  "string \<Rightarrow> string \<Rightarrow> string \<Rightarrow> string option \<Rightarrow> int \<Rightarrow> (approval_row list, app_error, bool) eff" where
  "approve tenant intentKey approver requestedBy now tbl =
     (if approver = [] then (Inl (SelfApprovalError ''An approval needs an identifiable approver''), tbl)
      else if requestedBy \<noteq> None \<and> requestedBy \<noteq> Some [] \<and> requestedBy = Some approver
        then (Inl (SelfApprovalError ''The requester of a payout can never approve it (separation of duties)''), tbl)
      else if \<exists>r \<in> set tbl. av_intent_key r = intentKey \<and> av_approver r = approver then (Inr False, tbl)
      else (Inr True, tbl @ [\<lparr>av_intent_key = intentKey, av_approver = approver, av_tenant = tenant, av_at = now\<rparr>]))"

definition approversFor :: "string \<Rightarrow> approval_row list \<Rightarrow> string list" where
  "approversFor intentKey tbl =
     map av_approver (sort_key av_at (filter (\<lambda>r. av_intent_key r = intentKey) tbl))"

section \<open>The contract of a velocity limiter\<close>

text \<open>
  \<open>kf\<close> is the key a limiter files a payout under and \<open>spent k since s\<close> what it still knows to
  have been admitted under \<open>k\<close> from the time \<open>since\<close> on. A limiter may forget what is older than
  the window of the payout it admits.
\<close>

definition over_limit :: "VelocityConfig \<Rightarrow> PayoutContext \<Rightarrow> int \<Rightarrow> bool" where
  "over_limit cfg ctx spent \<longleftrightarrow> spent + cx_amountBaseUnits ctx > vc_maxTotalBaseUnits cfg"

locale velocity_limiter =
  fixes admit :: "VelocityConfig \<Rightarrow> PayoutContext \<Rightarrow> int \<Rightarrow> ('s, app_error, unit) eff"
    and kf :: "PayoutContext \<Rightarrow> 'k"
    and spent :: "'k \<Rightarrow> int \<Rightarrow> 's \<Rightarrow> int"
  assumes admit_denied:
      "over_limit cfg ctx (spent (kf ctx) (now - vc_windowMs cfg) s) \<Longrightarrow>
        \<exists>m. admit cfg ctx now s = (Inl (PolicyDeniedError m), s)"
    and admit_allowed:
      "\<not> over_limit cfg ctx (spent (kf ctx) (now - vc_windowMs cfg) s) \<Longrightarrow>
        \<exists>s'. admit cfg ctx now s = (Inr (), s') \<and>
          (\<forall>k since. k \<noteq> kf ctx \<or> since \<ge> now - vc_windowMs cfg \<longrightarrow>
             spent k since s' = spent k since s + (if k = kf ctx \<and> since \<le> now then cx_amountBaseUnits ctx else 0))"

fun admit_all ::
  "(PayoutContext \<Rightarrow> int \<Rightarrow> ('s, app_error, unit) eff) \<Rightarrow> (PayoutContext \<times> int) list \<Rightarrow> 's \<Rightarrow> (PayoutContext \<times> int) list \<times> 's" where
  "admit_all admit [] s = ([], s)"
| "admit_all admit ((ctx, now) # rs) s =
     (case admit ctx now s of
        (Inl e, s1) \<Rightarrow> admit_all admit rs s1
      | (Inr _, s1) \<Rightarrow> (case admit_all admit rs s1 of (acc, s2) \<Rightarrow> ((ctx, now) # acc, s2)))"

definition spent_in :: "(PayoutContext \<Rightarrow> 'k) \<Rightarrow> 'k \<Rightarrow> int \<Rightarrow> (PayoutContext \<times> int) list \<Rightarrow> int" where
  "spent_in kf k since l =
     sum_list (map (\<lambda>(c, _). cx_amountBaseUnits c) (filter (\<lambda>(c, at). kf c = k \<and> since \<le> at) l))"

text \<open>Every admitted payout kept the total admitted in its window within the limit.\<close>

fun within_limit :: "VelocityConfig \<Rightarrow> (PayoutContext \<Rightarrow> 'k) \<Rightarrow> (PayoutContext \<times> int) list \<Rightarrow> (PayoutContext \<times> int) list \<Rightarrow> bool" where
  "within_limit cfg kf before [] \<longleftrightarrow> True"
| "within_limit cfg kf before ((ctx, now) # rs) \<longleftrightarrow>
     spent_in kf (kf ctx) (now - vc_windowMs cfg) (before @ [(ctx, now)]) \<le> vc_maxTotalBaseUnits cfg
     \<and> within_limit cfg kf (before @ [(ctx, now)]) rs"

lemma spent_in_append: "spent_in kf k c (l @ l') = spent_in kf k c l + spent_in kf k c l'"
  by (simp add: spent_in_def)

context velocity_limiter
begin

text \<open>The state agrees with the history \<open>hist\<close> on every window that starts at or after \<open>t\<close>.\<close>

definition agrees :: "int \<Rightarrow> (PayoutContext \<times> int) list \<Rightarrow> 's \<Rightarrow> bool" where
  "agrees t hist s \<longleftrightarrow> (\<forall>k since. t \<le> since \<longrightarrow> spent k since s = spent_in kf k since hist)"

lemma admit_all_within:
  assumes "agrees (t - vc_windowMs cfg) hist s" "sorted (t # map snd rs)" "0 \<le> vc_windowMs cfg"
    "admit_all (admit cfg) rs s = (acc, s')"
  shows "within_limit cfg kf hist acc"
  using assms
proof (induction rs arbitrary: t hist s acc s')
  case (Cons r rs)
  obtain ctx now where r: "r = (ctx, now)" by (cases r)
  from Cons.prems(2) r have le: "t \<le> now" and srt: "sorted (now # map snd rs)" by auto
  have ag: "agrees (now - vc_windowMs cfg) hist s"
    using Cons.prems(1) le by (simp add: agrees_def)
  let ?sp = "spent (kf ctx) (now - vc_windowMs cfg) s"
  show ?case
  proof (cases "over_limit cfg ctx ?sp")
    case True
    from admit_denied [OF True] obtain m where "admit cfg ctx now s = (Inl (PolicyDeniedError m), s)" by blast
    with Cons.IH [OF ag srt Cons.prems(3)] Cons.prems(4) r show ?thesis by simp
  next
    case False
    from admit_allowed [OF False] obtain s1 where a: "admit cfg ctx now s = (Inr (), s1)"
      and sp: "\<And>k since. k \<noteq> kf ctx \<or> since \<ge> now - vc_windowMs cfg \<Longrightarrow>
        spent k since s1 = spent k since s + (if k = kf ctx \<and> since \<le> now then cx_amountBaseUnits ctx else 0)"
      by blast
    obtain acc' where acc: "acc = (ctx, now) # acc'" "admit_all (admit cfg) rs s1 = (acc', s')"
      using Cons.prems(4) a r by (auto split: prod.splits)
    have "agrees (now - vc_windowMs cfg) (hist @ [(ctx, now)]) s1"
      using ag sp by (auto simp: agrees_def spent_in_append spent_in_def)
    from Cons.IH [OF this srt Cons.prems(3) acc(2)] have "within_limit cfg kf (hist @ [(ctx, now)]) acc'" .
    moreover have "spent_in kf (kf ctx) (now - vc_windowMs cfg) (hist @ [(ctx, now)]) \<le> vc_maxTotalBaseUnits cfg"
      using False ag Cons.prems(3) by (simp add: over_limit_def agrees_def spent_in_append) (simp add: spent_in_def)
    ultimately show ?thesis using acc(1) by simp
  qed
qed simp

end

section \<open>Both limiters meet the contract\<close>

definition memory_spent :: "string \<Rightarrow> int \<Rightarrow> velocity_log \<Rightarrow> int" where
  "memory_spent k since log = sum_list (map snd (filter (\<lambda>(at, _). at \<ge> since) (map_get_or log k [])))"

lemma filter_window_twice:
  "c \<le> since \<Longrightarrow> filter (\<lambda>x. (case x of (at, _) \<Rightarrow> c \<le> at) \<and> (case x of (at, _) \<Rightarrow> since \<le> at)) xs =
     filter (\<lambda>(at, _). since \<le> at) xs"
  for since c :: int
  by (induction xs) auto

interpretation memory_vel: velocity_limiter memory_admit velocity_key memory_spent
proof (unfold_locales, goal_cases)
  case (1 cfg ctx now s)
  then show ?case by (auto simp: memory_admit_def memory_spent_def over_limit_def Let_def)
next
  case (2 cfg ctx now s)
  then show ?case
    by (auto simp: memory_admit_def memory_spent_def over_limit_def Let_def filter_window_twice)
qed

abbreviation sql_vel_key :: "PayoutContext \<Rightarrow> string \<times> string \<times> string" where
  "sql_vel_key ctx \<equiv> (cx_tenant ctx, cx_merchant ctx, cx_asset ctx)"

abbreviation sql_spent :: "string \<times> string \<times> string \<Rightarrow> int \<Rightarrow> policy_db \<Rightarrow> int" where
  "sql_spent k since s \<equiv> spentSince (fst k) (fst (snd k)) (snd (snd k)) since (pd_log s)"

lemma spentSince_append:
  "spentSince t m a c (l @ l') = spentSince t m a c l + spentSince t m a c l'"
  by (simp add: spentSince_def)

lemma spentSince_prune:
  "(t', m', a') \<noteq> (t, m, a) \<or> c \<le> since \<Longrightarrow>
     spentSince t' m' a' since (log_prune t m a c l) = spentSince t' m' a' since l"
  by (induction l) (auto simp: spentSince_def log_prune_def in_window_def)

interpretation sql_vel: velocity_limiter sql_admit sql_vel_key sql_spent
proof (unfold_locales, goal_cases)
  case (1 cfg ctx now s)
  then show ?case by (auto simp: sql_admit_def transaction_def over_limit_def Let_def)
next
  case (2 cfg ctx now s)
  then show ?case
    by (auto simp: sql_admit_def transaction_def over_limit_def Let_def spentSince_prune spentSince_append)
      (auto simp: spentSince_def in_window_def)
qed

section \<open>Evaluation on the deployed guards\<close>

definition the_default :: "'a \<Rightarrow> 'a option \<Rightarrow> 'a" where
  "the_default d x = (case x of None \<Rightarrow> d | Some y \<Rightarrow> y)"

lemma the_default_simps [simp]: "the_default d None = d" "the_default d (Some x) = x"
  by (simp_all add: the_default_def)

text \<open>The configuration \<open>server.ts\<close> builds: the Postgres allow-list, kill switch and velocity
  limiter, the solvency oracle, and the optional approval and time-lock policies.\<close>

definition server_policy ::
  "int \<Rightarrow> string list \<Rightarrow> (string \<Rightarrow> (policy_db, app_error, bool) eff) \<Rightarrow> ApprovalPolicy option \<Rightarrow>
   TimeLockPolicy option \<Rightarrow> VelocityConfig \<Rightarrow> policy_db PolicyConfig" where
  "server_policy maxPayout allowlist solvent approval timeLock vel =
     \<lparr>pc_maxPerPayoutBaseUnits = maxPayout, pc_allowlist = allowlist, pc_allowlistStore = Some allow_usable,
      pc_killSwitch = Some (kill_engaged GLOBAL), pc_sanctions = None, pc_solvency = Some solvent,
      pc_approval = approval, pc_timeLock = timeLock, pc_velocity = Some (sql_admit vel)\<rparr>"

lemma velocity_gate_ALLOW:
  "velocity_gate (Some admit) ctx now s = (Inr ALLOW, s') \<longleftrightarrow> admit ctx now s = (Inr (), s')"
  by (auto simp: velocity_gate_def try_catch_def bind_def ret_def throw_def split: prod.splits sum.splits if_splits)

lemma gates_not_ALLOW [simp]: "approval_gate p ctx \<noteq> Some ALLOW" "timelock_gate q ctx now \<noteq> Some ALLOW"
  by (auto simp: approval_gate_def timelock_gate_def Let_def split: option.splits)

lemma policy_check_iff: "policy_check cfg ctx now s = (Inr (), s') \<longleftrightarrow> evaluate cfg ctx now s = (Inr ALLOW, s')"
  by (auto simp: policy_check_def bind_def ret_def throw_def split: prod.splits sum.splits PolicyDecision.splits)

section \<open>Properties of the policy\<close>

definition ex_ctx :: PayoutContext where
  "ex_ctx = \<lparr>cx_tenant = ''t'', cx_merchant = ''m'', cx_chain = ''TRON'', cx_asset = ''USDT'',
     cx_amountBaseUnits = 60, cx_destination = ''Tdst'', cx_requester = Some ''alice'',
     cx_approvals = Some [''alice'', ''bob'', ''bob'', ''carol''], cx_requestedAt = Some 0\<rparr>"

definition ex_vel :: VelocityConfig where
  "ex_vel = \<lparr>vc_windowMs = 1000, vc_maxTotalBaseUnits = 100\<rparr>"

definition ex_policy :: "policy_db PolicyConfig" where
  "ex_policy = server_policy 80 [''Tdst''] (\<lambda>_. ret True) (Some \<lparr>ap_thresholdBaseUnits = 50, ap_required = 2\<rparr>)
     (Some \<lparr>tl_thresholdBaseUnits = 50, tl_delayMs = 10\<rparr>) ex_vel"

text \<open>C15. An allowed payout passed every guard: if the deployed policy answers \<open>ALLOW\<close>, the
  kill switch was off; the amount was positive and within the per-payout limit; the
  destination was on the static list or on the stored list past its cool-down; the
  solvency oracle had said yes; above the approval threshold, at least the required number
  of distinct approvers other than the requester are recorded; above the time-lock
  threshold the delay has passed; and the velocity window, this payout included, is within
  its limit.\<close>

theorem allow_passed_every_guard:
  assumes "evaluate (server_policy mx al (\<lambda>a. reads (orc a)) ap tl' vel) ctx now s = (Inr ALLOW, s')"
  shows "(case map_of (pd_kill s) GLOBAL of None \<Rightarrow> True | Some r \<Rightarrow> \<not> ks_engaged r)
    \<and> 0 < cx_amountBaseUnits ctx \<and> cx_amountBaseUnits ctx \<le> mx
    \<and> (cx_destination ctx \<notin> set al \<longrightarrow>
        (\<exists>r. map_of (pd_allow s) (cx_tenant ctx, cx_merchant ctx, cx_chain ctx, cx_destination ctx) = Some r
           \<and> aw_usable_at r \<le> now))
    \<and> orc (cx_asset ctx) s
    \<and> (\<forall>p. ap = Some p \<longrightarrow> ap_thresholdBaseUnits p < cx_amountBaseUnits ctx \<longrightarrow>
        ap_required p \<le> int (card (set (the_default [] (cx_approvals ctx)) - {[]} - set_option (cx_requester ctx))))
    \<and> (\<forall>p. tl' = Some p \<longrightarrow> tl_thresholdBaseUnits p < cx_amountBaseUnits ctx \<longrightarrow>
        the_default now (cx_requestedAt ctx) + tl_delayMs p \<le> now)
    \<and> spentSince (cx_tenant ctx) (cx_merchant ctx) (cx_asset ctx) (now - vc_windowMs vel) (pd_log s)
        + cx_amountBaseUnits ctx \<le> vc_maxTotalBaseUnits vel"
proof -
  let ?dst = "(cx_tenant ctx, cx_merchant ctx, cx_chain ctx, cx_destination ctx)"
  have g: "kill_engaged GLOBAL ctx s = (Inr False, s)" "0 < cx_amountBaseUnits ctx" "cx_amountBaseUnits ctx \<le> mx"
    "cx_destination ctx \<in> set al \<or> allow_usable ctx now s = (Inr True, s)" "orc (cx_asset ctx) s"
    "approval_gate ap ctx = None" "timelock_gate tl' ctx now = None" "sql_admit vel ctx now s = (Inr (), s')"
    using assms
    by (auto simp: evaluate_def server_policy_def ask_def kill_engaged_def allow_usable_def effect_simps Let_def
        velocity_gate_ALLOW split: if_splits option.splits)
  have len: "length (approvers ctx) = card (set (the_default [] (cx_approvals ctx)) - {[]} - set_option (cx_requester ctx))"
  proof -
    have "set (approvers ctx) = set (the_default [] (cx_approvals ctx)) - {[]} - set_option (cx_requester ctx)"
      by (cases "cx_approvals ctx"; cases "cx_requester ctx") (auto simp: approvers_def)
    moreover have "distinct (approvers ctx)" by (simp add: approvers_def)
    ultimately show ?thesis by (metis distinct_card)
  qed
  show ?thesis
    using g len
    by (auto simp: kill_engaged_def allow_usable_def reads_def approval_gate_def timelock_gate_def sql_admit_def
        transaction_def Let_def split: option.splits if_splits)
qed

theorem allow_passed_every_guard_witness:
  "\<exists>s'. evaluate ex_policy ex_ctx 20 policy_db_init = (Inr ALLOW, s') \<and> 0 < cx_amountBaseUnits ex_ctx"
proof -
  have e: "evaluate (server_policy 80 [''Tdst''] (\<lambda>a. reads (\<lambda>_. True)) (Some \<lparr>ap_thresholdBaseUnits = 50, ap_required = 2\<rparr>)
      (Some \<lparr>tl_thresholdBaseUnits = 50, tl_delayMs = 10\<rparr>) ex_vel) ex_ctx 20 policy_db_init =
    (Inr ALLOW, snd (evaluate ex_policy ex_ctx 20 policy_db_init))" by code_simp
  have "evaluate ex_policy ex_ctx 20 policy_db_init = (Inr ALLOW, snd (evaluate ex_policy ex_ctx 20 policy_db_init))"
    by code_simp
  with allow_passed_every_guard [where orc = "\<lambda>_ _. True", OF e] show ?thesis by blast
qed

text \<open>C38. The rolling velocity limit holds over any history: of a sequence of payouts offered to
  the Postgres limiter in time order, each one admitted kept the total admitted for its
  tenant, merchant and asset within its window, itself included, at or under the limit.\<close>

theorem velocity_window_bounded:
  assumes "sorted (map snd rs)" and "0 \<le> vc_windowMs cfg"
    and "admit_all (sql_admit cfg) rs policy_db_init = (acc, s')"
  shows "within_limit cfg sql_vel_key [] acc"
proof (cases rs)
  case Nil
  with assms(3) show ?thesis by simp
next
  case (Cons r rs')
  have "sql_vel.agrees (snd r - vc_windowMs cfg) [] policy_db_init"
    unfolding sql_vel.agrees_def by (simp add: policy_db_init_def spentSince_def spent_in_def)
  from sql_vel.admit_all_within [OF this _ assms(2,3)] assms(1) Cons show ?thesis by simp
qed

theorem velocity_window_bounded_witness:
  "fst (admit_all (sql_admit ex_vel) [(ex_ctx, 0), (ex_ctx, 500), (ex_ctx, 1001)] policy_db_init) =
     [(ex_ctx, 0), (ex_ctx, 1001)]
   \<and> within_limit ex_vel sql_vel_key [] [(ex_ctx, 0), (ex_ctx, 1001)]"
proof -
  have e: "fst (admit_all (sql_admit ex_vel) [(ex_ctx, 0), (ex_ctx, 500), (ex_ctx, 1001)] policy_db_init) =
     [(ex_ctx, 0), (ex_ctx, 1001)]" by code_simp
  have "within_limit ex_vel sql_vel_key [] (fst (admit_all (sql_admit ex_vel)
      [(ex_ctx, 0), (ex_ctx, 500), (ex_ctx, 1001)] policy_db_init))"
    by (rule velocity_window_bounded [OF _ _ surjective_pairing]) (simp_all add: ex_vel_def)
  with e show ?thesis by simp
qed

text \<open>The advisory lock key is a signed 64-bit integer for every string, as Postgres'
  \<open>bigint\<close> demands.\<close>

theorem advisoryKey_is_bigint: "- (2 ^ 63) \<le> advisoryKey s \<and> advisoryKey s < 2 ^ 63"
proof -
  have "0 \<le> fnv_loop h s \<and> fnv_loop h s < 2 ^ 64" if "0 \<le> h" "h < 2 ^ 64" for h
    using that
  proof (induction h s rule: fnv_loop.induct)
    case (2 h c s)
    have m: "x AND 0xffffffffffffffff = x mod 2 ^ 64" for x :: int
      using take_bit_eq_mask [of 64 x] by (simp add: take_bit_eq_mod mask_eq_exp_minus_1)
    show ?case unfolding fnv_loop.simps m by (rule 2(1) [unfolded m]) simp_all
  qed simp
  from this [of 1469598103934665603] show ?thesis by (simp add: advisoryKey_def Let_def)
qed

text \<open>Re-adding a listed destination never restarts its cool-down and never makes it usable
  earlier; a new destination is usable exactly from \<open>now + max 0 cooldownMs\<close> on.\<close>

theorem allowlist_cooldown_kept:
  "case map_of (pd_allow s) (t, m, c, a) of
     Some r \<Rightarrow> allow_add t m c a cd now s = (aw_usable_at r, s)
   | None \<Rightarrow> (case allow_add t m c a cd now s of (at, s') \<Rightarrow> at = now + max 0 cd
        \<and> (\<forall>ctx later. sql_vel_key ctx = (t, m, cx_asset ctx) \<and> cx_chain ctx = c \<and> cx_destination ctx = a \<longrightarrow>
             allow_usable ctx later s' = (Inr (at \<le> later), s')))"
  by (auto simp: allow_add_def allow_usable_def reads_def Let_def update_conv' split: option.splits)

theorem allowlist_cooldown_kept_witness:
  "fst (allow_add ''t'' ''m'' ''TRON'' ''Tdst'' 50 100 policy_db_init) = 150"
  using allowlist_cooldown_kept [where s = policy_db_init and t = "''t''" and m = "''m''" and c = "''TRON''"
    and a = "''Tdst''" and cd = 50 and now = 100]
  by (auto simp: policy_db_init_def split: prod.splits)

definition approvals_ok :: "string \<Rightarrow> string \<Rightarrow> approval_row list \<Rightarrow> bool" where
  "approvals_ok k requester tbl \<longleftrightarrow> distinct (map av_approver tbl) \<and> requester \<notin> av_approver ` set tbl
     \<and> [] \<notin> av_approver ` set tbl \<and> av_intent_key ` set tbl \<subseteq> {k}"

lemma approve_ok:
  "requester \<noteq> [] \<Longrightarrow> approvals_ok k requester tbl \<Longrightarrow>
     approvals_ok k requester (snd (approve tenant k who (Some requester) at tbl))"
  unfolding approve_def approvals_ok_def by auto

text \<open>Approvals are distinct and never by the requester: after any sequence of approval
  attempts on an intent with a known requester, the recorded approvers have no duplicates
  and do not contain the requester or the empty name.\<close>

theorem approvals_distinct_not_requester:
  assumes "requester \<noteq> []"
  shows "let tbl = fold (\<lambda>(who, at) tbl. snd (approve tenant k who (Some requester) at tbl)) attempts [] in
    distinct (approversFor k tbl) \<and> requester \<notin> set (approversFor k tbl) \<and> [] \<notin> set (approversFor k tbl)"
proof -
  let ?run = "\<lambda>tbl. fold (\<lambda>(who, at) tbl. snd (approve tenant k who (Some requester) at tbl)) attempts tbl"
  have "approvals_ok k requester tbl \<Longrightarrow> approvals_ok k requester (?run tbl)" for tbl
    by (induction attempts arbitrary: tbl) (auto intro!: approve_ok [OF assms])
  from this [of "[]"] have "approvals_ok k requester (?run [])" by (simp add: approvals_ok_def)
  moreover have "distinct (map av_approver (sort_key av_at (filter P tbl)))" if "distinct (map av_approver tbl)" for P tbl
    using that by (auto simp: distinct_map intro: inj_on_subset)
  ultimately show ?thesis unfolding Let_def approversFor_def approvals_ok_def by auto
qed

theorem approvals_distinct_not_requester_witness:
  "distinct (approversFor ''i'' (fold (\<lambda>(who, at) tbl. snd (approve ''t'' ''i'' who (Some ''alice'') at tbl))
     [(''bob'', 3), (''alice'', 4), (''bob'', 5), (''carol'', 1)] []))"
  using approvals_distinct_not_requester [of "''alice''" "''t''" "''i''"] unfolding Let_def by blast

end
