(* ===== verification/Pool.thy ===== *)
theory Pool
  imports
    App_Errors
    "HOL-Library.List_Lexorder"
    "HOL-Library.Char_ord"
    "HOL-Library.Product_Lexorder"
begin

text \<open>
  The deposit-address pool: its state machine (\<open>src/attribution/pool-state.ts\<close>), the port
  (\<open>pool.port.ts\<close>), the Postgres store (\<open>src/stores/pool.store.ts\<close>,
  \<open>src/stores/pool-group.store.ts\<close>, \<open>src/queries/pool-address.queries.ts\<close>, the constraints of
  \<open>src/schemas/sql/pool.schema.ts\<close>), \<open>PoolManager\<close> and \<open>PooledAttribution\<close>.

  Each query is one atomic statement, so concurrent requests are interleavings of query
  steps: \<open>pool_step\<close> is the step relation and \<open>pool_inv\<close> its invariant. The locale
  \<open>pool_store\<close> is what \<open>PoolManager\<close> relies on.
\<close>

section \<open>The state machine (pool-state.ts)\<close>

datatype PoolState = Available | Reserved | InUse | Cooling

datatype PoolAction = reserve_action | detect_action | cool_action | release_action

datatype GatherStrategyKind = EOA_FUND_TRANSFER | FORWARDER | EIP7702

fun TRANSITIONS :: "PoolAction \<Rightarrow> PoolState list \<times> PoolState" where
  "TRANSITIONS reserve_action = ([Available], Reserved)"
| "TRANSITIONS detect_action = ([Reserved], InUse)"
| "TRANSITIONS cool_action = ([InUse], Cooling)"
| "TRANSITIONS release_action = ([Cooling, Reserved], Available)"

fun pool_state_name :: "PoolState \<Rightarrow> string" where
  "pool_state_name Available = ''AVAILABLE''"
| "pool_state_name Reserved = ''RESERVED''"
| "pool_state_name InUse = ''IN_USE''"
| "pool_state_name Cooling = ''COOLING''"

fun pool_action_name :: "PoolAction \<Rightarrow> string" where
  "pool_action_name reserve_action = ''reserve''"
| "pool_action_name detect_action = ''detect''"
| "pool_action_name cool_action = ''cool''"
| "pool_action_name release_action = ''release''"

fun join_with :: "string \<Rightarrow> string list \<Rightarrow> string" where
  "join_with sep [] = []"
| "join_with sep [x] = x"
| "join_with sep (x # y # xs) = x @ sep @ join_with sep (y # xs)"

definition nextPoolState :: "PoolState \<Rightarrow> PoolAction \<Rightarrow> app_error + PoolState" where
  "nextPoolState current action =
     (case TRANSITIONS action of (from_states, to_state) \<Rightarrow>
        if current \<notin> set from_states
        then Inl (InvalidPoolTransitionError (''Cannot '' @ pool_action_name action
          @ '' a pool address in state '' @ pool_state_name current @ '' (expected ''
          @ join_with '' | '' (map pool_state_name from_states) @ '')''))
        else Inr to_state)"

definition canPoolTransition :: "PoolState \<Rightarrow> PoolAction \<Rightarrow> bool" where
  "canPoolTransition current action \<longleftrightarrow> current \<in> set (fst (TRANSITIONS action))"

section \<open>Rows and the port (pool.port.ts)\<close>

record PoolAddressRow =
  pa_id :: string
  pa_tenant :: string
  pa_merchant :: string
  pa_chain :: string
  pa_derivationIndex :: int
  pa_address :: string
  pa_state :: PoolState
  pa_invoiceId :: "string option"
  pa_cooldownUntil :: "int option"
  pa_gatherStrategy :: GatherStrategyKind

record NewPoolAddress =
  np_tenant :: string
  np_merchant :: string
  np_chain :: string
  np_derivationIndex :: int
  np_address :: string
  np_invoiceId :: string
  np_gatherStrategy :: GatherStrategyKind

text \<open>An optional nullable field: \<open>None\<close> is \<open>undefined\<close>, \<open>Some None\<close> is \<open>null\<close>.\<close>

record StateChange =
  sc_invoiceId :: "string option option"
  sc_cooldownUntil :: "int option option"

definition no_change :: StateChange where
  "no_change = \<lparr>sc_invoiceId = None, sc_cooldownUntil = None\<rparr>"

text \<open>\<open>po_insertReserved\<close> takes the \<open>randomUUID()\<close> it draws as its first argument.\<close>

record 's PoolStore =
  po_claimAvailable :: "string \<Rightarrow> string \<Rightarrow> string \<Rightarrow> string \<Rightarrow> ('s, app_error, PoolAddressRow option) eff"
  po_nextIndex :: "string \<Rightarrow> string \<Rightarrow> string \<Rightarrow> 's \<Rightarrow> int"
  po_insertReserved :: "string \<Rightarrow> NewPoolAddress \<Rightarrow> ('s, app_error, PoolAddressRow) eff"
  po_findByAddress :: "string \<Rightarrow> string \<Rightarrow> 's \<Rightarrow> PoolAddressRow option"
  po_addressesForMerchant :: "string \<Rightarrow> string \<Rightarrow> string \<Rightarrow> 's \<Rightarrow> PoolAddressRow list"
  po_activeAddresses :: "string \<Rightarrow> 's \<Rightarrow> PoolAddressRow list"
  po_setState :: "string \<Rightarrow> string \<Rightarrow> PoolState \<Rightarrow> PoolState \<Rightarrow> StateChange \<Rightarrow> ('s, app_error, PoolAddressRow option) eff"
  po_releaseCooled :: "int \<Rightarrow> ('s, app_error, nat) eff"

section \<open>The Postgres store (pool.store.ts, pool-address.queries.ts)\<close>

text \<open>The table is the list of its rows; an \<open>UPDATE\<close> rewrites rows in place.\<close>

type_synonym pool_table = "PoolAddressRow list"

definition claim_candidates :: "string \<Rightarrow> string \<Rightarrow> string \<Rightarrow> pool_table \<Rightarrow> pool_table" where
  "claim_candidates t m c tbl = sort_key pa_derivationIndex
     (filter (\<lambda>r. pa_tenant r = t \<and> pa_merchant r = m \<and> pa_chain r = c \<and> pa_state r = Available) tbl)"

definition claimLowestAvailable ::
  "string \<Rightarrow> string \<Rightarrow> string \<Rightarrow> string \<Rightarrow> PoolState \<Rightarrow> pool_table \<Rightarrow> PoolAddressRow list \<times> pool_table" where
  "claimLowestAvailable t m c invoice reserved tbl =
     (case claim_candidates t m c tbl of
        [] \<Rightarrow> ([], tbl)
      | q # _ \<Rightarrow>
          let upd = (\<lambda>r. r\<lparr>pa_state := reserved, pa_invoiceId := Some invoice\<rparr>)
          in (map upd (filter (\<lambda>r. pa_id r = pa_id q) tbl),
              map (\<lambda>r. if pa_id r = pa_id q then upd r else r) tbl))"

definition claimAvailable ::
  "string \<Rightarrow> string \<Rightarrow> string \<Rightarrow> string \<Rightarrow> (pool_table, app_error, PoolAddressRow option) eff" where
  "claimAvailable t m c invoice tbl =
     (case claimLowestAvailable t m c invoice Reserved tbl of
        (rows, tbl') \<Rightarrow> (Inr (case rows of [] \<Rightarrow> None | r # _ \<Rightarrow> Some r), tbl'))"

definition nextDerivationIndex :: "string \<Rightarrow> pool_table \<Rightarrow> int" where
  "nextDerivationIndex c tbl =
     (case map pa_derivationIndex (filter (\<lambda>r. pa_chain r = c) tbl) of
        [] \<Rightarrow> 0
      | i # is \<Rightarrow> fold max is i + 1)"

definition pool_nextIndex :: "string \<Rightarrow> string \<Rightarrow> string \<Rightarrow> pool_table \<Rightarrow> int" where
  "pool_nextIndex t m c tbl = nextDerivationIndex c tbl"

text \<open>The primary key and the two \<open>UNIQUE\<close> constraints of \<open>pool_address\<close>.\<close>

definition pool_conflict :: "PoolAddressRow \<Rightarrow> PoolAddressRow \<Rightarrow> bool" where
  "pool_conflict r q \<longleftrightarrow> pa_id r = pa_id q
     \<or> (pa_chain r = pa_chain q \<and> pa_address r = pa_address q)
     \<or> (pa_tenant r = pa_tenant q \<and> pa_merchant r = pa_merchant q \<and> pa_chain r = pa_chain q
        \<and> pa_derivationIndex r = pa_derivationIndex q)"

definition reserved_row :: "string \<Rightarrow> NewPoolAddress \<Rightarrow> PoolAddressRow" where
  "reserved_row uuid n =
     \<lparr>pa_id = uuid, pa_tenant = np_tenant n, pa_merchant = np_merchant n, pa_chain = np_chain n,
      pa_derivationIndex = np_derivationIndex n, pa_address = np_address n, pa_state = Reserved,
      pa_invoiceId = Some (np_invoiceId n), pa_cooldownUntil = None,
      pa_gatherStrategy = np_gatherStrategy n\<rparr>"

definition insertReserved :: "string \<Rightarrow> NewPoolAddress \<Rightarrow> (pool_table, app_error, PoolAddressRow) eff" where
  "insertReserved uuid n tbl =
     (let row = reserved_row uuid n in
      if list_ex (pool_conflict row) tbl
      then (Inl (JsError ''duplicate key value violates unique constraint''), tbl)
      else (Inr row, tbl @ [row]))"

definition findByAddress :: "string \<Rightarrow> string \<Rightarrow> pool_table \<Rightarrow> PoolAddressRow option" where
  "findByAddress c a tbl = List.find (\<lambda>r. pa_chain r = c \<and> pa_address r = a) tbl"

definition addressesForMerchant :: "string \<Rightarrow> string \<Rightarrow> string \<Rightarrow> pool_table \<Rightarrow> PoolAddressRow list" where
  "addressesForMerchant t m c tbl = sort_key pa_derivationIndex
     (filter (\<lambda>r. pa_tenant r = t \<and> pa_merchant r = m \<and> pa_chain r = c) tbl)"

definition ACTIVE_STATES :: "PoolState list" where
  "ACTIVE_STATES = [Reserved, InUse, Cooling]"

definition activeAddresses :: "string \<Rightarrow> pool_table \<Rightarrow> PoolAddressRow list" where
  "activeAddresses c tbl = filter (\<lambda>r. pa_chain r = c \<and> pa_state r \<in> set ACTIVE_STATES) tbl"

definition patch_row :: "PoolState \<Rightarrow> StateChange \<Rightarrow> PoolAddressRow \<Rightarrow> PoolAddressRow" where
  "patch_row to_state ch r =
     (let r1 = r\<lparr>pa_state := to_state\<rparr>;
          r2 = (case sc_invoiceId ch of None \<Rightarrow> r1 | Some i \<Rightarrow> r1\<lparr>pa_invoiceId := i\<rparr>)
      in (case sc_cooldownUntil ch of None \<Rightarrow> r2 | Some d \<Rightarrow> r2\<lparr>pa_cooldownUntil := d\<rparr>))"

definition transition ::
  "string \<Rightarrow> string \<Rightarrow> PoolState \<Rightarrow> PoolState \<Rightarrow> StateChange \<Rightarrow> pool_table \<Rightarrow> PoolAddressRow list \<times> pool_table" where
  "transition c a from_state to_state ch tbl =
     (let hit = (\<lambda>r. pa_chain r = c \<and> pa_address r = a \<and> pa_state r = from_state) in
      (map (patch_row to_state ch) (filter hit tbl),
       map (\<lambda>r. if hit r then patch_row to_state ch r else r) tbl))"

definition setState ::
  "string \<Rightarrow> string \<Rightarrow> PoolState \<Rightarrow> PoolState \<Rightarrow> StateChange \<Rightarrow> (pool_table, app_error, PoolAddressRow option) eff" where
  "setState c a from_state to_state ch tbl =
     (case transition c a from_state to_state ch tbl of
        (rows, tbl') \<Rightarrow> (Inr (case rows of [] \<Rightarrow> None | r # _ \<Rightarrow> Some r), tbl'))"

definition cooled :: "int \<Rightarrow> PoolAddressRow \<Rightarrow> bool" where
  "cooled now r \<longleftrightarrow> pa_state r = Cooling \<and> (case pa_cooldownUntil r of None \<Rightarrow> False | Some d \<Rightarrow> d \<le> now)"

definition freed :: "PoolAddressRow \<Rightarrow> PoolAddressRow" where
  "freed r = r\<lparr>pa_state := Available, pa_invoiceId := None, pa_cooldownUntil := None\<rparr>"

definition releaseCooled :: "int \<Rightarrow> (pool_table, app_error, nat) eff" where
  "releaseCooled now tbl =
     (Inr (length (filter (cooled now) tbl)), map (\<lambda>r. if cooled now r then freed r else r) tbl)"

definition SqlPoolStore :: "pool_table PoolStore" where
  "SqlPoolStore =
     \<lparr>po_claimAvailable = claimAvailable, po_nextIndex = pool_nextIndex,
      po_insertReserved = insertReserved, po_findByAddress = findByAddress,
      po_addressesForMerchant = addressesForMerchant, po_activeAddresses = activeAddresses,
      po_setState = setState, po_releaseCooled = releaseCooled\<rparr>"

record PoolGroup =
  pg_tenant :: string
  pg_merchant :: string
  pg_chain :: string
  pg_addresses :: "string list"

text \<open>\<open>SELECT DISTINCT tenant, merchant, chain ... ORDER BY chain, tenant, merchant\<close>, with the
  byte order of the C collation.\<close>

definition activeGroups :: "pool_table \<Rightarrow> (string \<times> string \<times> string) list" where
  "activeGroups tbl =
     map (\<lambda>(c, t, m). (t, m, c))
       (sort (remdups (map (\<lambda>r. (pa_chain r, pa_tenant r, pa_merchant r))
         (filter (\<lambda>r. pa_state r \<noteq> Available) tbl))))"

definition addressesInGroup :: "string \<Rightarrow> string \<Rightarrow> string \<Rightarrow> pool_table \<Rightarrow> string list" where
  "addressesInGroup t m c tbl =
     map pa_address (filter (\<lambda>r. pa_tenant r = t \<and> pa_merchant r = m \<and> pa_chain r = c) tbl)"

definition poolGroups :: "pool_table \<Rightarrow> PoolGroup list" where
  "poolGroups tbl = map (\<lambda>(t, m, c).
     \<lparr>pg_tenant = t, pg_merchant = m, pg_chain = c, pg_addresses = addressesInGroup t m c tbl\<rparr>) (activeGroups tbl)"

section \<open>PoolManager (pool-manager.ts)\<close>

text \<open>\<open>derive chain xpub index\<close> is the address derivation the engine injects; it may throw.
  \<open>activeStrategy\<close> is the optional lookup of the active gather strategy.\<close>

record 's pool_config =
  pc_derive :: "string \<Rightarrow> string \<Rightarrow> int \<Rightarrow> app_error + string"
  pc_cooldownMs :: int
  pc_activeStrategy :: "(string \<Rightarrow> string \<Rightarrow> app_error + GatherStrategyKind) option"

definition resolveStrategy :: "'s pool_config \<Rightarrow> string \<Rightarrow> string \<Rightarrow> app_error + GatherStrategyKind" where
  "resolveStrategy cfg chain tenant =
     (case pc_activeStrategy cfg of None \<Rightarrow> Inr EOA_FUND_TRANSFER | Some f \<Rightarrow> f chain tenant)"

definition assign ::
  "'s PoolStore \<Rightarrow> 's pool_config \<Rightarrow> string \<Rightarrow> string \<Rightarrow> string \<Rightarrow> string \<Rightarrow> string \<Rightarrow> string \<Rightarrow>
   ('s, app_error, string) eff" where
  "assign st cfg uuid tenant merchant chain invoiceId xpub =
     bind (po_claimAvailable st tenant merchant chain invoiceId) (\<lambda>claimed.
       case claimed of
         Some row \<Rightarrow> ret (pa_address row)
       | None \<Rightarrow>
           bind (reads (po_nextIndex st tenant merchant chain)) (\<lambda>derivationIndex.
           bind (lift (resolveStrategy cfg chain tenant)) (\<lambda>gatherStrategy.
           bind (lift (pc_derive cfg chain xpub derivationIndex)) (\<lambda>address.
           bind (po_insertReserved st uuid
             \<lparr>np_tenant = tenant, np_merchant = merchant, np_chain = chain,
              np_derivationIndex = derivationIndex, np_address = address, np_invoiceId = invoiceId,
              np_gatherStrategy = gatherStrategy\<rparr>) (\<lambda>row. ret (pa_address row))))))"

definition pool_resolve :: "'s PoolStore \<Rightarrow> string \<Rightarrow> string \<Rightarrow> 's \<Rightarrow> (string \<times> string) option" where
  "pool_resolve st chain address s =
     (case po_findByAddress st chain address s of
        None \<Rightarrow> None
      | Some row \<Rightarrow> if pa_state row = Available then None else Some (pa_tenant row, pa_merchant row))"

definition pool_apply ::
  "'s PoolStore \<Rightarrow> string \<Rightarrow> string \<Rightarrow> PoolAction \<Rightarrow> StateChange \<Rightarrow> ('s, app_error, PoolAddressRow) eff" where
  "pool_apply st chain address action change =
     bind (reads (po_findByAddress st chain address)) (\<lambda>row.
       case row of
         None \<Rightarrow> throw (PoolAddressNotFoundError (''No pool address '' @ address @ '' on '' @ chain))
       | Some row \<Rightarrow>
           bind (lift (nextPoolState (pa_state row) action)) (\<lambda>to_state.
           bind (po_setState st chain address (pa_state row) to_state change) (\<lambda>updated.
             case updated of
               None \<Rightarrow> throw (PoolConcurrentModificationError (''Pool address '' @ address
                 @ '' changed state concurrently during '' @ pool_action_name action))
             | Some u \<Rightarrow> ret u)))"

definition markInUse :: "'s PoolStore \<Rightarrow> string \<Rightarrow> string \<Rightarrow> ('s, app_error, PoolAddressRow) eff" where
  "markInUse st chain address = pool_apply st chain address detect_action no_change"

definition pool_cool :: "'s PoolStore \<Rightarrow> 's pool_config \<Rightarrow> int \<Rightarrow> string \<Rightarrow> string \<Rightarrow> ('s, app_error, PoolAddressRow) eff" where
  "pool_cool st cfg now chain address =
     pool_apply st chain address cool_action
       \<lparr>sc_invoiceId = None, sc_cooldownUntil = Some (Some (now + pc_cooldownMs cfg))\<rparr>"

definition pool_release :: "'s PoolStore \<Rightarrow> string \<Rightarrow> string \<Rightarrow> ('s, app_error, PoolAddressRow) eff" where
  "pool_release st chain address =
     pool_apply st chain address release_action \<lparr>sc_invoiceId = Some None, sc_cooldownUntil = Some None\<rparr>"

definition pool_releaseCooled :: "'s PoolStore \<Rightarrow> int \<Rightarrow> ('s, app_error, nat) eff" where
  "pool_releaseCooled st now = po_releaseCooled st now"

section \<open>PooledAttribution (pooled-attribution.ts)\<close>

record AttributionEntry =
  ae_tenant :: string
  ae_merchant :: string
  ae_feeBasisPoints :: int

definition attribution_resolve ::
  "'s PoolStore \<Rightarrow> (string \<Rightarrow> string \<Rightarrow> int) \<Rightarrow> string \<Rightarrow> string \<Rightarrow> 's \<Rightarrow> AttributionEntry option" where
  "attribution_resolve st feePolicy chain address s =
     (case pool_resolve st chain address s of
        None \<Rightarrow> None
      | Some (t, m) \<Rightarrow> Some \<lparr>ae_tenant = t, ae_merchant = m, ae_feeBasisPoints = feePolicy t m\<rparr>)"

section \<open>Uniqueness and the store's contract\<close>

definition pool_unique :: "pool_table \<Rightarrow> bool" where
  "pool_unique tbl \<longleftrightarrow> sorted_wrt (\<lambda>r q. \<not> pool_conflict r q) tbl"

definition same_identity :: "PoolAddressRow \<Rightarrow> PoolAddressRow \<Rightarrow> bool" where
  "same_identity r q \<longleftrightarrow> pa_id r = pa_id q \<and> pa_tenant r = pa_tenant q \<and> pa_merchant r = pa_merchant q
     \<and> pa_chain r = pa_chain q \<and> pa_address r = pa_address q \<and> pa_derivationIndex r = pa_derivationIndex q
     \<and> pa_gatherStrategy r = pa_gatherStrategy q"

lemma same_identity_refl [simp]: "same_identity r r"
  by (simp add: same_identity_def)

lemma pool_conflict_sym: "pool_conflict r q = pool_conflict q r"
  by (auto simp: pool_conflict_def)

lemma pool_conflict_identity:
  "same_identity r r' \<Longrightarrow> same_identity q q' \<Longrightarrow> pool_conflict r q = pool_conflict r' q'"
  by (simp add: same_identity_def pool_conflict_def)

lemma pool_unique_map:
  assumes "pool_unique tbl" "\<And>r. same_identity r (f r)"
  shows "pool_unique (map f tbl)"
  using assms(1) pool_conflict_identity [OF assms(2) assms(2)]
  by (simp add: pool_unique_def sorted_wrt_map)

lemma pool_unique_snoc:
  "pool_unique (tbl @ [r]) \<longleftrightarrow> pool_unique tbl \<and> \<not> list_ex (pool_conflict r) tbl"
  by (auto simp: pool_unique_def sorted_wrt_append list_ex_iff pool_conflict_sym)

lemma pool_unique_eq:
  assumes "pool_unique tbl" "r \<in> set tbl" "q \<in> set tbl" "pool_conflict r q"
  shows "r = q"
  using assms
proof (induction tbl)
  case (Cons x xs)
  then show ?case by (auto simp: pool_unique_def pool_conflict_sym)
qed simp

lemma filter_unique:
  assumes "pool_unique tbl" "q \<in> set tbl" "P q" "\<And>r. r \<in> set tbl \<Longrightarrow> P r \<Longrightarrow> pool_conflict r q"
  shows "filter P tbl = [q]"
  using assms
proof (induction tbl)
  case (Cons x xs)
  show ?case
  proof (cases "x = q")
    case True
    with Cons.prems have "r \<in> set xs \<Longrightarrow> \<not> P r" for r
      by (auto simp: pool_unique_def pool_conflict_sym)
    with True Cons.prems show ?thesis by (simp add: filter_empty_conv)
  next
    case False
    with Cons.prems have "q \<in> set xs" "\<not> P x" by (auto simp: pool_unique_def)
    with Cons show ?thesis by (simp add: pool_unique_def)
  qed
qed simp

definition free_for :: "string \<Rightarrow> string \<Rightarrow> string \<Rightarrow> PoolAddressRow \<Rightarrow> bool" where
  "free_for t m c r \<longleftrightarrow> pa_tenant r = t \<and> pa_merchant r = m \<and> pa_chain r = c \<and> pa_state r = Available"

definition claimed :: "string \<Rightarrow> PoolAddressRow \<Rightarrow> PoolAddressRow" where
  "claimed i r = r\<lparr>pa_state := Reserved, pa_invoiceId := Some i\<rparr>"

definition replace_row :: "PoolAddressRow \<Rightarrow> PoolAddressRow \<Rightarrow> pool_table \<Rightarrow> pool_table" where
  "replace_row q q' tbl = map (\<lambda>r. if r = q then q' else r) tbl"

lemma same_identity_updates [simp]:
  "same_identity r (claimed i r)" "same_identity r (freed r)" "same_identity r (patch_row st ch r)"
  by (auto simp: same_identity_def claimed_def freed_def patch_row_def Let_def split: option.splits)

locale pool_store =
  fixes st :: "'s PoolStore" and rows :: "'s \<Rightarrow> pool_table"
  assumes claim_none:
      "\<lbrakk>pool_unique (rows s); po_claimAvailable st t m c i s = (Inr None, s')\<rbrakk> \<Longrightarrow>
        s' = s \<and> (\<forall>q \<in> set (rows s). \<not> free_for t m c q)"
    and claim_some:
      "\<lbrakk>pool_unique (rows s); po_claimAvailable st t m c i s = (Inr (Some r), s')\<rbrakk> \<Longrightarrow>
        \<exists>q \<in> set (rows s). free_for t m c q \<and> r = claimed i q \<and> rows s' = replace_row q r (rows s)
          \<and> (\<forall>q' \<in> set (rows s). free_for t m c q' \<longrightarrow> pa_derivationIndex q \<le> pa_derivationIndex q')"
    and claim_total: "\<exists>r s'. po_claimAvailable st t m c i s = (Inr r, s')"
    and next_index: "q \<in> set (rows s) \<Longrightarrow> pa_chain q = c \<Longrightarrow> pa_derivationIndex q < po_nextIndex st t m c s"
    and insert_fresh:
      "\<not> list_ex (pool_conflict (reserved_row u n)) (rows s) \<Longrightarrow>
        \<exists>s'. po_insertReserved st u n s = (Inr (reserved_row u n), s') \<and> rows s' = rows s @ [reserved_row u n]"
    and insert_conflict:
      "list_ex (pool_conflict (reserved_row u n)) (rows s) \<Longrightarrow> \<exists>e. po_insertReserved st u n s = (Inl e, s)"
    and find_iff:
      "pool_unique (rows s) \<Longrightarrow> po_findByAddress st c a s = Some q \<longleftrightarrow>
        q \<in> set (rows s) \<and> pa_chain q = c \<and> pa_address q = a"
    and set_state_some:
      "\<lbrakk>pool_unique (rows s); q \<in> set (rows s)\<rbrakk> \<Longrightarrow>
        \<exists>s'. po_setState st (pa_chain q) (pa_address q) (pa_state q) to_state ch s =
          (Inr (Some (patch_row to_state ch q)), s') \<and> rows s' = replace_row q (patch_row to_state ch q) (rows s)"

section \<open>The Postgres store meets the contract\<close>

lemma set_claim_candidates:
  "set (claim_candidates t m c tbl) = {q \<in> set tbl. free_for t m c q}"
  by (auto simp: claim_candidates_def free_for_def)

lemma map_if_unique:
  assumes "pool_unique tbl" "q \<in> set tbl" "P q" "\<And>r. r \<in> set tbl \<Longrightarrow> P r \<Longrightarrow> pool_conflict r q"
  shows "map (\<lambda>r. if P r then f r else r) tbl = replace_row q (f q) tbl"
  unfolding replace_row_def
proof (rule map_cong [OF refl])
  fix r assume "r \<in> set tbl"
  with assms pool_unique_eq [OF assms(1) \<open>r \<in> set tbl\<close> assms(2)] show "(if P r then f r else r) = (if r = q then f q else r)"
    by auto
qed

lemma claimAvailable_cases:
  assumes "pool_unique tbl"
  shows "(claimAvailable t m c i tbl = (Inr None, tbl) \<and> (\<forall>q \<in> set tbl. \<not> free_for t m c q))
    \<or> (\<exists>q \<in> set tbl. free_for t m c q \<and> claimAvailable t m c i tbl = (Inr (Some (claimed i q)), replace_row q (claimed i q) tbl)
        \<and> (\<forall>q' \<in> set tbl. free_for t m c q' \<longrightarrow> pa_derivationIndex q \<le> pa_derivationIndex q'))"
proof (cases "claim_candidates t m c tbl")
  case Nil
  then show ?thesis
    using set_claim_candidates [of t m c tbl] by (auto simp: claimAvailable_def claimLowestAvailable_def)
next
  case (Cons q qs)
  then have q: "q \<in> set tbl" "free_for t m c q" using set_claim_candidates [of t m c tbl] by auto
  have conf: "r \<in> set tbl \<Longrightarrow> pa_id r = pa_id q \<Longrightarrow> pool_conflict r q" for r by (simp add: pool_conflict_def)
  have "sorted (map pa_derivationIndex (claim_candidates t m c tbl))" by (simp add: claim_candidates_def)
  with Cons have "sorted (map pa_derivationIndex (q # qs))" by simp
  then have low: "\<forall>q' \<in> set tbl. free_for t m c q' \<longrightarrow> pa_derivationIndex q \<le> pa_derivationIndex q'"
    using Cons set_claim_candidates [of t m c tbl] by auto
  have f: "filter (\<lambda>r. pa_id r = pa_id q) tbl = [q]"
    by (rule filter_unique [OF assms q(1) refl conf])
  have r: "map (\<lambda>r. if pa_id r = pa_id q then claimed i r else r) tbl = replace_row q (claimed i q) tbl"
    by (rule map_if_unique [OF assms q(1) refl conf])
  from f Cons r [unfolded claimed_def]
  have "claimAvailable t m c i tbl = (Inr (Some (claimed i q)), replace_row q (claimed i q) tbl)"
    by (simp add: claimAvailable_def claimLowestAvailable_def claimed_def Let_def)
  with q low show ?thesis by blast
qed

lemma fold_max_ge: "fold max xs x \<ge> x \<and> (\<forall>y \<in> set xs. y \<le> fold max xs x)" for x :: int
proof (induction xs arbitrary: x)
  case (Cons y ys)
  from Cons.IH [of "max y x"] show ?case by auto
qed simp

lemma nextDerivationIndex_above:
  "q \<in> set tbl \<Longrightarrow> pa_chain q = c \<Longrightarrow> pa_derivationIndex q < nextDerivationIndex c tbl"
proof -
  assume "q \<in> set tbl" "pa_chain q = c"
  then have "pa_derivationIndex q \<in> set (map pa_derivationIndex (filter (\<lambda>r. pa_chain r = c) tbl))" by auto
  then obtain i js where l: "map pa_derivationIndex (filter (\<lambda>r. pa_chain r = c) tbl) = i # js"
    and q: "pa_derivationIndex q \<in> set (i # js)"
    by (cases "map pa_derivationIndex (filter (\<lambda>r. pa_chain r = c) tbl)") simp_all
  from q fold_max_ge [of i js] show ?thesis unfolding nextDerivationIndex_def l by auto
qed

lemma findByAddress_iff:
  assumes "pool_unique tbl"
  shows "findByAddress c a tbl = Some q \<longleftrightarrow> q \<in> set tbl \<and> pa_chain q = c \<and> pa_address q = a"
proof
  assume "findByAddress c a tbl = Some q"
  then show "q \<in> set tbl \<and> pa_chain q = c \<and> pa_address q = a"
    by (auto simp: findByAddress_def find_Some_iff)
next
  assume q: "q \<in> set tbl \<and> pa_chain q = c \<and> pa_address q = a"
  then obtain r where r: "findByAddress c a tbl = Some r" by (cases "findByAddress c a tbl")
    (auto simp: findByAddress_def find_None_iff)
  then have "r \<in> set tbl" "pool_conflict r q"
    using q by (auto simp: findByAddress_def find_Some_iff pool_conflict_def)
  with pool_unique_eq [OF assms] q r show "findByAddress c a tbl = Some q" by blast
qed

lemma setState_hit:
  assumes "pool_unique tbl" "q \<in> set tbl"
  shows "setState (pa_chain q) (pa_address q) (pa_state q) to_state ch tbl =
    (Inr (Some (patch_row to_state ch q)), replace_row q (patch_row to_state ch q) tbl)"
proof -
  let ?P = "\<lambda>r. pa_chain r = pa_chain q \<and> pa_address r = pa_address q \<and> pa_state r = pa_state q"
  have conf: "r \<in> set tbl \<Longrightarrow> ?P r \<Longrightarrow> pool_conflict r q" for r by (simp add: pool_conflict_def)
  have "filter ?P tbl = [q]" by (rule filter_unique [OF assms _ conf]) simp_all
  moreover have "map (\<lambda>r. if ?P r then patch_row to_state ch r else r) tbl = replace_row q (patch_row to_state ch q) tbl"
    by (rule map_if_unique [OF assms _ conf]) simp_all
  ultimately show ?thesis by (simp add: setState_def transition_def)
qed

interpretation sqlpool: pool_store SqlPoolStore "\<lambda>tbl. tbl"
proof (unfold_locales, goal_cases)
  case (1 s t m c i s')
  then show ?case using claimAvailable_cases [OF 1(1), of t m c i] by (auto simp: SqlPoolStore_def)
next
  case (2 s t m c i r s')
  then show ?case using claimAvailable_cases [OF 2(1), of t m c i] by (auto simp: SqlPoolStore_def)
next
  case (3 t m c i s)
  then show ?case by (simp add: SqlPoolStore_def claimAvailable_def split: prod.splits)
qed (auto simp: SqlPoolStore_def pool_nextIndex_def nextDerivationIndex_above insertReserved_def
    findByAddress_iff setState_hit Let_def)

section \<open>What the contract gives PoolManager\<close>

lemma replace_row_unique:
  "pool_unique tbl \<Longrightarrow> same_identity q q' \<Longrightarrow> pool_unique (replace_row q q' tbl)"
  unfolding replace_row_def by (rule pool_unique_map) auto

lemma set_replace_row: "q \<in> set tbl \<Longrightarrow> set (replace_row q q' tbl) = insert q' (set tbl - {q})"
  by (auto simp: replace_row_def)

context pool_store
begin

lemma assign_cases:
  assumes U: "pool_unique (rows s)" and run: "assign st cfg u t m c i x s = (r, s')"
  shows "(\<exists>p \<in> set (rows s). free_for t m c p \<and> r = Inr (pa_address p)
      \<and> rows s' = replace_row p (claimed i p) (rows s)
      \<and> (\<forall>q \<in> set (rows s). free_for t m c q \<longrightarrow> pa_derivationIndex p \<le> pa_derivationIndex q))
    \<or> (\<forall>q \<in> set (rows s). \<not> free_for t m c q) \<and>
      ((\<exists>e. r = Inl e) \<and> s' = s \<or>
       (\<exists>q. \<not> list_ex (pool_conflict q) (rows s) \<and> rows s' = rows s @ [q] \<and> r = Inr (pa_address q)
          \<and> pa_tenant q = t \<and> pa_merchant q = m \<and> pa_chain q = c \<and> pa_state q = Reserved
          \<and> pa_invoiceId q = Some i \<and> pa_cooldownUntil q = None))"
proof -
  obtain cl s1 where cl: "po_claimAvailable st t m c i s = (Inr cl, s1)" using claim_total by blast
  show ?thesis
  proof (cases cl)
    case (Some q)
    with cl run have "r = Inr (pa_address q)" "s' = s1" by (auto simp: assign_def bind_def ret_def)
    with claim_some [OF U cl [unfolded Some]] show ?thesis
      by (auto simp: claimed_def)
  next
    case None
    note n = claim_none [OF U cl [unfolded None]]
    then have s1: "s1 = s" by simp
    let ?ix = "po_nextIndex st t m c s"
    show ?thesis
    proof (cases "resolveStrategy cfg c t")
      case (Inl e)
      with cl None run s1 n show ?thesis by (auto simp: assign_def bind_def lift_def reads_def)
    next
      case (Inr g)
      show ?thesis
      proof (cases "pc_derive cfg c x ?ix")
        case (Inl e)
        with cl None run s1 Inr have "r = Inl e" "s' = s"
          by (auto simp: assign_def bind_def lift_def reads_def)
        with n show ?thesis by simp
      next
        case (Inr a)
        let ?n = "\<lparr>np_tenant = t, np_merchant = m, np_chain = c, np_derivationIndex = ?ix,
          np_address = a, np_invoiceId = i, np_gatherStrategy = g\<rparr>"
        from cl None run s1 Inr \<open>resolveStrategy cfg c t = Inr g\<close>
        have ins: "bind (po_insertReserved st u ?n) (\<lambda>row. ret (pa_address row)) s = (r, s')"
          by (simp add: assign_def bind_def lift_def reads_def)
        show ?thesis
        proof (cases "list_ex (pool_conflict (reserved_row u ?n)) (rows s)")
          case True
          from insert_conflict [OF True] ins n show ?thesis by (auto simp: bind_def)
        next
          case False
          from insert_fresh [OF False] ins have "rows s' = rows s @ [reserved_row u ?n]" "r = Inr a"
            by (auto simp: bind_def ret_def reserved_row_def)
          with n False show ?thesis by (auto simp: reserved_row_def)
        qed
      qed
    qed
  qed
qed

lemma assign_exclusive:
  assumes U: "pool_unique (rows s)" and run: "assign st cfg u t m c i x s = (Inr a, s')"
  shows "pool_unique (rows s') \<and> pool_resolve st c a s = None \<and> pool_resolve st c a s' = Some (t, m)
    \<and> (\<exists>q \<in> set (rows s'). pa_chain q = c \<and> pa_address q = a \<and> pa_state q = Reserved \<and> pa_invoiceId q = Some i)
    \<and> (\<forall>q. \<not> (pa_chain q = c \<and> pa_address q = a) \<longrightarrow> q \<in> set (rows s') \<longleftrightarrow> q \<in> set (rows s))"
  using assign_cases [OF U run]
proof (elim disjE conjE bexE exE)
  fix p assume p: "p \<in> set (rows s)" "free_for t m c p" "Inr a = Inr (pa_address p)"
    and r: "rows s' = replace_row p (claimed i p) (rows s)"
  have U': "pool_unique (rows s')" unfolding r by (rule replace_row_unique [OF U]) simp
  have f: "po_findByAddress st c a s = Some p" using find_iff [OF U] p by (simp add: free_for_def)
  have f': "po_findByAddress st c a s' = Some (claimed i p)"
    using find_iff [OF U'] p by (simp add: r set_replace_row free_for_def claimed_def)
  show ?thesis
    using U' f f' p by (auto simp: pool_resolve_def free_for_def r set_replace_row claimed_def)
next
  fix q assume q: "\<not> list_ex (pool_conflict q) (rows s)" "rows s' = rows s @ [q]" "Inr a = Inr (pa_address q)"
    "pa_tenant q = t" "pa_merchant q = m" "pa_chain q = c" "pa_state q = Reserved" "pa_invoiceId q = Some i"
  have U': "pool_unique (rows s')" unfolding q(2) using U q(1) by (simp add: pool_unique_snoc)
  have none: "po_findByAddress st c a s = None"
  proof (cases "po_findByAddress st c a s")
    case (Some p)
    with find_iff [OF U, of c a p] q show ?thesis by (auto simp: list_ex_iff pool_conflict_def)
  qed simp
  have "po_findByAddress st c a s' = Some q" using find_iff [OF U'] q by simp
  with U' none q show ?thesis by (auto simp: pool_resolve_def)
qed simp_all

lemma assign_succeeds:
  assumes U: "pool_unique (rows s)" and d: "\<And>n. \<exists>b. pc_derive cfg c x n = Inr b"
    and inj: "\<And>n k b. pc_derive cfg c x n = Inr b \<Longrightarrow> pc_derive cfg c x k = Inr b \<Longrightarrow> n = k"
    and rows: "\<And>q. q \<in> set (rows s) \<Longrightarrow> pa_chain q = c \<Longrightarrow> pc_derive cfg c x (pa_derivationIndex q) = Inr (pa_address q)"
    and u: "\<And>q. q \<in> set (rows s) \<Longrightarrow> pa_id q \<noteq> u"
    and strat: "resolveStrategy cfg c t = Inr g"
  shows "\<exists>a s'. assign st cfg u t m c i x s = (Inr a, s')"
proof -
  obtain cl s1 where cl: "po_claimAvailable st t m c i s = (Inr cl, s1)" using claim_total by blast
  show ?thesis
  proof (cases cl)
    case (Some q)
    with cl show ?thesis by (simp add: assign_def bind_def ret_def)
  next
    case None
    with claim_none [OF U] cl have s1: "s1 = s" by simp
    let ?ix = "po_nextIndex st t m c s"
    from d obtain a where a: "pc_derive cfg c x ?ix = Inr a" by blast
    let ?n = "\<lparr>np_tenant = t, np_merchant = m, np_chain = c, np_derivationIndex = ?ix,
      np_address = a, np_invoiceId = i, np_gatherStrategy = g\<rparr>"
    have "\<not> pool_conflict (reserved_row u ?n) q" if q: "q \<in> set (rows s)" for q
      using next_index [OF q, of c t m] rows [OF q] u [OF q] inj [OF a, of "pa_derivationIndex q"]
      by (auto simp: pool_conflict_def reserved_row_def)
    then have "\<not> list_ex (pool_conflict (reserved_row u ?n)) (rows s)" by (auto simp: list_ex_iff)
    from insert_fresh [OF this] show ?thesis
      using cl None s1 a strat by (auto simp: assign_def bind_def lift_def reads_def ret_def)
  qed
qed

lemma pool_apply_cases:
  assumes U: "pool_unique (rows s)"
  shows "case po_findByAddress st c a s of
     None \<Rightarrow> \<exists>e. pool_apply st c a act ch s = (Inl e, s) \<and> err_code e = Some POOL_ADDRESS_NOT_FOUND
   | Some q \<Rightarrow> (case nextPoolState (pa_state q) act of
       Inl e \<Rightarrow> pool_apply st c a act ch s = (Inl e, s)
     | Inr to_state \<Rightarrow> \<exists>s'. pool_apply st c a act ch s = (Inr (patch_row to_state ch q), s')
         \<and> rows s' = replace_row q (patch_row to_state ch q) (rows s))"
proof (cases "po_findByAddress st c a s")
  case None
  then show ?thesis by (simp add: pool_apply_def effect_simps)
next
  case (Some q)
  then have q: "q \<in> set (rows s)" "pa_chain q = c" "pa_address q = a" using find_iff [OF U] by auto
  show ?thesis
  proof (cases "nextPoolState (pa_state q) act")
    case (Inl e)
    with Some show ?thesis by (simp add: pool_apply_def effect_simps)
  next
    case (Inr to_state)
    with Some set_state_some [OF U q(1), of to_state ch] q(2,3) show ?thesis
      by (auto simp: pool_apply_def bind_def reads_def lift_def ret_def)
  qed
qed

end

section \<open>Interleaved requests\<close>

text \<open>
  One step is one query. A transition step may carry a stale \<open>from\<close> state, read by a request
  before other requests ran; \<open>change_for\<close> is the patch each \<open>PoolManager\<close> method passes.
\<close>

fun change_for :: "PoolAction \<Rightarrow> StateChange \<Rightarrow> bool" where
  "change_for reserve_action ch \<longleftrightarrow> False"
| "change_for detect_action ch \<longleftrightarrow> ch = no_change"
| "change_for cool_action ch \<longleftrightarrow> sc_invoiceId ch = None \<and> (\<exists>d. sc_cooldownUntil ch = Some (Some d))"
| "change_for release_action ch \<longleftrightarrow> ch = \<lparr>sc_invoiceId = Some None, sc_cooldownUntil = Some None\<rparr>"

inductive pool_step :: "pool_table \<Rightarrow> pool_table \<Rightarrow> bool" where
  claim_step: "claimAvailable t m c i tbl = (r, tbl') \<Longrightarrow> pool_step tbl tbl'"
| insert_step: "insertReserved u n tbl = (r', tbl') \<Longrightarrow> pool_step tbl tbl'"
| transition_step: "nextPoolState from_state act = Inr to_state \<Longrightarrow> change_for act ch \<Longrightarrow>
    setState c a from_state to_state ch tbl = (r, tbl') \<Longrightarrow> pool_step tbl tbl'"
| cooled_step: "releaseCooled now tbl = (k, tbl') \<Longrightarrow> pool_step tbl tbl'"

inductive_cases pool_stepE: "pool_step tbl tbl'"

definition row_ok :: "PoolAddressRow \<Rightarrow> bool" where
  "row_ok r \<longleftrightarrow> (pa_state r = Available \<longleftrightarrow> pa_invoiceId r = None)
     \<and> (pa_state r = Cooling \<longleftrightarrow> pa_cooldownUntil r \<noteq> None)"

definition pool_inv :: "pool_table \<Rightarrow> bool" where
  "pool_inv tbl \<longleftrightarrow> pool_unique tbl \<and> (\<forall>r \<in> set tbl. row_ok r)"

text \<open>A row that is held keeps its invoice until it is freed.\<close>

definition keeps_hold :: "PoolAddressRow \<Rightarrow> PoolAddressRow \<Rightarrow> bool" where
  "keeps_hold r r' \<longleftrightarrow> same_identity r r' \<and>
     (pa_state r = Available \<or> pa_state r' = Available \<or> pa_invoiceId r' = pa_invoiceId r)"

lemma keeps_hold_refl [simp]: "keeps_hold r r"
  by (simp add: keeps_hold_def)

lemma patch_row_ok:
  assumes "nextPoolState (pa_state r) act = Inr to_state" "change_for act ch" "row_ok r"
  shows "row_ok (patch_row to_state ch r) \<and> keeps_hold r (patch_row to_state ch r)"
  using assms
  by (cases act) (auto simp: nextPoolState_def row_ok_def keeps_hold_def patch_row_def no_change_def Let_def
      same_identity_def split: if_splits option.splits)

lemma step_shape:
  assumes inv: "pool_inv tbl" and step: "pool_step tbl tbl'"
  shows "(\<exists>f. tbl' = map f tbl \<and> (\<forall>r \<in> set tbl. row_ok (f r) \<and> keeps_hold r (f r)) \<and> (\<forall>r. same_identity r (f r)))
    \<or> (\<exists>r. tbl' = tbl @ [r] \<and> row_ok r \<and> \<not> list_ex (pool_conflict r) tbl)"
  using step
proof (cases rule: pool_step.cases)
  case claim: (claim_step t m c i r)
  from inv have U: "pool_unique tbl" and ok: "\<forall>r \<in> set tbl. row_ok r" by (auto simp: pool_inv_def)
  from claimAvailable_cases [OF U, of t m c i] claim ok
  consider "tbl' = tbl" | q where "q \<in> set tbl" "free_for t m c q" "tbl' = replace_row q (claimed i q) tbl"
    by auto
  then show ?thesis
  proof cases
    case 1
    with ok show ?thesis by (intro disjI1 exI [of _ "\<lambda>r. r"]) simp
  next
    case 2
    with ok show ?thesis
      by (intro disjI1 exI [of _ "\<lambda>r. if r = q then claimed i q else r"])
        (auto simp: replace_row_def row_ok_def keeps_hold_def free_for_def claimed_def same_identity_def)
  qed
next
  case (insert_step u n r')
  with inv show ?thesis
    by (cases "list_ex (pool_conflict (reserved_row u n)) tbl")
      (auto simp: insertReserved_def Let_def pool_inv_def reserved_row_def row_ok_def
        intro!: exI [of _ "\<lambda>r. r"])
next
  case (transition_step from_state act to_state ch c a r)
  with inv patch_row_ok [OF _ transition_step(2)] show ?thesis
    by (intro disjI1 exI [of _ "\<lambda>r. if pa_chain r = c \<and> pa_address r = a \<and> pa_state r = from_state
        then patch_row to_state ch r else r"])
      (auto simp: setState_def transition_def Let_def pool_inv_def)
next
  case (cooled_step now k)
  with inv show ?thesis
    by (intro disjI1 exI [of _ "\<lambda>r. if cooled now r then freed r else r"])
      (auto simp: releaseCooled_def pool_inv_def freed_def row_ok_def keeps_hold_def same_identity_def)
qed

lemma pool_inv_step: "pool_inv tbl \<Longrightarrow> pool_step tbl tbl' \<Longrightarrow> pool_inv tbl'"
  using step_shape [of tbl tbl'] pool_unique_map [of tbl]
  by (auto simp: pool_inv_def pool_unique_snoc)

lemma pool_inv_steps: "pool_step\<^sup>*\<^sup>* tbl tbl' \<Longrightarrow> pool_inv tbl \<Longrightarrow> pool_inv tbl'"
  by (induction rule: rtranclp_induct) (auto intro: pool_inv_step)

lemma pool_inv_Nil [simp]: "pool_inv []"
  by (simp add: pool_inv_def pool_unique_def)

lemma pool_reach_unique: "pool_step\<^sup>*\<^sup>* [] tbl \<Longrightarrow> pool_unique tbl"
  using pool_inv_steps [OF _ pool_inv_Nil] by (simp add: pool_inv_def)

lemma step_keeps_row:
  assumes "pool_inv tbl" "pool_step tbl tbl'" "r \<in> set tbl"
  shows "\<exists>r' \<in> set tbl'. keeps_hold r r'"
  using step_shape [OF assms(1,2)]
proof (elim disjE exE conjE)
  fix q assume "tbl' = tbl @ [q]"
  with assms(3) show ?thesis by (intro bexI [of _ r]) simp_all
qed (use assms(3) in auto)

lemma steps_keep_identity:
  assumes "pool_step\<^sup>*\<^sup>* tbl tbl'" "pool_inv tbl" "r \<in> set tbl"
  shows "\<exists>r' \<in> set tbl'. same_identity r r'"
  using assms
proof (induction rule: rtranclp_induct)
  case base
  then show ?case by (intro bexI [of _ r]) simp_all
next
  case (step y z)
  then obtain r1 where "r1 \<in> set y" "same_identity r r1" by blast
  moreover obtain r2 where "r2 \<in> set z" "keeps_hold r1 r2"
    using step_keeps_row [OF pool_inv_steps [OF step.hyps(1) step.prems(1)] step.hyps(2) \<open>r1 \<in> set y\<close>] by blast
  ultimately show ?case by (auto simp: keeps_hold_def same_identity_def)
qed

text \<open>Every method of \<open>PoolManager\<close> is a sequence of steps.\<close>

lemma assign_steps: "assign SqlPoolStore cfg u t m c i x tbl = (r, tbl') \<Longrightarrow> pool_step\<^sup>*\<^sup>* tbl tbl'"
proof -
  assume run: "assign SqlPoolStore cfg u t m c i x tbl = (r, tbl')"
  obtain cl tbl1 where cl: "claimAvailable t m c i tbl = (Inr cl, tbl1)"
    using sqlpool.claim_total [of t m c i tbl] by (auto simp: SqlPoolStore_def)
  have s1: "pool_step\<^sup>*\<^sup>* tbl tbl1" using pool_step.claim_step [OF cl] by blast
  have ins: "pool_step\<^sup>*\<^sup>* tbl1 (snd (insertReserved u n tbl1))" for n
    using pool_step.insert_step [of u n tbl1 "fst (insertReserved u n tbl1)"] by auto
  have "tbl' = tbl1 \<or> (\<exists>n. tbl' = snd (insertReserved u n tbl1))"
    using run cl
    by (auto simp: assign_def SqlPoolStore_def bind_def ret_def reads_def lift_def
        split: option.splits sum.splits prod.splits) (metis snd_conv)+
  with s1 ins show ?thesis by (metis rtranclp_trans)
qed

lemma pool_apply_steps:
  assumes "change_for act ch" "pool_apply SqlPoolStore c a act ch tbl = (r, tbl')"
  shows "pool_step\<^sup>*\<^sup>* tbl tbl'"
proof (cases "findByAddress c a tbl")
  case None
  with assms show ?thesis by (simp add: pool_apply_def SqlPoolStore_def effect_simps)
next
  case (Some q)
  show ?thesis
  proof (cases "nextPoolState (pa_state q) act")
    case (Inl e)
    with assms Some show ?thesis by (simp add: pool_apply_def SqlPoolStore_def effect_simps)
  next
    case (Inr to_state)
    have "tbl' = snd (setState c a (pa_state q) to_state ch tbl)"
      using assms Some Inr
      by (auto simp: pool_apply_def SqlPoolStore_def bind_def ret_def reads_def lift_def throw_def setState_def
          split: option.splits prod.splits list.splits)
    then show ?thesis
      using pool_step.transition_step [OF Inr assms(1), of c a tbl "fst (setState c a (pa_state q) to_state ch tbl)"]
      by (metis prod.collapse r_into_rtranclp)
  qed
qed

section \<open>Properties of the pool\<close>

definition ex_pool_cfg :: "pool_table pool_config" where
  "ex_pool_cfg = \<lparr>pc_derive = (\<lambda>c x n. Inr (x @ show_int n)), pc_cooldownMs = 60, pc_activeStrategy = None\<rparr>"

definition ex_pool :: pool_table where
  "ex_pool = snd (assign SqlPoolStore ex_pool_cfg ''u0'' ''t'' ''m'' ''TRON'' ''inv0'' ''T'' [])"

lemma ex_pool_eq:
  "ex_pool = [\<lparr>pa_id = ''u0'', pa_tenant = ''t'', pa_merchant = ''m'', pa_chain = ''TRON'', pa_derivationIndex = 0,
     pa_address = ''T0'', pa_state = Reserved, pa_invoiceId = Some ''inv0'', pa_cooldownUntil = None,
     pa_gatherStrategy = EOA_FUND_TRANSFER\<rparr>]"
  by code_simp

lemma ex_pool_reach: "pool_step\<^sup>*\<^sup>* [] ex_pool"
  unfolding ex_pool_def by (rule assign_steps [OF surjective_pairing])

lemma ex_pool_inv: "pool_inv ex_pool"
  by (rule pool_inv_steps [OF ex_pool_reach]) simp

text \<open>C33. Under any interleaving of pool queries from an empty table: no two rows share an id,
  a chain and address, or an owner, chain and derivation index; a row is without an invoice
  exactly when it is available, and carries a cool-down deadline exactly when cooling.\<close>

theorem pool_invariant:
  assumes "pool_step\<^sup>*\<^sup>* [] tbl" and "i < length tbl" and "j < i"
  shows "\<not> pool_conflict (tbl ! j) (tbl ! i)
    \<and> (pa_state (tbl ! i) = Available \<longleftrightarrow> pa_invoiceId (tbl ! i) = None)
    \<and> (pa_state (tbl ! i) = Cooling \<longleftrightarrow> pa_cooldownUntil (tbl ! i) \<noteq> None)"
proof -
  have "pool_inv tbl" by (rule pool_inv_steps [OF assms(1)]) simp
  then show ?thesis
    using assms(2,3) nth_mem [of i tbl] unfolding pool_inv_def pool_unique_def row_ok_def
    by (simp add: sorted_wrt_iff_nth_less)
qed

theorem pool_invariant_witness:
  "\<exists>tbl. pool_step\<^sup>*\<^sup>* [] tbl \<and> length tbl = 2 \<and> \<not> pool_conflict (tbl ! 0) (tbl ! 1)"
proof -
  let ?t = "snd (assign SqlPoolStore ex_pool_cfg ''u1'' ''t'' ''m'' ''TRON'' ''inv1'' ''T'' ex_pool)"
  have r: "pool_step\<^sup>*\<^sup>* [] ?t"
    by (rule rtranclp_trans [OF ex_pool_reach assign_steps [OF surjective_pairing]])
  have l: "length ?t = 2" by code_simp
  with pool_invariant [OF r, of 1 0] r show ?thesis by (intro exI [of _ ?t]) simp
qed

text \<open>An address is never attributed to two owners: once a deposit address resolves to a
  tenant and merchant, then after any further interleaved steps it resolves to the same
  pair or, while the address is free, to nobody.\<close>

theorem pool_owner_stable:
  assumes "pool_step\<^sup>*\<^sup>* [] tbl" and "pool_step\<^sup>*\<^sup>* tbl tbl'"
    and "pool_resolve SqlPoolStore c a tbl = Some owner"
  shows "pool_resolve SqlPoolStore c a tbl' \<in> {None, Some owner}"
proof -
  have inv: "pool_inv tbl" by (rule pool_inv_steps [OF assms(1)]) simp
  then have inv': "pool_inv tbl'" by (rule pool_inv_steps [OF assms(2)])
  from assms(3) inv obtain q where q: "q \<in> set tbl" "pa_chain q = c" "pa_address q = a"
    "owner = (pa_tenant q, pa_merchant q)"
    using findByAddress_iff [of tbl c a]
    by (auto simp: pool_resolve_def SqlPoolStore_def pool_inv_def split: option.splits if_splits)
  from steps_keep_identity [OF assms(2) inv q(1)] obtain r where "r \<in> set tbl'" "same_identity q r" by blast
  then have "findByAddress c a tbl' = Some r" and "owner = (pa_tenant r, pa_merchant r)"
    using findByAddress_iff [of tbl' c a r] inv' q by (auto simp: pool_inv_def same_identity_def)
  then show ?thesis by (simp add: pool_resolve_def SqlPoolStore_def)
qed

theorem pool_owner_stable_witness:
  "pool_resolve SqlPoolStore ''TRON'' ''T0'' ex_pool = Some (''t'', ''m'')
   \<and> pool_resolve SqlPoolStore ''TRON'' ''T0'' (snd (pool_release SqlPoolStore ''TRON'' ''T0'' ex_pool))
     \<in> {None, Some (''t'', ''m'')}"
proof
  show a: "pool_resolve SqlPoolStore ''TRON'' ''T0'' ex_pool = Some (''t'', ''m'')" by code_simp
  have "pool_step\<^sup>*\<^sup>* ex_pool (snd (pool_release SqlPoolStore ''TRON'' ''T0'' ex_pool))"
    unfolding pool_release_def by (rule pool_apply_steps [OF _ surjective_pairing]) simp
  from pool_owner_stable [OF ex_pool_reach this a]
  show "pool_resolve SqlPoolStore ''TRON'' ''T0'' (snd (pool_release SqlPoolStore ''TRON'' ''T0'' ex_pool))
     \<in> {None, Some (''t'', ''m'')}" .
qed

text \<open>C12. Assignment is exclusive: the address returned was not in use before, is now reserved
  for the given invoice and resolves to the given tenant and merchant, and no row of any
  other address changes.\<close>

theorem assign_is_exclusive:
  assumes "pool_step\<^sup>*\<^sup>* [] tbl" and "assign SqlPoolStore cfg u t m c i x tbl = (Inr a, tbl')"
  shows "pool_resolve SqlPoolStore c a tbl = None \<and> pool_resolve SqlPoolStore c a tbl' = Some (t, m)
    \<and> (\<exists>q \<in> set tbl'. pa_chain q = c \<and> pa_address q = a \<and> pa_state q = Reserved \<and> pa_invoiceId q = Some i)
    \<and> {q \<in> set tbl'. \<not> (pa_chain q = c \<and> pa_address q = a)} = {q \<in> set tbl. \<not> (pa_chain q = c \<and> pa_address q = a)}"
proof -
  have "pool_unique tbl" by (rule pool_reach_unique [OF assms(1)])
  from sqlpool.assign_exclusive [OF this assms(2)] show ?thesis by blast
qed

theorem assign_is_exclusive_witness:
  "pool_resolve SqlPoolStore ''TRON'' ''T1'' ex_pool = None
   \<and> pool_resolve SqlPoolStore ''TRON'' ''T1''
       (snd (assign SqlPoolStore ex_pool_cfg ''u1'' ''t'' ''m'' ''TRON'' ''inv1'' ''T'' ex_pool)) = Some (''t'', ''m'')"
proof -
  have "assign SqlPoolStore ex_pool_cfg ''u1'' ''t'' ''m'' ''TRON'' ''inv1'' ''T'' ex_pool =
    (Inr ''T1'', snd (assign SqlPoolStore ex_pool_cfg ''u1'' ''t'' ''m'' ''TRON'' ''inv1'' ''T'' ex_pool))"
    by code_simp
  from assign_is_exclusive [OF ex_pool_reach this] show ?thesis by blast
qed

text \<open>A held address keeps its invoice until it is freed: whatever single query any
  concurrent request runs next, the row is still there, with the same owner, and either
  still bears the same invoice or has become available.\<close>

theorem held_address_kept:
  assumes "pool_step\<^sup>*\<^sup>* [] tbl" and "pool_step tbl tbl'"
    and "findByAddress c a tbl = Some r" and "pa_state r \<noteq> Available"
  shows "\<exists>r'. findByAddress c a tbl' = Some r' \<and> pa_tenant r' = pa_tenant r \<and> pa_merchant r' = pa_merchant r
    \<and> (pa_state r' = Available \<or> pa_invoiceId r' = pa_invoiceId r)"
proof -
  have inv: "pool_inv tbl" by (rule pool_inv_steps [OF assms(1)]) simp
  have inv': "pool_inv tbl'" by (rule pool_inv_step [OF inv assms(2)])
  have r: "r \<in> set tbl" "pa_chain r = c" "pa_address r = a"
    using assms(3) findByAddress_iff inv by (auto simp: pool_inv_def)
  from step_keeps_row [OF inv assms(2) r(1)] obtain r' where "r' \<in> set tbl'" "keeps_hold r r'" by blast
  with assms(4) r show ?thesis
    using findByAddress_iff [of tbl' c a r'] inv' by (auto simp: pool_inv_def keeps_hold_def same_identity_def)
qed

theorem held_address_kept_witness:
  "\<exists>r'. findByAddress ''TRON'' ''T0'' (snd (claimAvailable ''t'' ''m'' ''TRON'' ''inv9'' ex_pool)) = Some r'
    \<and> pa_tenant r' = ''t''"
proof -
  have f: "findByAddress ''TRON'' ''T0'' ex_pool = Some (hd ex_pool)" by code_simp
  have "pa_state (hd ex_pool) \<noteq> Available" "pa_tenant (hd ex_pool) = ''t''" by (simp_all add: ex_pool_eq)
  with held_address_kept [OF ex_pool_reach pool_step.claim_step [OF surjective_pairing] f] show ?thesis
    by metis
qed

text \<open>Assignment always succeeds: when derivation is total and injective in the index, the
  rows of the chain were derived under the same key, and the drawn row id is fresh, a
  merchant with no free address gets a newly derived one.\<close>

theorem assign_always_succeeds:
  assumes "pool_step\<^sup>*\<^sup>* [] tbl" and "\<And>n. \<exists>b. pc_derive cfg c x n = Inr b"
    and "\<And>n k b. pc_derive cfg c x n = Inr b \<Longrightarrow> pc_derive cfg c x k = Inr b \<Longrightarrow> n = k"
    and "\<And>q. q \<in> set tbl \<Longrightarrow> pa_chain q = c \<Longrightarrow> pc_derive cfg c x (pa_derivationIndex q) = Inr (pa_address q)"
    and "\<And>q. q \<in> set tbl \<Longrightarrow> pa_id q \<noteq> u"
    and "resolveStrategy cfg c t = Inr g"
  shows "\<exists>a tbl'. assign SqlPoolStore cfg u t m c i x tbl = (Inr a, tbl')"
proof -
  have "pool_unique tbl" by (rule pool_reach_unique [OF assms(1)])
  then show ?thesis by (rule sqlpool.assign_succeeds) (fact assms)+
qed

theorem assign_always_succeeds_witness:
  "\<exists>a tbl'. assign SqlPoolStore ex_pool_cfg ''u1'' ''t'' ''m2'' ''TRON'' ''inv2'' ''T'' ex_pool = (Inr a, tbl')"
proof -
  have "show_int 0 = ''0''" by code_simp
  then show ?thesis
    by (intro assign_always_succeeds [OF ex_pool_reach, of _ _ _ _ _ EOA_FUND_TRANSFER])
      (auto simp: ex_pool_cfg_def show_int_inj ex_pool_eq resolveStrategy_def)
qed

text \<open>The cool-down is respected: an address in use that is cooled at time \<open>t\<close> is not freed
  by any release run before \<open>t + cooldownMs\<close>, and is freed, without an invoice, by one at
  or after it.\<close>

theorem cooldown_respected:
  assumes "pool_step\<^sup>*\<^sup>* [] tbl" and "findByAddress c a tbl = Some r" and "pa_state r = InUse"
    and "pool_cool SqlPoolStore cfg t c a tbl = (res, tbl1)" and "releaseCooled now tbl1 = (k, tbl2)"
  shows "res = Inr (r\<lparr>pa_state := Cooling, pa_cooldownUntil := Some (t + pc_cooldownMs cfg)\<rparr>)
    \<and> findByAddress c a tbl2 = Some (if t + pc_cooldownMs cfg \<le> now then freed r
         else r\<lparr>pa_state := Cooling, pa_cooldownUntil := Some (t + pc_cooldownMs cfg)\<rparr>)"
proof -
  let ?q = "r\<lparr>pa_state := Cooling, pa_cooldownUntil := Some (t + pc_cooldownMs cfg)\<rparr>"
  have U: "pool_unique tbl" by (rule pool_reach_unique [OF assms(1)])
  have r: "r \<in> set tbl" "pa_chain r = c" "pa_address r = a" using assms(2) findByAddress_iff [OF U] by auto
  have "res = Inr ?q" and t1: "tbl1 = replace_row r ?q tbl"
    using sqlpool.pool_apply_cases [OF U, of c a cool_action] assms(2-4)
    by (auto simp: pool_cool_def SqlPoolStore_def nextPoolState_def patch_row_def)
  have "same_identity r ?q" by (simp add: same_identity_def)
  then have U1: "pool_unique tbl1" unfolding t1 by (rule replace_row_unique [OF U])
  have t2: "tbl2 = map (\<lambda>x. if cooled now x then freed x else x) tbl1" using assms(5) by (simp add: releaseCooled_def)
  have "pool_unique tbl2" unfolding t2 by (rule pool_unique_map [OF U1]) simp
  moreover have "(if t + pc_cooldownMs cfg \<le> now then freed r else ?q) \<in> set tbl2"
    unfolding t2 set_map t1 set_replace_row [OF r(1)]
    by (rule image_eqI [of _ _ ?q]) (auto simp: cooled_def freed_def)
  ultimately show ?thesis
    using \<open>res = Inr ?q\<close> findByAddress_iff [of tbl2 c a] r(2,3) by (simp add: freed_def)
qed

theorem cooldown_respected_witness:
  "let tbl = snd (markInUse SqlPoolStore ''TRON'' ''T0'' ex_pool);
       tbl1 = snd (pool_cool SqlPoolStore ex_pool_cfg 100 ''TRON'' ''T0'' tbl)
   in map_option pa_state (findByAddress ''TRON'' ''T0'' (snd (releaseCooled 159 tbl1))) = Some Cooling"
proof -
  let ?t = "snd (markInUse SqlPoolStore ''TRON'' ''T0'' ex_pool)"
  let ?r = "(hd ex_pool)\<lparr>pa_state := InUse\<rparr>"
  have "pool_step\<^sup>*\<^sup>* ex_pool ?t"
    unfolding markInUse_def by (rule pool_apply_steps [OF _ surjective_pairing]) simp
  then have reach: "pool_step\<^sup>*\<^sup>* [] ?t" by (rule rtranclp_trans [OF ex_pool_reach])
  have f: "findByAddress ''TRON'' ''T0'' ?t = Some ?r" by code_simp
  from cooldown_respected [OF reach f _ surjective_pairing surjective_pairing, of ex_pool_cfg 100 159]
  show ?thesis by (simp add: ex_pool_cfg_def)
qed

end
