(* ===== verification/Gather.thy ===== *)
theory Gather
  imports Pool
begin

text \<open>
  Spending from the pool: leg selection (\<open>src/attribution/pool-gatherer.ts\<close>), the gather
  lease (\<open>gather-lease.ts\<close>, \<open>gatherLease\<close> of \<open>src/queries/infra.queries.ts\<close>), the strategy
  registry and configuration (\<open>gather-strategy.ts\<close>, \<open>gather-config.ts\<close>, \<open>gatherConfig\<close> of
  \<open>src/queries/ai.queries.ts\<close>), the EOA strategy (\<open>eoa-gather-strategy.ts\<close>) and the balance
  cache (\<open>balance-cache.ts\<close>, \<open>pool-address-balance.queries.ts\<close>).
\<close>

section \<open>Leg selection (pool-gatherer.ts)\<close>

record GatheredSource =
  gs_address :: string
  gs_derivationIndex :: int
  gs_gatherStrategy :: GatherStrategyKind

record GatheredLeg = GatheredSource +
  gl_amountBaseUnits :: int

record FundedSource = GatheredSource +
  fu_balance :: int

text \<open>The on-chain balance reader \<open>AddressBalance\<close>; it may throw.\<close>

type_synonym AddressBalance = "string \<Rightarrow> string \<Rightarrow> string \<Rightarrow> app_error + int"

definition source_of :: "PoolAddressRow \<Rightarrow> GatheredSource" where
  "source_of a = \<lparr>gs_address = pa_address a, gs_derivationIndex = pa_derivationIndex a,
     gs_gatherStrategy = pa_gatherStrategy a\<rparr>"

fun gatherSingle_loop ::
  "AddressBalance \<Rightarrow> string \<Rightarrow> string \<Rightarrow> int \<Rightarrow> PoolAddressRow list \<Rightarrow> app_error + GatheredSource option" where
  "gatherSingle_loop bal chain asset amt [] = Inr None"
| "gatherSingle_loop bal chain asset amt (a # as) =
     rbind (bal chain (pa_address a) asset) (\<lambda>b.
       if b \<ge> amt then Inr (Some (source_of a)) else gatherSingle_loop bal chain asset amt as)"

definition gatherSingle ::
  "'s PoolStore \<Rightarrow> AddressBalance \<Rightarrow> string \<Rightarrow> string \<Rightarrow> string \<Rightarrow> string \<Rightarrow> int \<Rightarrow> 's \<Rightarrow> app_error + GatheredSource" where
  "gatherSingle st bal tenant merchant chain asset amt s =
     rbind (gatherSingle_loop bal chain asset amt (po_addressesForMerchant st tenant merchant chain s)) (\<lambda>r.
       case r of
         Some src \<Rightarrow> Inr src
       | None \<Rightarrow> Inl (InsufficientPoolFundsError (''No single pool address holds '' @ show_int amt @ '' ''
           @ asset @ '' for '' @ merchant @ '' on '' @ chain)))"

fun funded_loop ::
  "AddressBalance \<Rightarrow> string \<Rightarrow> string \<Rightarrow> PoolAddressRow list \<Rightarrow> app_error + FundedSource list" where
  "funded_loop bal chain asset [] = Inr []"
| "funded_loop bal chain asset (a # as) =
     rbind (bal chain (pa_address a) asset) (\<lambda>b.
     rbind (funded_loop bal chain asset as) (\<lambda>fs.
       Inr (if b > 0 then
         \<lparr>gs_address = pa_address a, gs_derivationIndex = pa_derivationIndex a,
          gs_gatherStrategy = pa_gatherStrategy a, fu_balance = b\<rparr> # fs else fs)))"

fun legs_loop :: "int \<Rightarrow> FundedSource list \<Rightarrow> GatheredLeg list \<times> int" where
  "legs_loop remaining [] = ([], remaining)"
| "legs_loop remaining (f # fs) =
     (if remaining \<le> 0 then ([], remaining)
      else let tk = (if fu_balance f < remaining then fu_balance f else remaining)
        in case legs_loop (remaining - tk) fs of (legs, rest) \<Rightarrow>
          (\<lparr>gs_address = gs_address f, gs_derivationIndex = gs_derivationIndex f,
            gs_gatherStrategy = gs_gatherStrategy f, gl_amountBaseUnits = tk\<rparr> # legs, rest))"

definition funded_sort :: "FundedSource list \<Rightarrow> FundedSource list" where
  "funded_sort fs = sort_key (\<lambda>f. - fu_balance f) fs"

definition gather ::
  "'s PoolStore \<Rightarrow> AddressBalance \<Rightarrow> string \<Rightarrow> string \<Rightarrow> string \<Rightarrow> string \<Rightarrow> int \<Rightarrow> 's \<Rightarrow> app_error + GatheredLeg list" where
  "gather st bal tenant merchant chain asset amt s =
     (if amt \<le> 0
      then Inl (InsufficientPoolFundsError (''Gather amount must be positive, got '' @ show_int amt))
      else rbind (funded_loop bal chain asset (po_addressesForMerchant st tenant merchant chain s)) (\<lambda>fs.
        let funded = funded_sort fs in
        case legs_loop amt funded of (legs, remaining) \<Rightarrow>
          if remaining > 0
          then Inl (InsufficientPoolFundsError (''Merchant '' @ merchant @ '' holds ''
            @ show_int (sum_list (map fu_balance funded)) @ '' '' @ asset @ '' on '' @ chain
            @ '', needs '' @ show_int amt))
          else Inr legs))"

section \<open>The gather lease (gather-lease.ts)\<close>

definition DEFAULT_TTL_MS :: int where
  "DEFAULT_TTL_MS = 120000"

record lease_row =
  lr_holder :: string
  lr_acquired_at :: int
  lr_expires_at :: int

text \<open>The table \<open>pool_gather_lease\<close>, by its primary key.\<close>

type_synonym lease_table = "(string, lease_row) jsmap"

definition lease_key :: "string \<Rightarrow> string \<Rightarrow> string \<Rightarrow> string" where
  "lease_key tenant merchant chain = tenant @ '':'' @ merchant @ '':'' @ toUpperCase chain"

definition lease_acquire_row :: "string \<Rightarrow> string \<Rightarrow> int \<Rightarrow> int \<Rightarrow> lease_table \<Rightarrow> string list \<times> lease_table" where
  "lease_acquire_row key holder now expires tbl =
     (let row = \<lparr>lr_holder = holder, lr_acquired_at = now, lr_expires_at = expires\<rparr> in
      case map_of tbl key of
        None \<Rightarrow> ([key], AList.update key row tbl)
      | Some old \<Rightarrow> if lr_expires_at old < now then ([key], AList.update key row tbl) else ([], tbl))"

definition lease_acquire ::
  "int \<Rightarrow> string \<Rightarrow> string \<Rightarrow> string \<Rightarrow> string \<Rightarrow> int \<Rightarrow> lease_table \<Rightarrow> bool \<times> lease_table" where
  "lease_acquire ttlMs tenant merchant chain holder now tbl =
     (case lease_acquire_row (lease_key tenant merchant chain) holder now (now + ttlMs) tbl of
        (rows, tbl') \<Rightarrow> (length rows > 0, tbl'))"

definition lease_release :: "string \<Rightarrow> string \<Rightarrow> string \<Rightarrow> string \<Rightarrow> lease_table \<Rightarrow> lease_table" where
  "lease_release tenant merchant chain holder tbl =
     filter (\<lambda>(k, row). \<not> (k = lease_key tenant merchant chain \<and> lr_holder row = holder)) tbl"

text \<open>\<open>withLease\<close> on a state that holds the lease table, read with \<open>get\<close> and written with \<open>put\<close>.\<close>

definition withLease ::
  "('s \<Rightarrow> lease_table) \<Rightarrow> (lease_table \<Rightarrow> 's \<Rightarrow> 's) \<Rightarrow> int \<Rightarrow> string \<Rightarrow> string \<Rightarrow> string \<Rightarrow> string \<Rightarrow> int \<Rightarrow>
   ('s, app_error, 'a) eff \<Rightarrow> ('s, app_error, 'a) eff" where
  "withLease get put ttlMs tenant merchant chain holder now fn s =
     (case lease_acquire ttlMs tenant merchant chain holder now (get s) of
        (got, tbl) \<Rightarrow>
          let s1 = put tbl s in
          if \<not> got then (Inl (GatherBusyError (''Another operation is already spending '' @ merchant
            @ '''s '' @ chain @ '' pool addresses. Retry shortly.'')), s1)
          else try_finally fn (\<lambda>s2. put (lease_release tenant merchant chain holder (get s2)) s2) s1)"

section \<open>Strategies (gather-strategy.ts, gather-config.ts)\<close>

definition GATHER_STRATEGIES :: "GatherStrategyKind list" where
  "GATHER_STRATEGIES = [EOA_FUND_TRANSFER, FORWARDER, EIP7702]"

fun strategy_name :: "GatherStrategyKind \<Rightarrow> string" where
  "strategy_name EOA_FUND_TRANSFER = ''EOA_FUND_TRANSFER''"
| "strategy_name FORWARDER = ''FORWARDER''"
| "strategy_name EIP7702 = ''EIP7702''"

text \<open>\<open>GatherStrategyRegistry\<close>: a map from kinds to implementations.\<close>

type_synonym 'g registry = "(GatherStrategyKind, 'g) jsmap"

definition registry_new :: "('g \<Rightarrow> GatherStrategyKind) \<Rightarrow> 'g list \<Rightarrow> 'g registry" where
  "registry_new kind strategies = foldl (\<lambda>m s. AList.update (kind s) s m) [] strategies"

definition registry_register :: "('g \<Rightarrow> GatherStrategyKind) \<Rightarrow> 'g \<Rightarrow> 'g registry \<Rightarrow> 'g registry" where
  "registry_register kind s m = AList.update (kind s) s m"

definition registry_has :: "GatherStrategyKind \<Rightarrow> 'g registry \<Rightarrow> bool" where
  "registry_has k m \<longleftrightarrow> map_of m k \<noteq> None"

definition registry_kinds :: "'g registry \<Rightarrow> GatherStrategyKind list" where
  "registry_kinds m = map fst m"

definition forAddress :: "GatherStrategyKind \<Rightarrow> 'g registry \<Rightarrow> app_error + 'g" where
  "forAddress k m =
     (case map_of m k of
        Some s \<Rightarrow> Inr s
      | None \<Rightarrow> Inl (UnknownGatherStrategyError (''No implementation registered for gather strategy ''
          @ strategy_name k @ ''; addresses minted under it cannot be drained'') False))"

definition assertStrategySupported :: "string \<Rightarrow> GatherStrategyKind \<Rightarrow> string \<Rightarrow> app_error + unit" where
  "assertStrategySupported chain k family =
     (if k = EIP7702 \<and> family \<noteq> ''EVM''
      then Inl (GatherStrategyNotSupportedError
        (''EIP-7702 is EVM-only; '' @ chain @ '' ('' @ family @ '') cannot use it''))
      else Inr ())"

record GatherConfigRow =
  gc_chain :: string
  gc_tenant :: string
  gc_activeStrategy :: GatherStrategyKind
  gc_updatedBy :: string
  gc_approvedBy :: string
  gc_effectiveAt :: int

text \<open>The table \<open>gather_config\<close>, by its primary key \<open>(chain, tenant)\<close>.\<close>

type_synonym gather_config = "(string \<times> string, GatherConfigRow) jsmap"

definition CHAIN_WIDE :: string where
  "CHAIN_WIDE = ''''"

text \<open>\<open>ORDER BY tenant DESC LIMIT 1\<close> over the tenant's row and the row of the empty tenant: the
  empty string sorts first, so the tenant's own row comes first when both exist.\<close>

definition activeFor :: "string \<Rightarrow> string \<Rightarrow> GatherStrategyKind \<Rightarrow> gather_config \<Rightarrow> GatherStrategyKind" where
  "activeFor chain tenant fallback tbl =
     (case rev (sort_key gc_tenant (map snd (filter (\<lambda>(k, r). gc_chain r = chain
         \<and> gc_tenant r \<in> {tenant, CHAIN_WIDE}) tbl))) of
        [] \<Rightarrow> fallback
      | r # _ \<Rightarrow> gc_activeStrategy r)"

definition strategy_of_name :: "string \<Rightarrow> GatherStrategyKind option" where
  "strategy_of_name n = List.find (\<lambda>k. strategy_name k = n) GATHER_STRATEGIES"

definition setActive ::
  "(string \<Rightarrow> string option) \<Rightarrow> string \<Rightarrow> string option \<Rightarrow> string \<Rightarrow> string \<Rightarrow> string \<Rightarrow> int \<Rightarrow>
   (gather_config, app_error, GatherConfigRow) eff" where
  "setActive familyOf chain tenant_opt strategy updatedBy approvedBy now tbl =
     (case strategy_of_name strategy of
        None \<Rightarrow> (Inl (UnknownGatherStrategyError (''Unknown gather strategy '' @ strategy) True), tbl)
      | Some k \<Rightarrow>
          if updatedBy = [] \<or> updatedBy = approvedBy
          then (Inl (UnknownGatherStrategyError
            ''Changing the gather strategy needs two distinct identities (requester != approver)'' True), tbl)
          else case (case familyOf chain of
              None \<Rightarrow> Inr () | Some fam \<Rightarrow> if fam = [] then Inr () else assertStrategySupported chain k fam) of
            Inl e \<Rightarrow> (Inl e, tbl)
          | Inr _ \<Rightarrow>
              let tenant = (case tenant_opt of None \<Rightarrow> CHAIN_WIDE | Some t \<Rightarrow> t);
                  row = \<lparr>gc_chain = chain, gc_tenant = tenant, gc_activeStrategy = k,
                    gc_updatedBy = updatedBy, gc_approvedBy = approvedBy, gc_effectiveAt = now\<rparr>
              in (Inr row, AList.update (chain, tenant) row tbl))"

section \<open>The EOA strategy (eoa-gather-strategy.ts)\<close>

record PrepareGatherInput =
  pg_in_chain :: string
  pg_in_address :: string
  pg_in_derivationIndex :: int
  pg_in_asset :: string
  pg_in_amountBaseUnits :: int
  pg_in_idempotencyKey :: string

text \<open>\<open>NativeGasProvisioner.provision\<close>: chain, address, minimum native amount and idempotency
  key; it returns the amount funded.\<close>

type_synonym 's provisioner = "string \<Rightarrow> string \<Rightarrow> int \<Rightarrow> string \<Rightarrow> ('s, app_error, int) eff"

definition eoa_prepare ::
  "'s provisioner option \<Rightarrow> (string \<Rightarrow> int option) \<Rightarrow> (string \<Rightarrow> string option) \<Rightarrow> PrepareGatherInput \<Rightarrow>
   ('s, app_error, int) eff" where
  "eoa_prepare gas gasRequirement nativeAssetOf i =
     (case gasRequirement (pg_in_chain i) of
        None \<Rightarrow> ret 0
      | Some required \<Rightarrow>
          if required \<le> 0 then ret 0
          else if (case nativeAssetOf (pg_in_chain i) of None \<Rightarrow> False
              | Some native \<Rightarrow> native \<noteq> [] \<and> toUpperCase native = toUpperCase (pg_in_asset i)) then ret 0
          else case gas of
            None \<Rightarrow> throw (GasTreasuryNotConfiguredError (pg_in_chain i
              @ '' token payouts need native gas in the pool address, but no gas provisioner is configured''))
          | Some prov \<Rightarrow> prov (pg_in_chain i) (pg_in_address i) required (''gas:'' @ pg_in_idempotencyKey i))"

section \<open>The balance cache (balance-cache.ts)\<close>

record balance_cache_row =
  bc_balance :: int
  bc_observed_at :: int
  bc_source :: string
  bc_last_error :: "string option"

type_synonym balance_target = "string \<times> string \<times> string"
type_synonym balance_cache = "(balance_target, balance_cache_row) jsmap"

definition cache_targets :: "(string \<Rightarrow> string list) \<Rightarrow> pool_table \<Rightarrow> balance_target list" where
  "cache_targets assetsForChain tbl =
     concat (map (\<lambda>r. map (\<lambda>a. (pa_chain r, pa_address r, a)) (assetsForChain (pa_chain r)))
       (sort_key (\<lambda>r. (pa_chain r, pa_derivationIndex r)) tbl))"

definition cache_record :: "balance_target \<Rightarrow> int \<Rightarrow> string \<Rightarrow> int \<Rightarrow> balance_cache \<Rightarrow> balance_cache" where
  "cache_record t b source at c =
     AList.update t \<lparr>bc_balance = b, bc_observed_at = at, bc_source = source, bc_last_error = None\<rparr> c"

definition cache_recordFailure :: "balance_target \<Rightarrow> string \<Rightarrow> int \<Rightarrow> balance_cache \<Rightarrow> balance_cache" where
  "cache_recordFailure t err now c =
     (let e = take 500 err in
      case map_of c t of
        None \<Rightarrow> AList.update t \<lparr>bc_balance = 0, bc_observed_at = now, bc_source = ''worker'', bc_last_error = Some e\<rparr> c
      | Some r \<Rightarrow> AList.update t (r\<lparr>bc_last_error := Some e\<rparr>) c)"

text \<open>One iteration of a refresh worker: the target is read once and its outcome recorded.\<close>

definition refresh_one ::
  "AddressBalance \<Rightarrow> string \<Rightarrow> int \<Rightarrow> balance_target \<Rightarrow> (nat \<times> nat) \<times> balance_cache \<Rightarrow> (nat \<times> nat) \<times> balance_cache" where
  "refresh_one bal source now t = (\<lambda>((observed, failed), c).
     case t of (chain, address, asset) \<Rightarrow>
       (case bal chain address asset of
          Inr v \<Rightarrow> ((observed + 1, failed), cache_record t v source now c)
        | Inl e \<Rightarrow> ((observed, failed + 1), cache_recordFailure t (err_message e) now c)))"

text \<open>
  The concurrent workers share the cursor and take each target once; what they may choose is
  the order in which the outcomes are recorded, here the order of the list.
\<close>

definition refresh ::
  "AddressBalance \<Rightarrow> string \<Rightarrow> int \<Rightarrow> balance_target list \<Rightarrow> balance_cache \<Rightarrow> (nat \<times> nat) \<times> balance_cache" where
  "refresh bal source now order c = fold (refresh_one bal source now) order ((0, 0), c)"

section \<open>Leg selection: lemmas\<close>

abbreviation bal_sum :: "FundedSource list \<Rightarrow> int" where
  "bal_sum fs \<equiv> sum_list (map fu_balance fs)"

lemma legs_loop_rest:
  "\<lbrakk>\<forall>f \<in> set fs. 0 < fu_balance f; 0 \<le> rem; legs_loop rem fs = (legs, rest)\<rbrakk> \<Longrightarrow>
     sum_list (map gl_amountBaseUnits legs) + rest = rem \<and> rest = max 0 (rem - bal_sum fs)"
proof (induction rem fs arbitrary: legs rest rule: legs_loop.induct)
  case (2 rem f fs)
  have nonneg: "0 \<le> bal_sum fs" using "2.prems"(1) by (intro sum_list_nonneg) auto
  show ?case
  proof (cases "rem \<le> 0")
    case True
    with 2 nonneg show ?thesis by auto
  next
    case False
    let ?t = "if fu_balance f < rem then fu_balance f else rem"
    obtain ls r where l: "legs_loop (rem - ?t) fs = (ls, r)" by fastforce
    from "2.IH" [OF False refl _ _ l] "2.prems" False
    have "sum_list (map gl_amountBaseUnits ls) + r = rem - ?t" "r = max 0 (rem - ?t - bal_sum fs)" by auto
    with "2.prems" False l nonneg show ?thesis by (auto simp: Let_def)
  qed
qed auto

text \<open>The legs come from a prefix of the list, in order, one leg per source.\<close>

lemma legs_loop_prefix:
  "\<lbrakk>\<forall>f \<in> set fs. 0 < fu_balance f; legs_loop rem fs = (legs, rest)\<rbrakk> \<Longrightarrow>
     length legs \<le> length fs \<and> list_all2 (\<lambda>l f. gs_address l = gs_address f
       \<and> gs_derivationIndex l = gs_derivationIndex f \<and> gs_gatherStrategy l = gs_gatherStrategy f
       \<and> 0 < gl_amountBaseUnits l \<and> gl_amountBaseUnits l \<le> fu_balance f) legs (take (length legs) fs)
     \<and> (legs \<noteq> [] \<longrightarrow> bal_sum (take (length legs - 1) fs) < rem)"
proof (induction rem fs arbitrary: legs rest rule: legs_loop.induct)
  case (2 rem f fs)
  show ?case
  proof (cases "rem \<le> 0")
    case True
    with 2 show ?thesis by auto
  next
    case False
    let ?t = "if fu_balance f < rem then fu_balance f else rem"
    obtain ls r where l: "legs_loop (rem - ?t) fs = (ls, r)" by fastforce
    note IH = "2.IH" [OF False refl _ l]
    have legs: "legs = \<lparr>gs_address = gs_address f, gs_derivationIndex = gs_derivationIndex f,
        gs_gatherStrategy = gs_gatherStrategy f, gl_amountBaseUnits = ?t\<rparr> # ls"
      using "2.prems"(2) l False by (simp add: Let_def split: if_splits)
    have "bal_sum (take (length ls) (f # fs)) < rem"
    proof (cases ls)
      case (Cons x xs)
      with IH "2.prems"(1) have "bal_sum (take (length xs) fs) < rem - ?t" by auto
      moreover have "0 \<le> bal_sum (take (length xs) fs)"
        using "2.prems"(1) by (intro sum_list_nonneg) (auto dest!: in_set_takeD)
      ultimately show ?thesis using Cons by (auto split: if_splits)
    qed (use False in simp)
    with IH "2.prems"(1) False show ?thesis unfolding legs by auto
  qed
qed auto

text \<open>Largest-first is greedy-optimal: no choice of at most \<open>j\<close> sources holds more than the
  first \<open>j\<close> of a descending list.\<close>

lemma top_sum:
  fixes xs :: "int list"
  assumes "sorted_wrt (\<ge>) xs" "\<forall>x \<in> set xs. 0 \<le> x" "mset ys \<subseteq># mset xs" "length ys \<le> j"
  shows "sum_list ys \<le> sum_list (take j xs)"
  using assms
proof (induction xs arbitrary: ys j)
  case Nil
  then show ?case by simp
next
  case (Cons x xs)
  show ?case
  proof (cases j)
    case 0
    with Cons.prems show ?thesis by simp
  next
    case (Suc n)
    show ?thesis
    proof (cases "x \<in> set ys")
      case True
      let ?zs = "remove1 x ys"
      have "mset ys = add_mset x (mset ?zs)" using True by simp
      with Cons.prems(3) have sub: "mset ?zs \<subseteq># mset xs"
        by (simp only: mset.simps mset_subset_eq_add_mset_cancel)
      have len: "length ?zs \<le> n" using True Cons.prems(4) Suc by (simp add: length_remove1)
      have "sum_list ?zs \<le> sum_list (take n xs)"
        by (rule Cons.IH [OF _ _ sub len]) (use Cons.prems in auto)
      moreover have "sum_list ys = x + sum_list ?zs" using True using sum_list_map_remove1 [of x ys "\<lambda>y. y"] by simp
      ultimately show ?thesis using Suc by simp
    next
      case False
      then have "count (mset ys) x = 0" by (simp add: count_eq_zero_iff)
      moreover have "count (mset ys) a \<le> count (add_mset x (mset xs)) a" for a
        using Cons.prems(3) by (simp add: subseteq_mset_def)
      ultimately have sub: "mset ys \<subseteq># mset xs"
        unfolding subseteq_mset_def by (metis count_add_mset zero_le)
      have le: "sum_list ys \<le> sum_list (take (Suc n) xs)"
        by (rule Cons.IH [OF _ _ sub]) (use Cons.prems Suc in auto)
      have "sum_list (take (Suc n) xs) \<le> x + sum_list (take n xs)"
      proof (cases "n < length xs")
        case True
        then show ?thesis using Cons.prems(1) by (simp add: take_Suc_conv_app_nth)
      next
        case False
        then show ?thesis using Cons.prems(2) by simp
      qed
      with le Suc show ?thesis by simp
    qed
  qed
qed

lemma funded_sort_mset: "mset (funded_sort fs) = mset fs"
  by (simp add: funded_sort_def)

lemma funded_sort_desc: "sorted_wrt (\<ge>) (map fu_balance (funded_sort fs))"
proof -
  have "sorted (map (\<lambda>f. - fu_balance f) (funded_sort fs))" by (simp add: funded_sort_def)
  then show ?thesis by (simp add: sorted_wrt_map)
qed

lemma funded_loop_Inr:
  "funded_loop bal c a as = Inr fs \<Longrightarrow>
     map gs_address fs = map pa_address (filter (\<lambda>r. 0 < projr (bal c (pa_address r) a)) as)
     \<and> (\<forall>f \<in> set fs. 0 < fu_balance f \<and> bal c (gs_address f) a = Inr (fu_balance f))"
  by (induction as arbitrary: fs) (auto simp: rbind_Inr_iff split: if_splits)

lemma funded_loop_defined:
  "\<forall>r \<in> set as. \<exists>b. bal c (pa_address r) a = Inr b \<Longrightarrow> \<exists>fs. funded_loop bal c a as = Inr fs"
  by (induction as) fastforce+

lemma funded_loop_balances:
  "funded_loop bal c a as = Inr fs \<Longrightarrow>
     map fu_balance fs = map (\<lambda>r. projr (bal c (pa_address r) a)) (filter (\<lambda>r. 0 < projr (bal c (pa_address r) a)) as)"
  by (induction as arbitrary: fs) (auto simp: rbind_Inr_iff split: if_splits)

lemma funded_loop_rows:
  "funded_loop bal c a as = Inr fs \<Longrightarrow> f \<in> set fs \<Longrightarrow>
     \<exists>r \<in> set as. gs_address f = pa_address r \<and> gs_derivationIndex f = pa_derivationIndex r
       \<and> gs_gatherStrategy f = pa_gatherStrategy r"
  by (induction as arbitrary: fs) (fastforce simp: rbind_Inr_iff split: if_splits)+

lemma gather_Inr:
  assumes "gather st bal t m c a amt s = Inr legs"
  obtains fs where "0 < amt" "funded_loop bal c a (po_addressesForMerchant st t m c s) = Inr fs"
    "legs_loop amt (funded_sort fs) = (legs, 0)" "amt \<le> bal_sum fs"
proof -
  from assms have amt: "0 < amt" by (auto simp: gather_def split: if_splits)
  with assms obtain fs where f: "funded_loop bal c a (po_addressesForMerchant st t m c s) = Inr fs"
    by (auto simp: gather_def rbind_Inr_iff)
  obtain legs' rest where l': "legs_loop amt (funded_sort fs) = (legs', rest)" by fastforce
  with assms amt f have l: "legs_loop amt (funded_sort fs) = (legs, rest)" and r: "rest \<le> 0"
    by (auto simp: gather_def Let_def split: if_splits)
  have pos: "\<forall>x \<in> set (funded_sort fs). 0 < fu_balance x"
    using funded_loop_Inr [OF f] by (simp add: funded_sort_def)
  have "bal_sum (funded_sort fs) = bal_sum fs"
    by (metis funded_sort_mset mset_map sum_mset_sum_list)
  with legs_loop_rest [OF pos _ l] amt r have "rest = 0" "amt \<le> bal_sum fs" by auto
  with that amt f l show ?thesis by blast
qed

lemma distinct_filter_address:
  assumes "pool_unique tbl" "\<And>r. P r \<Longrightarrow> pa_chain r = c"
  shows "distinct (map pa_address (filter P tbl))"
  using assms(1)
proof (induction tbl)
  case (Cons x xs)
  have "pa_address x \<notin> pa_address ` set (filter P xs)" if "P x"
  proof
    assume "pa_address x \<in> pa_address ` set (filter P xs)"
    then obtain r where r: "r \<in> set xs" "P r" "pa_address x = pa_address r" by auto
    with assms(2) that have "pool_conflict x r" by (simp add: pool_conflict_def)
    with r Cons.prems show False by (simp add: pool_unique_def)
  qed
  moreover from Cons have "distinct (map pa_address (filter P xs))" by (simp add: pool_unique_def)
  ultimately show ?case by simp
qed simp

lemma distinct_addressesForMerchant:
  assumes "pool_unique tbl"
  shows "distinct (addressesForMerchant t m c tbl)" "distinct (map pa_address (addressesForMerchant t m c tbl))"
proof -
  have "distinct (map pa_address (filter (\<lambda>r. pa_tenant r = t \<and> pa_merchant r = m \<and> pa_chain r = c) tbl))"
    by (rule distinct_filter_address [OF assms]) simp
  then show "distinct (map pa_address (addressesForMerchant t m c tbl))" "distinct (addressesForMerchant t m c tbl)"
    by (auto simp: addressesForMerchant_def distinct_map)
qed

lemma sum_filter_pos: "sum_list (map f xs) \<le> sum_list (map f (filter (\<lambda>x. 0 < f x) xs))" for f :: "'a \<Rightarrow> int"
  by (induction xs) auto

section \<open>Properties of gathering\<close>

definition ex_gather_pool :: pool_table where
  "ex_gather_pool = snd (assign SqlPoolStore ex_pool_cfg ''u1'' ''t'' ''m'' ''TRON'' ''inv1'' ''T'' ex_pool)"

definition ex_bal :: AddressBalance where
  "ex_bal c ad a = Inr (if ad = ''T1'' then 70 else 50)"

lemma ex_gather_reach: "pool_step\<^sup>*\<^sup>* [] ex_gather_pool"
  unfolding ex_gather_pool_def
  by (rule rtranclp_trans [OF ex_pool_reach assign_steps [OF surjective_pairing]])

lemma ex_gather:
  "gather SqlPoolStore ex_bal ''t'' ''m'' ''TRON'' ''USDT'' 100 ex_gather_pool = Inr
    [\<lparr>gs_address = ''T1'', gs_derivationIndex = 1, gs_gatherStrategy = EOA_FUND_TRANSFER, gl_amountBaseUnits = 70\<rparr>,
     \<lparr>gs_address = ''T0'', gs_derivationIndex = 0, gs_gatherStrategy = EOA_FUND_TRANSFER, gl_amountBaseUnits = 30\<rparr>]"
  by code_simp

lemma gather_legs:
  assumes "pool_step\<^sup>*\<^sup>* [] tbl" and "gather SqlPoolStore bal t m c a amt tbl = Inr legs"
  shows "sum_list (map gl_amountBaseUnits legs) = amt \<and> distinct (map gs_address legs)
    \<and> list_all (\<lambda>l. 0 < gl_amountBaseUnits l \<and> gl_amountBaseUnits l \<le> projr (bal c (gs_address l) a)
        \<and> isl (bal c (gs_address l) a) = False
        \<and> list_ex (\<lambda>r. pa_tenant r = t \<and> pa_merchant r = m \<and> pa_chain r = c \<and> pa_address r = gs_address l
             \<and> pa_derivationIndex r = gs_derivationIndex l \<and> pa_gatherStrategy r = gs_gatherStrategy l) tbl) legs"
proof -
  have U: "pool_unique tbl" by (rule pool_reach_unique [OF assms(1)])
  let ?as = "addressesForMerchant t m c tbl"
  from assms(2) obtain fs where amt: "0 < amt" and f: "funded_loop bal c a ?as = Inr fs"
    and l: "legs_loop amt (funded_sort fs) = (legs, 0)"
    by (rule gather_Inr) (simp add: SqlPoolStore_def)
  have pos: "\<forall>x \<in> set (funded_sort fs). 0 < fu_balance x"
    using funded_loop_Inr [OF f] by (simp add: funded_sort_def)
  note pre = legs_loop_prefix [OF pos l]
  have "distinct (map gs_address fs)"
    using funded_loop_Inr [OF f] distinct_addressesForMerchant(2) [OF U, of t m c]
    by (simp add: distinct_map_filter)
  moreover have "mset (map gs_address (funded_sort fs)) = mset (map gs_address fs)" by (simp add: funded_sort_mset)
  ultimately have "distinct (map gs_address (funded_sort fs))" by (metis mset_eq_imp_distinct_iff)
  moreover have "map gs_address legs = map gs_address (take (length legs) (funded_sort fs))"
    using pre by (auto simp: list_all2_conv_all_nth intro: nth_equalityI)
  ultimately have "distinct (map gs_address legs)" by (metis distinct_take take_map)
  moreover have "0 < gl_amountBaseUnits x \<and> gl_amountBaseUnits x \<le> projr (bal c (gs_address x) a)
        \<and> isl (bal c (gs_address x) a) = False
        \<and> (\<exists>r \<in> set tbl. pa_tenant r = t \<and> pa_merchant r = m \<and> pa_chain r = c \<and> pa_address r = gs_address x
             \<and> pa_derivationIndex r = gs_derivationIndex x \<and> pa_gatherStrategy r = gs_gatherStrategy x)"
    if "x \<in> set legs" for x
  proof -
    from that obtain i where i: "i < length legs" "x = legs ! i" by (auto simp: in_set_conv_nth)
    let ?y = "funded_sort fs ! i"
    from pre i have y: "?y \<in> set (funded_sort fs)" "gs_address x = gs_address ?y"
      "gs_derivationIndex x = gs_derivationIndex ?y" "gs_gatherStrategy x = gs_gatherStrategy ?y"
      "0 < gl_amountBaseUnits x" "gl_amountBaseUnits x \<le> fu_balance ?y"
      by (auto simp: list_all2_conv_all_nth)
    then have "?y \<in> set fs" by (simp add: funded_sort_def)
    with funded_loop_rows [OF f this] funded_loop_Inr [OF f] y show ?thesis
      by (auto simp: addressesForMerchant_def)
  qed
  moreover have "sum_list (map gl_amountBaseUnits legs) = amt"
    using legs_loop_rest [OF pos _ l] amt by simp
  ultimately show ?thesis by (auto simp: list_all_iff list_ex_iff)
qed

text \<open>C8. Gathered legs are exact and covered: they sum to the requested amount, use distinct
  addresses of that tenant, merchant and chain, and take from each a positive amount that
  its balance covers.\<close>

theorem gather_exact_and_covered:
  assumes "pool_step\<^sup>*\<^sup>* [] tbl" and "gather SqlPoolStore bal t m c a amt tbl = Inr legs"
  shows "sum_list (map gl_amountBaseUnits legs) = amt \<and> distinct (map gs_address legs)
    \<and> list_all (\<lambda>l. 0 < gl_amountBaseUnits l \<and> gl_amountBaseUnits l \<le> projr (bal c (gs_address l) a)
        \<and> isl (bal c (gs_address l) a) = False
        \<and> list_ex (\<lambda>r. pa_tenant r = t \<and> pa_merchant r = m \<and> pa_chain r = c \<and> pa_address r = gs_address l
             \<and> pa_derivationIndex r = gs_derivationIndex l \<and> pa_gatherStrategy r = gs_gatherStrategy l) tbl) legs"
  by (rule gather_legs [OF assms])

theorem gather_exact_and_covered_witness:
  "\<exists>legs. gather SqlPoolStore ex_bal ''t'' ''m'' ''TRON'' ''USDT'' 100 ex_gather_pool = Inr legs
     \<and> length legs = 2 \<and> sum_list (map gl_amountBaseUnits legs) = 100"
  using gather_exact_and_covered [OF ex_gather_reach ex_gather] ex_gather by simp

text \<open>Gathering uses as few addresses as possible: no selection of fewer of the merchant's
  addresses holds the amount.\<close>

theorem gather_minimal:
  assumes "pool_step\<^sup>*\<^sup>* [] tbl" and "gather SqlPoolStore bal t m c a amt tbl = Inr legs"
    and "distinct sel" and "set sel \<subseteq> set (addressesForMerchant t m c tbl)" and "length sel < length legs"
  shows "sum_list (map (\<lambda>r. projr (bal c (pa_address r) a)) sel) < amt"
proof -
  have U: "pool_unique tbl" by (rule pool_reach_unique [OF assms(1)])
  let ?as = "addressesForMerchant t m c tbl" and ?b = "\<lambda>r. projr (bal c (pa_address r) a)"
  from assms(2) obtain fs where amt: "0 < amt" and f: "funded_loop bal c a ?as = Inr fs"
    and l: "legs_loop amt (funded_sort fs) = (legs, 0)"
    by (rule gather_Inr) (simp add: SqlPoolStore_def)
  have pos: "\<forall>x \<in> set (funded_sort fs). 0 < fu_balance x"
    using funded_loop_Inr [OF f] by (simp add: funded_sort_def)
  let ?sel = "filter (\<lambda>r. 0 < ?b r) sel"
  have "mset_set (set ?sel) \<subseteq># mset_set (set (filter (\<lambda>r. 0 < ?b r) ?as))"
    using assms(4) by (intro subset_imp_msubset_mset_set) auto
  then have "mset ?sel \<subseteq># mset (filter (\<lambda>r. 0 < ?b r) ?as)"
    using assms(3) distinct_addressesForMerchant(1) [OF U, of t m c] by (simp add: mset_set_set del: set_filter)
  then have sub: "mset (map ?b ?sel) \<subseteq># mset (map fu_balance (funded_sort fs))"
  proof -
    assume "mset ?sel \<subseteq># mset (filter (\<lambda>r. 0 < ?b r) ?as)"
    then have "image_mset ?b (mset ?sel) \<subseteq># image_mset ?b (mset (filter (\<lambda>r. 0 < ?b r) ?as))"
      by (rule image_mset_subseteq_mono)
    moreover have "mset (map fu_balance (funded_sort fs)) = mset (map fu_balance fs)"
      by (simp add: funded_sort_mset)
    ultimately show ?thesis unfolding funded_loop_balances [OF f] by (simp only: mset_map)
  qed
  have len: "length (map ?b ?sel) \<le> length legs - 1"
    using assms(5) length_filter_le [of "\<lambda>r. 0 < ?b r" sel] unfolding length_map by linarith
  have "sum_list (map ?b sel) \<le> sum_list (map ?b ?sel)" by (rule sum_filter_pos)
  also have "\<dots> \<le> sum_list (take (length legs - 1) (map fu_balance (funded_sort fs)))"
    by (rule top_sum [OF funded_sort_desc _ sub len]) (use pos in auto)
  also have "\<dots> < amt" using legs_loop_prefix [OF pos l] assms(5) by (auto simp: take_map)
  finally show ?thesis .
qed

theorem gather_minimal_witness:
  "sum_list (map (\<lambda>r. projr (ex_bal ''TRON'' (pa_address r) ''USDT'')) [hd ex_gather_pool]) < 100"
proof -
  have "set [hd ex_gather_pool] \<subseteq> set (addressesForMerchant ''t'' ''m'' ''TRON'' ex_gather_pool)"
    by code_simp
  then show ?thesis using gather_minimal [OF ex_gather_reach ex_gather, of "[hd ex_gather_pool]"] by simp
qed

text \<open>Gathering succeeds exactly when it can: with every balance readable, legs are
  returned if and only if the amount is positive and the positive balances of the
  merchant's addresses sum to at least it; otherwise \<open>InsufficientPoolFundsError\<close>.\<close>

theorem gather_complete:
  assumes "list_all (\<lambda>r. \<not> isl (bal c (pa_address r) a)) (addressesForMerchant t m c tbl)"
  shows "case gather SqlPoolStore bal t m c a amt tbl of
     Inr legs \<Rightarrow> 0 < amt \<and> amt \<le> sum_list (filter (\<lambda>b. 0 < b)
        (map (\<lambda>r. projr (bal c (pa_address r) a)) (addressesForMerchant t m c tbl)))
   | Inl e \<Rightarrow> err_code e = Some POOL_INSUFFICIENT_FUNDS \<and> (amt \<le> 0 \<or> sum_list (filter (\<lambda>b. 0 < b)
        (map (\<lambda>r. projr (bal c (pa_address r) a)) (addressesForMerchant t m c tbl))) < amt)"
proof -
  let ?as = "addressesForMerchant t m c tbl"
  let ?bs = "filter (\<lambda>b. 0 < b) (map (\<lambda>r. projr (bal c (pa_address r) a)) ?as)"
  have "\<forall>r \<in> set ?as. \<exists>b. bal c (pa_address r) a = Inr b"
    using assms by (metis list_all_iff sum.collapse(2))
  then obtain fs where f: "funded_loop bal c a ?as = Inr fs" using funded_loop_defined [of ?as bal c a] by blast
  have bs: "bal_sum fs = sum_list ?bs"
    using funded_loop_balances [OF f] by (simp add: filter_map o_def)
  have srt: "bal_sum (funded_sort fs) = bal_sum fs" by (metis funded_sort_mset mset_map sum_mset_sum_list)
  have pos: "\<forall>x \<in> set (funded_sort fs). 0 < fu_balance x"
    using funded_loop_Inr [OF f] by (simp add: funded_sort_def)
  obtain legs rest where l: "legs_loop amt (funded_sort fs) = (legs, rest)" by fastforce
  show ?thesis
  proof (cases "amt \<le> 0")
    case True
    then show ?thesis by (simp add: gather_def)
  next
    case False
    then have "rest = max 0 (amt - sum_list ?bs)" using legs_loop_rest [OF pos _ l] bs srt by simp
    with False f l show ?thesis by (auto simp: gather_def SqlPoolStore_def Let_def)
  qed
qed

theorem gather_complete_witness:
  "isl (gather SqlPoolStore ex_bal ''t'' ''m'' ''TRON'' ''USDT'' 121 ex_gather_pool)
   \<and> sum_list (filter (\<lambda>b. 0 < b) (map (\<lambda>r. projr (ex_bal ''TRON'' (pa_address r) ''USDT''))
       (addressesForMerchant ''t'' ''m'' ''TRON'' ex_gather_pool))) < 121"
proof -
  have i: "isl (gather SqlPoolStore ex_bal ''t'' ''m'' ''TRON'' ''USDT'' 121 ex_gather_pool)" by code_simp
  have "list_all (\<lambda>r. \<not> isl (ex_bal ''TRON'' (pa_address r) ''USDT''))
      (addressesForMerchant ''t'' ''m'' ''TRON'' ex_gather_pool)" by (simp add: ex_bal_def list_all_iff)
  then have "case gather SqlPoolStore ex_bal ''t'' ''m'' ''TRON'' ''USDT'' 121 ex_gather_pool of
     Inr legs \<Rightarrow> 0 < (121::int) \<and> 121 \<le> sum_list (filter (\<lambda>b. 0 < b)
        (map (\<lambda>r. projr (ex_bal ''TRON'' (pa_address r) ''USDT'')) (addressesForMerchant ''t'' ''m'' ''TRON'' ex_gather_pool)))
   | Inl e \<Rightarrow> err_code e = Some POOL_INSUFFICIENT_FUNDS \<and> ((121::int) \<le> 0 \<or> sum_list (filter (\<lambda>b. 0 < b)
        (map (\<lambda>r. projr (ex_bal ''TRON'' (pa_address r) ''USDT'')) (addressesForMerchant ''t'' ''m'' ''TRON'' ex_gather_pool))) < 121)"
    by (rule gather_complete)
  with i show ?thesis by (auto split: sum.splits)
qed

section \<open>The lease excludes other holders\<close>

datatype lease_event = LAcquire string string string string int | LRelease string string string string

fun lease_step :: "int \<Rightarrow> lease_event \<Rightarrow> lease_table \<Rightarrow> lease_table" where
  "lease_step ttl (LAcquire t m c h now) tbl = snd (lease_acquire ttl t m c h now tbl)"
| "lease_step ttl (LRelease t m c h) tbl = lease_release t m c h tbl"

text \<open>The event is no release by the holder, and no acquisition after the deadline.\<close>

fun lease_quiet :: "string \<Rightarrow> string \<Rightarrow> int \<Rightarrow> lease_event \<Rightarrow> bool" where
  "lease_quiet key h deadline (LAcquire t m c h' now) \<longleftrightarrow> lease_key t m c \<noteq> key \<or> now \<le> deadline"
| "lease_quiet key h deadline (LRelease t m c h') \<longleftrightarrow> lease_key t m c \<noteq> key \<or> h' \<noteq> h"

lemma map_of_filter_kept: "map_of xs k = Some v \<Longrightarrow> P (k, v) \<Longrightarrow> map_of (filter P xs) k = Some v"
  by (induction xs) (auto split: if_splits)

lemma map_of_filter_dropped: "(\<And>v. \<not> P (k, v)) \<Longrightarrow> map_of (filter P xs) k = None"
  by (induction xs) auto

lemma lease_acquire_True:
  "lease_acquire ttl t m c h now tbl = (True, tbl') \<Longrightarrow>
     map_of tbl' (lease_key t m c) = Some \<lparr>lr_holder = h, lr_acquired_at = now, lr_expires_at = now + ttl\<rparr>"
  by (auto simp: lease_acquire_def lease_acquire_row_def Let_def update_conv' split: option.splits if_splits)

lemma lease_held_step:
  assumes "map_of tbl key = Some row" "lease_quiet key (lr_holder row) (lr_expires_at row) ev"
  shows "map_of (lease_step ttl ev tbl) key = Some row"
proof (cases ev)
  case (LAcquire t m c h now)
  with assms show ?thesis
    by (auto simp: lease_acquire_def lease_acquire_row_def Let_def update_conv' split: option.splits)
next
  case (LRelease t m c h)
  with assms show ?thesis
    unfolding LRelease lease_step.simps lease_release_def by (intro map_of_filter_kept) auto
qed

lemma lease_held_steps:
  assumes "map_of tbl key = Some row" "list_all (lease_quiet key (lr_holder row) (lr_expires_at row)) evs"
  shows "map_of (fold (lease_step ttl) evs tbl) key = Some row"
  using assms by (induction evs arbitrary: tbl) (auto simp: lease_held_step)

text \<open>C35. The lease is exclusive: once acquired at \<open>now\<close>, then after any sequence of
  acquisition attempts up to the deadline and releases by other holders, nobody can
  acquire it at a time up to \<open>now + ttl\<close>; and at any later time it can be acquired.\<close>

theorem lease_exclusive:
  assumes "lease_acquire ttl t m c h now tbl = (True, tbl1)"
    and "list_all (lease_quiet (lease_key t m c) h (now + ttl)) evs"
    and "fold (lease_step ttl) evs tbl1 = tbl2"
  shows "fst (lease_acquire ttl t m c h' now' tbl2) \<longleftrightarrow> now + ttl < now'"
proof -
  have "map_of tbl2 (lease_key t m c) = Some \<lparr>lr_holder = h, lr_acquired_at = now, lr_expires_at = now + ttl\<rparr>"
    using lease_held_steps [OF lease_acquire_True [OF assms(1)], of evs ttl] assms(2,3) by simp
  then show ?thesis by (auto simp: lease_acquire_def lease_acquire_row_def Let_def)
qed

theorem lease_exclusive_witness:
  "\<not> fst (lease_acquire DEFAULT_TTL_MS ''t'' ''m'' ''tron'' ''b'' 120000
     (fold (lease_step DEFAULT_TTL_MS) [LAcquire ''t'' ''m'' ''TRON'' ''b'' 5, LRelease ''t'' ''m'' ''TRON'' ''b'']
       (snd (lease_acquire DEFAULT_TTL_MS ''t'' ''m'' ''tron'' ''a'' 0 []))))"
proof -
  have a: "lease_acquire DEFAULT_TTL_MS ''t'' ''m'' ''tron'' ''a'' 0 [] =
    (True, snd (lease_acquire DEFAULT_TTL_MS ''t'' ''m'' ''tron'' ''a'' 0 []))" by code_simp
  have b: "list_all (lease_quiet (lease_key ''t'' ''m'' ''tron'') ''a'' (0 + DEFAULT_TTL_MS))
    [LAcquire ''t'' ''m'' ''TRON'' ''b'' 5, LRelease ''t'' ''m'' ''TRON'' ''b'']" by code_simp
  from lease_exclusive [OF a b refl, of "''b''" 120000] show ?thesis by (simp add: DEFAULT_TTL_MS_def)
qed

text \<open>\<open>withLease\<close> gives the lease back on every exit: after it, whatever the body did,
  returned or threw, no row of the lease's key names the holder unless the lease was
  refused, and then the body did not run and the table is unchanged.\<close>

theorem withLease_releases:
  assumes "withLease (\<lambda>s. s) (\<lambda>tbl s. tbl) ttl t m c h now fn s = (r, s')"
  shows "if fst (lease_acquire ttl t m c h now s)
    then map_option lr_holder (map_of s' (lease_key t m c)) \<noteq> Some h
    else s' = s \<and> (\<exists>msg. r = Inl (GatherBusyError msg))"
proof (cases "fst (lease_acquire ttl t m c h now s)")
  case True
  with assms obtain s2 where "s' = lease_release t m c h s2"
    by (auto simp: withLease_def try_finally_def split: prod.splits)
  then have "map_of s' (lease_key t m c) = Some row \<Longrightarrow> lr_holder row \<noteq> h" for row
    by (auto simp: lease_release_def dest!: map_of_SomeD)
  with True show ?thesis by (cases "map_of s' (lease_key t m c)") auto
next
  case False
  with assms show ?thesis
    by (auto simp: withLease_def lease_acquire_def lease_acquire_row_def Let_def split: option.splits if_splits)
qed

theorem withLease_releases_witness:
  "map_option lr_holder (map_of (snd (withLease (\<lambda>s. s) (\<lambda>tbl s. tbl) 10 ''t'' ''m'' ''c'' ''h'' 0
     (throw (JsError ''boom'')) [])) (lease_key ''t'' ''m'' ''c'')) \<noteq> Some ''h''"
proof -
  have "fst (lease_acquire 10 ''t'' ''m'' ''c'' ''h'' 0 [])" by code_simp
  with withLease_releases [OF surjective_pairing, where s = "[]" and fn = "throw (JsError ''boom'')" and ttl = 10
    and t = "''t''" and m = "''m''" and c = "''c''" and h = "''h''" and now = 0]
  show ?thesis by simp
qed

section \<open>The balance cache does not depend on the schedule\<close>

definition outcome :: "AddressBalance \<Rightarrow> string \<Rightarrow> int \<Rightarrow> balance_target \<Rightarrow> balance_cache_row option \<Rightarrow> balance_cache_row" where
  "outcome bal source now t old = (case t of (c, ad, a) \<Rightarrow> case bal c ad a of
     Inr v \<Rightarrow> \<lparr>bc_balance = v, bc_observed_at = now, bc_source = source, bc_last_error = None\<rparr>
   | Inl e \<Rightarrow> (case old of
       None \<Rightarrow> \<lparr>bc_balance = 0, bc_observed_at = now, bc_source = ''worker'', bc_last_error = Some (take 500 (err_message e))\<rparr>
     | Some r \<Rightarrow> r\<lparr>bc_last_error := Some (take 500 (err_message e))\<rparr>))"

lemma refresh_one_run:
  "refresh_one bal source now t ((obs, fl), c) =
     (if isl (bal (fst t) (fst (snd t)) (snd (snd t))) then (obs, fl + 1) else (obs + 1, fl),
      AList.update t (outcome bal source now t (map_of c t)) c)"
  by (cases t) (auto simp: refresh_one_def outcome_def cache_record_def cache_recordFailure_def Let_def
      split: sum.splits option.splits)

lemma refresh_fold:
  "distinct ts \<Longrightarrow> fold (refresh_one bal source now) ts ((obs, fl), c) = (r, c') \<Longrightarrow>
     r = (obs + length (filter (\<lambda>t. \<not> isl (bal (fst t) (fst (snd t)) (snd (snd t)))) ts),
          fl + length (filter (\<lambda>t. isl (bal (fst t) (fst (snd t)) (snd (snd t)))) ts))
     \<and> map_of c' = (\<lambda>t. if t \<in> set ts then Some (outcome bal source now t (map_of c t)) else map_of c t)"
proof (induction ts arbitrary: obs fl c)
  case (Cons t ts)
  let ?bad = "isl (bal (fst t) (fst (snd t)) (snd (snd t)))"
  let ?c = "AList.update t (outcome bal source now t (map_of c t)) c"
  let ?o = "if ?bad then obs else obs + 1" and ?f = "if ?bad then fl + 1 else fl"
  have "fold (refresh_one bal source now) ts ((?o, ?f), ?c) = (r, c')"
    using Cons.prems(2) by (simp add: refresh_one_run split: if_splits)
  from Cons.IH [OF _ this] Cons.prems(1) show ?case
    by (auto simp: fun_eq_iff update_conv')
qed auto



end
