(* ===== verification/Authorization.thy ===== *)
theory Authorization
  imports Gather
begin

text \<open>
  Payout authorization: the transfer commitment, the canonical form of the claims and the
  signer (\<open>src/chains/payout/authorization.ts\<close>), the broadcaster that refuses unauthorized
  transfers (\<open>authorizing-broadcaster.ts\<close>) and the engine's own authorizations
  (\<open>internal-authorization.ts\<close>).

  SHA-256 and HMAC-SHA-256 of the crypto library are parameters: \<open>cr_sha256\<close> maps a message to
  its hex digest, \<open>cr_hmac\<close> a key and a message to the hex tag. \<open>JSON.stringify\<close> is modelled
  with its escapes, and \<open>Buffer.from(_, "hex")\<close> with its tolerance of malformed input.
\<close>

section \<open>Data (types/models/payout.ts)\<close>

record AuthorizationClaims =
  ac_intentId :: string
  ac_tenant :: string
  ac_merchant :: string
  ac_chain :: string
  ac_asset :: string
  ac_amount :: string
  ac_destination :: string
  ac_sighash :: string
  ac_policyVersion :: string
  ac_approvals :: "string list"
  ac_decidedAt :: int
  ac_expiresAt :: int

record AuthorizationToken =
  at_claims :: AuthorizationClaims
  at_signature :: string

record TransferIdentity =
  ti_intentId :: string
  ti_chain :: string
  ti_asset :: string
  ti_amount :: string
  ti_destination :: string
  ti_fromAddress :: string

record PayoutRequest =
  pq_chain :: string
  pq_asset :: string
  pq_amountBaseUnits :: int
  pq_fromAddress :: string
  pq_fromDerivationIndex :: int
  pq_toAddress :: string
  pq_idempotencyKey :: "string option"
  pq_authorization :: "AuthorizationToken option"

record crypto =
  cr_sha256 :: "string \<Rightarrow> string"
  cr_hmac :: "string \<Rightarrow> string \<Rightarrow> string"

section \<open>JSON strings and numbers\<close>

definition hex_char :: "nat \<Rightarrow> char" where
  "hex_char n = ''0123456789abcdef'' ! n"

definition json_escape :: "char \<Rightarrow> string" where
  "json_escape c =
     (let n = (of_char c :: nat) in
      if n = 34 then [CHR 0x5C, CHR 0x22]
      else if n = 92 then [CHR 0x5C, CHR 0x5C]
      else if n = 8 then CHR 0x5C # ''b''
      else if n = 9 then CHR 0x5C # ''t''
      else if n = 10 then CHR 0x5C # ''n''
      else if n = 12 then CHR 0x5C # ''f''
      else if n = 13 then CHR 0x5C # ''r''
      else if n < 32 then CHR 0x5C # ''u00'' @ [hex_char (n div 16), hex_char (n mod 16)]
      else [c])"

definition json_string :: "string \<Rightarrow> string" where
  "json_string s = CHR 0x22 # concat (map json_escape s) @ [CHR 0x22]"

definition json_strings :: "string list \<Rightarrow> string" where
  "json_strings xs = ''['' @ join_with '','' (map json_string xs) @ '']''"

definition json_key :: "string \<Rightarrow> string" where
  "json_key k = CHR 0x22 # k @ [CHR 0x22, CHR '':'']"

section \<open>Commitment and canonical form (authorization.ts)\<close>

text \<open>The parts are joined with the NUL character.\<close>

definition commitment_message :: "TransferIdentity \<Rightarrow> string" where
  "commitment_message t =
     join_with [CHR 0x00] [ti_intentId t, ti_chain t, ti_asset t, ti_amount t, ti_destination t, ti_fromAddress t]"

definition transferCommitment :: "crypto \<Rightarrow> TransferIdentity \<Rightarrow> string" where
  "transferCommitment cr t = cr_sha256 cr (commitment_message t)"

definition canonical :: "AuthorizationClaims \<Rightarrow> string" where
  "canonical c =
     ''{'' @ json_key ''amount'' @ json_string (ac_amount c)
     @ '','' @ json_key ''approvals'' @ json_strings (ac_approvals c)
     @ '','' @ json_key ''asset'' @ json_string (ac_asset c)
     @ '','' @ json_key ''chain'' @ json_string (ac_chain c)
     @ '','' @ json_key ''decidedAt'' @ show_int (ac_decidedAt c)
     @ '','' @ json_key ''destination'' @ json_string (ac_destination c)
     @ '','' @ json_key ''expiresAt'' @ show_int (ac_expiresAt c)
     @ '','' @ json_key ''intentId'' @ json_string (ac_intentId c)
     @ '','' @ json_key ''merchant'' @ json_string (ac_merchant c)
     @ '','' @ json_key ''policyVersion'' @ json_string (ac_policyVersion c)
     @ '','' @ json_key ''sighash'' @ json_string (ac_sighash c)
     @ '','' @ json_key ''tenant'' @ json_string (ac_tenant c) @ ''}''"

section \<open>The signer (authorization.ts)\<close>

record AuthorizationSigner =
  as_crypto :: crypto
  as_policyKey :: string
  as_policyVersion :: string

definition auth_hmac :: "AuthorizationSigner \<Rightarrow> AuthorizationClaims \<Rightarrow> string" where
  "auth_hmac sg c = cr_hmac (as_crypto sg) (as_policyKey sg) (canonical c)"

text \<open>\<open>mint\<close> overwrites the policy version and the two times of its input.\<close>

definition mint :: "AuthorizationSigner \<Rightarrow> AuthorizationClaims \<Rightarrow> int \<Rightarrow> int \<Rightarrow> AuthorizationToken" where
  "mint sg inp now ttlMs =
     (let claims = inp\<lparr>ac_policyVersion := as_policyVersion sg, ac_decidedAt := now, ac_expiresAt := now + ttlMs\<rparr>
      in \<lparr>at_claims = claims, at_signature = auth_hmac sg claims\<rparr>)"

definition hex_digit :: "char \<Rightarrow> nat option" where
  "hex_digit c =
     (let n = (of_char c :: nat) in
      if 48 \<le> n \<and> n \<le> 57 then Some (n - 48)
      else if 97 \<le> n \<and> n \<le> 102 then Some (n - 87)
      else if 65 \<le> n \<and> n \<le> 70 then Some (n - 55)
      else None)"

text \<open>\<open>Buffer.from(s, "hex")\<close> decodes pairs and stops at the first that is not hexadecimal.\<close>

fun hex_decode :: "string \<Rightarrow> nat list" where
  "hex_decode (a # b # s) =
     (case (hex_digit a, hex_digit b) of
        (Some x, Some y) \<Rightarrow> (16 * x + y) # hex_decode s
      | _ \<Rightarrow> [])"
| "hex_decode s = []"

definition verify ::
  "AuthorizationSigner \<Rightarrow> AuthorizationToken \<Rightarrow> int \<Rightarrow> string option \<Rightarrow> app_error + AuthorizationClaims" where
  "verify sg token now expectedSighash =
     (let a = hex_decode (auth_hmac sg (at_claims token));
          b = hex_decode (at_signature token)
      in if length a \<noteq> length b \<or> a \<noteq> b
         then Inl (InvalidAuthorizationError ''Authorization signature is invalid'')
         else if now > ac_expiresAt (at_claims token)
         then Inl (InvalidAuthorizationError ''Authorization token has expired'')
         else if expectedSighash \<noteq> None \<and> expectedSighash \<noteq> Some (ac_sighash (at_claims token))
         then Inl (InvalidAuthorizationError ''Authorization sighash does not bind the transaction being signed'')
         else Inr (at_claims token))"

section \<open>The broadcaster (authorizing-broadcaster.ts)\<close>

type_synonym 's PayoutBroadcaster = "PayoutRequest \<Rightarrow> ('s, app_error, string) eff"

datatype auth_mode = auth_require | auth_optional

definition request_identity :: "string \<Rightarrow> PayoutRequest \<Rightarrow> TransferIdentity" where
  "request_identity intentId req =
     \<lparr>ti_intentId = intentId, ti_chain = pq_chain req, ti_asset = pq_asset req,
      ti_amount = show_int (pq_amountBaseUnits req), ti_destination = pq_toAddress req,
      ti_fromAddress = pq_fromAddress req\<rparr>"

definition authorizing_send ::
  "'s PayoutBroadcaster \<Rightarrow> AuthorizationSigner \<Rightarrow> auth_mode \<Rightarrow> int \<Rightarrow> 's PayoutBroadcaster" where
  "authorizing_send inner sg mode now req =
     (case pq_authorization req of
        None \<Rightarrow> if mode = auth_require
          then throw (InvalidAuthorizationError ''Refusing to broadcast a payout without authorization'')
          else inner req
      | Some token \<Rightarrow>
          let expectedSighash = transferCommitment (as_crypto sg) (request_identity (ac_intentId (at_claims token)) req)
          in bind (lift (verify sg token now (Some expectedSighash))) (\<lambda>_. inner req))"

section \<open>Internal authorizations (internal-authorization.ts)\<close>

definition INTERNAL_AUTH_TTL_MS :: int where
  "INTERNAL_AUTH_TTL_MS = 5 * 60000"

definition mintInternalAuthorization ::
  "AuthorizationSigner \<Rightarrow> string \<Rightarrow> PayoutRequest \<Rightarrow> string \<Rightarrow> int \<Rightarrow> int \<Rightarrow> AuthorizationToken" where
  "mintInternalAuthorization sg intentId req purpose now ttlMs =
     mint sg
       \<lparr>ac_intentId = intentId, ac_tenant = ''engine'', ac_merchant = purpose, ac_chain = pq_chain req,
        ac_asset = pq_asset req, ac_amount = show_int (pq_amountBaseUnits req), ac_destination = pq_toAddress req,
        ac_sighash = transferCommitment (as_crypto sg) (request_identity intentId req),
        ac_policyVersion = [], ac_approvals = [], ac_decidedAt = 0, ac_expiresAt = 0\<rparr> now ttlMs"

section \<open>Unique readability\<close>

text \<open>Reading one escaped character back.\<close>

fun json_read :: "string \<Rightarrow> (char \<times> string) option" where
  "json_read [] = None"
| "json_read (a # s) =
     (if a \<noteq> CHR 0x5C then Some (a, s)
      else case s of
        [] \<Rightarrow> None
      | b # r \<Rightarrow>
          if b = CHR ''b'' then Some (CHR 0x08, r) else if b = CHR ''t'' then Some (CHR 0x09, r)
          else if b = CHR ''n'' then Some (CHR 0x0A, r) else if b = CHR ''f'' then Some (CHR 0x0C, r)
          else if b = CHR ''r'' then Some (CHR 0x0D, r)
          else if b = CHR ''u'' then Some (char_of (16 * the (hex_digit (r ! 2)) + the (hex_digit (r ! 3))), drop 4 r)
          else Some (b, r))"

lemma hex_digit_hex_char: "n < 16 \<Longrightarrow> hex_digit (hex_char n) = Some n"
proof -
  have "list_all (\<lambda>n. hex_digit (hex_char n) = Some n) [0..<16]" by code_simp
  then show "n < 16 \<Longrightarrow> ?thesis" by (simp add: list_all_iff)
qed

lemma json_read_escape: "json_read (json_escape c @ x) = Some (c, x)"
proof -
  let ?n = "of_char c :: nat"
  consider "?n = 34" | "?n = 92" | "?n = 8" | "?n = 9" | "?n = 10" | "?n = 12" | "?n = 13"
    | "?n < 32" "?n \<notin> {8, 9, 10, 12, 13}" | "32 \<le> ?n" "?n \<noteq> 34" "?n \<noteq> 92" by force
  then show ?thesis
  proof cases
    case 8
    have "?n div 16 < 16" "?n mod 16 < 16" using 8(1) by simp_all
    with 8 show ?thesis
      by (simp add: json_escape_def Let_def hex_digit_hex_char)
  next
    case 9
    then have "c \<noteq> CHR 0x5C" by auto
    with 9 show ?thesis by (simp add: json_escape_def Let_def)
  qed (auto simp: json_escape_def Let_def simp flip: of_char_eq_iff [where ?'a = nat])
qed

lemma json_escape_inj: "json_escape c @ x = json_escape d @ y \<longleftrightarrow> c = d \<and> x = y"
  by (metis json_read_escape option.inject prod.inject)

lemma json_escape_quote: "json_escape c @ x \<noteq> CHR 0x22 # y"
proof
  assume eq: "json_escape c @ x = CHR 0x22 # y"
  have "json_read (CHR 0x22 # y) = Some (CHR 0x22, y)" by simp
  with eq json_read_escape [of c x] have "c = CHR 0x22" by simp
  with eq show False by (simp add: json_escape_def)
qed

lemma json_string_inj: "json_string s @ x = json_string t @ y \<longleftrightarrow> s = t \<and> x = y"
proof -
  have "concat (map json_escape s) @ CHR 0x22 # x = concat (map json_escape t) @ CHR 0x22 # y \<longleftrightarrow> s = t \<and> x = y"
  proof (induction s arbitrary: t)
    case Nil
    then show ?case by (cases t) (auto simp: json_escape_quote [symmetric])
  next
    case (Cons c s)
    then show ?case by (cases t) (auto simp: json_escape_quote json_escape_inj)
  qed
  then show ?thesis by (simp add: json_string_def)
qed

lemma json_string_eq: "json_string s = json_string t \<longleftrightarrow> s = t"
  using json_string_inj [of s "[]" t "[]"] by simp

lemma json_string_Cons: "\<exists>r. json_string s = CHR 0x22 # r"
  by (simp add: json_string_def)

lemma join_strings_inj:
  "join_with '','' (map json_string xs) @ CHR '']'' # x = join_with '','' (map json_string ys) @ CHR '']'' # y
     \<longleftrightarrow> xs = ys \<and> x = y"
proof (induction xs arbitrary: ys)
  case Nil
  have "CHR '']'' # x \<noteq> json_string a @ z" for a z using json_string_Cons [of a] by auto
  then show ?case by (cases ys rule: remdups_adj.cases) auto
next
  case (Cons a xs)
  have ne: "json_string a @ z \<noteq> CHR '']'' # w" for z w using json_string_Cons [of a] by auto
  show ?case
  proof (cases ys)
    case Nil
    with ne show ?thesis by (cases xs) auto
  next
    case (Cons b zs)
    then show ?thesis
      using Cons.IH [of zs] by (cases xs; cases zs) (auto simp: json_string_inj)
  qed
qed

lemma json_strings_inj: "json_strings xs @ x = json_strings ys @ y \<longleftrightarrow> xs = ys \<and> x = y"
  using join_strings_inj [of xs x ys y] by (simp add: json_strings_def)

lemma show_int_comma_inj: "show_int i @ CHR '','' # x = show_int j @ CHR '','' # y \<longleftrightarrow> i = j \<and> x = y"
proof -
  have "CHR '','' \<notin> set (show_int k)" for k
    using show_int_chars [of "CHR '',''" k] by (auto simp: is_digit_def)
  then show ?thesis by (simp add: sep_append_inj show_int_inj)
qed

lemma canonical_inj: "canonical c = canonical d \<longleftrightarrow> c = d"
  unfolding canonical_def
  by (simp add: json_string_inj json_string_eq json_strings_inj show_int_comma_inj json_key_def)
    (auto simp: AuthorizationClaims.equality)

text \<open>NUL-free parts can be read back from the commitment's message.\<close>

definition nul_free_identity :: "TransferIdentity \<Rightarrow> bool" where
  "nul_free_identity t \<longleftrightarrow> CHR 0x00 \<notin> set (ti_intentId t @ ti_chain t @ ti_asset t @ ti_amount t @ ti_destination t)"

lemma commitment_message_inj:
  "nul_free_identity t \<Longrightarrow> nul_free_identity u \<Longrightarrow> commitment_message t = commitment_message u \<longleftrightarrow> t = u"
  by (auto simp: commitment_message_def nul_free_identity_def sep_append_inj TransferIdentity.equality)

section \<open>Properties of authorization\<close>

lemma verify_Inr_iff:
  "verify sg token now ex = Inr c \<longleftrightarrow>
     c = at_claims token \<and> hex_decode (at_signature token) = hex_decode (auth_hmac sg (at_claims token))
     \<and> now \<le> ac_expiresAt (at_claims token) \<and> (ex = None \<or> ex = Some (ac_sighash (at_claims token)))"
  by (auto simp: verify_def Let_def)

text \<open>A crypto for the examples: the digest is the message in hex, the tag the key and message.\<close>

definition hex_of :: "string \<Rightarrow> string" where
  "hex_of s = concat (map (\<lambda>c. [hex_char ((of_char c :: nat) div 16), hex_char ((of_char c :: nat) mod 16)]) s)"

definition ex_signer :: AuthorizationSigner where
  "ex_signer = \<lparr>as_crypto = \<lparr>cr_sha256 = hex_of, cr_hmac = (\<lambda>k m. hex_of (k @ m))\<rparr>,
     as_policyKey = ''k'', as_policyVersion = ''v1''\<rparr>"

definition ex_req :: PayoutRequest where
  "ex_req = \<lparr>pq_chain = ''TRON'', pq_asset = ''USDT'', pq_amountBaseUnits = 5, pq_fromAddress = ''Tf'',
     pq_fromDerivationIndex = 0, pq_toAddress = ''Tt'', pq_idempotencyKey = None, pq_authorization = None\<rparr>"

definition ex_auth_req :: PayoutRequest where
  "ex_auth_req = ex_req\<lparr>pq_authorization :=
     Some (mintInternalAuthorization ex_signer ''i1'' ex_req ''gas'' 0 INTERNAL_AUTH_TTL_MS)\<rparr>"

lemma minted_accepted:
  assumes "pq_authorization req = Some (mintInternalAuthorization sg i req purpose t0 ttl)" "now \<le> t0 + ttl"
  shows "authorizing_send inner sg auth_require now req = inner req"
  using assms
  by (auto simp: authorizing_send_def mintInternalAuthorization_def Let_def mint_def verify_def bind_def lift_def)

lemma ex_auth_req_minted:
  "pq_authorization ex_auth_req = Some (mintInternalAuthorization ex_signer ''i1'' ex_auth_req ''gas'' 0 INTERNAL_AUTH_TTL_MS)"
  by (simp add: ex_auth_req_def mintInternalAuthorization_def request_identity_def)

text \<open>The canonical form that is signed determines the claims: two different sets of claims
  never have the same canonical text, whatever quotes, backslashes or control characters
  their fields contain.\<close>

theorem canonical_determines_claims: "canonical c = canonical d \<longleftrightarrow> c = d"
  by (rule canonical_inj)

text \<open>A freshly minted token verifies, and returns the claims that were signed, exactly while
  it has not expired and the transaction hash asked for is the one it binds.\<close>

theorem mint_verify_roundtrip:
  "verify sg (mint sg inp now ttl) later ex =
     (if later > now + ttl then Inl (InvalidAuthorizationError ''Authorization token has expired'')
      else if ex \<noteq> None \<and> ex \<noteq> Some (ac_sighash inp)
        then Inl (InvalidAuthorizationError ''Authorization sighash does not bind the transaction being signed'')
      else Inr (inp\<lparr>ac_policyVersion := as_policyVersion sg, ac_decidedAt := now, ac_expiresAt := now + ttl\<rparr>))"
  by (simp add: verify_def mint_def Let_def)

text \<open>C4. Nothing is broadcast without a valid authorization: in the deployed mode, either the
  request is refused with \<open>InvalidAuthorizationError\<close> and the wrapped broadcaster is not
  called, or the request carries an unexpired token whose tag is right and whose hash is the
  commitment to exactly this chain, asset, amount, destination and source.\<close>

theorem broadcast_only_if_authorized:
  "(\<exists>m. authorizing_send inner sg auth_require now req s = (Inl (InvalidAuthorizationError m), s))
   \<or> (\<exists>token. pq_authorization req = Some token
        \<and> hex_decode (at_signature token) = hex_decode (auth_hmac sg (at_claims token))
        \<and> now \<le> ac_expiresAt (at_claims token)
        \<and> ac_sighash (at_claims token) = transferCommitment (as_crypto sg) (request_identity (ac_intentId (at_claims token)) req)
        \<and> authorizing_send inner sg auth_require now req s = inner req s)"
proof (cases "pq_authorization req")
  case None
  then show ?thesis by (simp add: authorizing_send_def throw_def)
next
  case (Some token)
  let ?ex = "Some (transferCommitment (as_crypto sg) (request_identity (ac_intentId (at_claims token)) req))"
  show ?thesis
  proof (cases "verify sg token now ?ex")
    case (Inl e)
    then have "\<exists>m. e = InvalidAuthorizationError m" by (auto simp: verify_def Let_def split: if_splits)
    with Inl Some show ?thesis by (auto simp: authorizing_send_def effect_simps)
  next
    case (Inr c)
    with Some show ?thesis by (auto simp: authorizing_send_def effect_simps verify_Inr_iff)
  qed
qed



text \<open>The engine's own transfers pass its own gate: a request that carries the internal
  authorization minted for it reaches the wrapped broadcaster up to five minutes later.\<close>

theorem internal_authorization_accepted:
  assumes "pq_authorization req = Some (mintInternalAuthorization sg i req purpose t0 INTERNAL_AUTH_TTL_MS)"
    and "now \<le> t0 + INTERNAL_AUTH_TTL_MS"
  shows "authorizing_send inner sg auth_require now req = inner req"
  using assms by (rule minted_accepted)

theorem internal_authorization_accepted_witness:
  "authorizing_send (\<lambda>_. ret ''tx'') ex_signer auth_require 300000 ex_auth_req () = (Inr ''tx'', ())"
proof -
  have "authorizing_send (\<lambda>_. ret ''tx'') ex_signer auth_require 300000 ex_auth_req = (ret ''tx'' :: (unit, app_error, string) eff)"
    by (rule internal_authorization_accepted [OF ex_auth_req_minted]) (simp add: INTERNAL_AUTH_TTL_MS_def)
  then show ?thesis by (simp add: ret_run)
qed

end
