(* ===== verification/World.thy ===== *)
theory World
  imports Ledger_Service Policy Authorization
begin

text \<open>
  The state the services share, one field per group of tables, and the chain as the services
  see it. \<open>PayoutService\<close>, \<open>FeeSweepService\<close>, \<open>GasStation\<close> and \<open>ExternalReconciler\<close> run on it.

  The chain is a parameter: \<open>chain_send\<close> answers each request by a function of the requests
  sent before it and records request and outcome in \<open>w_sent\<close>; balance readers are functions
  of the whole state. The locale \<open>payout_sender\<close> is the contract of a \<open>PayoutBroadcaster\<close>
  (\<open>src/chains/payout/broadcaster.ts\<close>) that the services rely on: a call changes nothing but
  that record, and returns a transaction id only for a request it handed to the chain. The
  plain broadcaster and the authorizing one meet it.
\<close>

section \<open>Payout intents (payout-journal.schema.ts)\<close>

datatype PayoutIntentStatus = Locked | Broadcasting | Broadcast | Settled | Failed

record PayoutIntent =
  pi_id :: string
  pi_idempotencyKey :: string
  pi_tenant :: string
  pi_merchant :: string
  pi_chain :: string
  pi_asset :: string
  pi_amountBaseUnits :: int
  pi_destination :: string
  pi_fromAddress :: "string option"
  pi_txId :: "string option"
  pi_status :: PayoutIntentStatus
  pi_requestedBy :: "string option"
  pi_lastError :: "string option"
  pi_createdAt :: int
  pi_updatedAt :: int

section \<open>The shared state\<close>

record World =
  w_ledger :: SqlLedger
  w_pool :: pool_table
  w_lease :: lease_table
  w_policy :: policy_db
  w_approvals :: "approval_row list"
  w_intents :: "PayoutIntent list"
  w_sent :: "(PayoutRequest \<times> (app_error + string)) list"

definition world_init :: World where
  "world_init = \<lparr>w_ledger = sql_init, w_pool = [], w_lease = [], w_policy = policy_db_init,
     w_approvals = [], w_intents = [], w_sent = []\<rparr>"

text \<open>Running a component's method on its part of the state.\<close>

definition zoom :: "('s \<Rightarrow> 't) \<Rightarrow> ('t \<Rightarrow> 's \<Rightarrow> 's) \<Rightarrow> ('t, 'e, 'a) eff \<Rightarrow> ('s, 'e, 'a) eff" where
  "zoom get put m = (\<lambda>s. case m (get s) of (r, t) \<Rightarrow> (r, put t s))"

abbreviation on_ledger :: "(SqlLedger, 'e, 'a) eff \<Rightarrow> (World, 'e, 'a) eff" where
  "on_ledger \<equiv> zoom w_ledger (\<lambda>t. w_ledger_update (\<lambda>_. t))"

abbreviation on_policy :: "(policy_db, 'e, 'a) eff \<Rightarrow> (World, 'e, 'a) eff" where
  "on_policy \<equiv> zoom w_policy (\<lambda>t. w_policy_update (\<lambda>_. t))"

abbreviation on_lease :: "(lease_table \<Rightarrow> lease_table) \<Rightarrow> World \<Rightarrow> World" where
  "on_lease \<equiv> w_lease_update"

lemma zoom_run [effect_simps]: "m (get s) = (r, t) \<Longrightarrow> zoom get put m s = (r, put t s)"
  by (simp add: zoom_def)

lemma preserves_zoom:
  "(\<And>s t r. I s \<Longrightarrow> m (get s) = (r, t) \<Longrightarrow> I (put t s)) \<Longrightarrow> preserves I (zoom get put m)"
  by (auto simp: preserves_def zoom_def split: prod.splits)

section \<open>The chain\<close>

type_synonym chain_outcome = "(PayoutRequest \<times> (app_error + string)) list \<Rightarrow> PayoutRequest \<Rightarrow> app_error + string"

definition chain_send :: "chain_outcome \<Rightarrow> World PayoutBroadcaster" where
  "chain_send env req w =
     (let r = env (w_sent w) req in (r, w\<lparr>w_sent := w_sent w @ [(req, r)]\<rparr>))"

section \<open>Frames\<close>

text \<open>What a call may have changed besides: \<open>sent_after P w w'\<close> says that between \<open>w\<close> and \<open>w'\<close>
  only policy tables changed and requests were sent that all satisfy \<open>P\<close>.\<close>

definition sent_after :: "(PayoutRequest \<Rightarrow> bool) \<Rightarrow> World \<Rightarrow> World \<Rightarrow> bool" where
  "sent_after P w w' \<longleftrightarrow>
     (\<exists>l. w' = w\<lparr>w_policy := w_policy w', w_sent := w_sent w @ l\<rparr> \<and> (\<forall>(q, r) \<in> set l. P q))"

lemma sent_after_refl [simp, intro]: "sent_after P w w"
  by (auto simp: sent_after_def intro: exI [of _ "[]"])

lemma sent_after_trans [trans]:
  assumes "sent_after P w w'" "sent_after P w' w''"
  shows "sent_after P w w''"
proof -
  from assms obtain l l' where
    "w' = w\<lparr>w_policy := w_policy w', w_sent := w_sent w @ l\<rparr>" "\<forall>(q, r) \<in> set l. P q"
    "w'' = w'\<lparr>w_policy := w_policy w'', w_sent := w_sent w' @ l'\<rparr>" "\<forall>(q, r) \<in> set l'. P q"
    by (auto simp: sent_after_def)
  then show ?thesis unfolding sent_after_def
    by (intro exI [of _ "l @ l'"]) (cases w, cases w', cases w'', auto)
qed

lemma sent_after_mono: "sent_after P w w' \<Longrightarrow> (\<And>q. P q \<Longrightarrow> Q q) \<Longrightarrow> sent_after Q w w'"
  unfolding sent_after_def split_def by blast

lemma sent_afterD:
  assumes "sent_after P w w'"
  shows "w_ledger w' = w_ledger w" "w_pool w' = w_pool w" "w_lease w' = w_lease w"
    "w_approvals w' = w_approvals w" "w_intents w' = w_intents w"
    "\<exists>l. w_sent w' = w_sent w @ l \<and> (\<forall>(q, r) \<in> set l. P q)"
proof -
  from assms obtain l where l: "w' = w\<lparr>w_policy := w_policy w', w_sent := w_sent w @ l\<rparr>"
    "\<forall>(q, r) \<in> set l. P q"
    by (auto simp: sent_after_def)
  show "w_ledger w' = w_ledger w" "w_pool w' = w_pool w" "w_lease w' = w_lease w"
    "w_approvals w' = w_approvals w" "w_intents w' = w_intents w"
    by (subst l(1), simp)+
  have "w_sent w' = w_sent w @ l" by (subst l(1)) simp
  with l(2) show "\<exists>l. w_sent w' = w_sent w @ l \<and> (\<forall>(q, r) \<in> set l. P q)" by blast
qed

section \<open>The contract of a broadcaster\<close>

locale payout_sender =
  fixes send :: "World PayoutBroadcaster"
  assumes send_records:
    "send req w = (r, w') \<Longrightarrow> w' = w \<and> (\<forall>tx. r \<noteq> Inr tx) \<or> w' = w\<lparr>w_sent := w_sent w @ [(req, r)]\<rparr>"
begin

lemma send_ok: "send req w = (Inr tx, w') \<Longrightarrow> w' = w\<lparr>w_sent := w_sent w @ [(req, Inr tx)]\<rparr>"
  using send_records [of req w "Inr tx" w'] by blast

lemma send_sent_after: "P req \<Longrightarrow> sent_after P w (snd (send req w))"
  using send_records [of req w "fst (send req w)" "snd (send req w)"]
  by (auto simp: sent_after_def intro: exI [of _ "[]"] exI [of _ "[(req, fst (send req w))]"])

end

interpretation chain: payout_sender "chain_send env" for env
  by unfold_locales (auto simp: chain_send_def Let_def)

text \<open>Putting the authorization check before a broadcaster keeps the contract.\<close>

lemma authorizing_payout_sender:
  assumes "payout_sender inner"
  shows "payout_sender (authorizing_send inner sg mode now)"
proof
  fix req w r w'
  assume run: "authorizing_send inner sg mode now req w = (r, w')"
  show "w' = w \<and> (\<forall>tx. r \<noteq> Inr tx) \<or> w' = w\<lparr>w_sent := w_sent w @ [(req, r)]\<rparr>"
  proof (cases "inner req w = (r, w')")
    case True
    with payout_sender.send_records [OF assms] show ?thesis by blast
  next
    case False
    with run have "w' = w \<and> (\<exists>e. r = Inl e)"
      by (auto simp: authorizing_send_def throw_def bind_def lift_def Let_def split: option.splits if_splits sum.splits)
    then show ?thesis by auto
  qed
qed

interpretation auth_chain: payout_sender "authorizing_send (chain_send env) sg mode now" for env sg mode now
  by (rule authorizing_payout_sender) (rule chain.payout_sender_axioms)

section \<open>Postings and requests a method may add\<close>

text \<open>\<open>moved A P w w'\<close>: the pool and the approvals are as they were, no ledger key is lost, the
  postings added all satisfy \<open>A\<close> and the requests sent all satisfy \<open>P\<close>.\<close>

abbreviation ledger_keys :: "World \<Rightarrow> string set" where
  "ledger_keys w \<equiv> jr_idempotency_key ` set (sq_journal_entry (w_ledger w))"

abbreviation ledger_ids :: "World \<Rightarrow> string set" where
  "ledger_ids w \<equiv> jr_id ` set (sq_journal_entry (w_ledger w))"

definition moved :: "(Posting \<Rightarrow> bool) \<Rightarrow> (PayoutRequest \<Rightarrow> bool) \<Rightarrow> World \<Rightarrow> World \<Rightarrow> bool" where
  "moved A P w w' \<longleftrightarrow> w_pool w' = w_pool w \<and> w_approvals w' = w_approvals w \<and> ledger_keys w \<subseteq> ledger_keys w'
     \<and> (\<exists>ps. sql_log (w_ledger w') = sql_log (w_ledger w) @ ps \<and> (\<forall>p \<in> set ps. A p))
     \<and> (\<exists>l. w_sent w' = w_sent w @ l \<and> (\<forall>(q, r) \<in> set l. P q))"

lemma moved_refl [simp, intro]: "moved A P w w"
  by (simp add: moved_def)

lemma moved_trans [trans]:
  assumes "moved A P w w'" "moved A P w' w''"
  shows "moved A P w w''"
proof -
  from assms obtain ps ps' l l' where
    "sql_log (w_ledger w') = sql_log (w_ledger w) @ ps" "\<forall>p \<in> set ps. A p"
    "sql_log (w_ledger w'') = sql_log (w_ledger w') @ ps'" "\<forall>p \<in> set ps'. A p"
    "w_sent w' = w_sent w @ l" "\<forall>(q, r) \<in> set l. P q"
    "w_sent w'' = w_sent w' @ l'" "\<forall>(q, r) \<in> set l'. P q"
    by (auto simp: moved_def)
  then have "sql_log (w_ledger w'') = sql_log (w_ledger w) @ (ps @ ps') \<and> (\<forall>p \<in> set (ps @ ps'). A p)"
    "w_sent w'' = w_sent w @ (l @ l') \<and> (\<forall>(q, r) \<in> set (l @ l'). P q)" by auto
  moreover from assms have "w_pool w'' = w_pool w" "w_approvals w'' = w_approvals w"
    "ledger_keys w \<subseteq> ledger_keys w''" by (auto simp: moved_def)
  ultimately show ?thesis unfolding moved_def by blast
qed

lemma moved_step: "(\<And>w. moved A P w (snd (m w))) \<Longrightarrow> preserves (moved A P w0) m"
  by (rule preservesI) (blast intro: moved_trans)

lemma sent_after_moved: "sent_after P w w' \<Longrightarrow> moved A P w w'"
  using sent_afterD [of P w w'] by (auto simp: moved_def)

lemma post_log:
  assumes "post SqlLedgerStore e s = (r, s')"
  shows "(sql_log s' = sql_log s \<or> sql_log s' = sql_log s @ je_postings e)
    \<and> jr_idempotency_key ` set (sq_journal_entry s) \<subseteq> jr_idempotency_key ` set (sq_journal_entry s')
    \<and> (\<forall>b. r = Inr b \<longrightarrow> je_idempotencyKey e \<in> jr_idempotency_key ` set (sq_journal_entry s'))"
proof (cases "assertBalanced e")
  case (Inl err)
  with assms show ?thesis by (auto simp: post_def effect_simps)
next
  case (Inr u)
  then have "all_positive (je_postings e)" by (simp add: assertBalanced_iff)
  with assms Inr show ?thesis
    by (auto simp: post_def effect_simps SqlLedgerStore_def sql_append_cases sql_applied_fields split: if_splits)
qed

lemma moved_post:
  assumes "\<forall>p \<in> set (je_postings e). A p"
  shows "preserves (moved A P w0) (on_ledger (post SqlLedgerStore e))"
proof (rule moved_step)
  fix w :: World
  obtain r s' where run: "post SqlLedgerStore e (w_ledger w) = (r, s')" by fastforce
  from post_log [OF run] assms show "moved A P w (snd (on_ledger (post SqlLedgerStore e) w))"
    by (auto simp: zoom_def run moved_def)
qed

context payout_sender
begin

lemma moved_send: "P req \<Longrightarrow> preserves (moved A P w0) (send req)"
  by (rule moved_step) (rule sent_after_moved [OF send_sent_after])

end

end
