(* ===== verification/Treasury.thy ===== *)
theory Treasury
  imports World "HOL-Library.Sublist"
begin

text \<open>
  The engine's own funds: sizing a fee sweep (\<open>src/chains/treasury/fee-sweep-planner.ts\<close>,
  \<open>sweepBalances\<close> of \<open>src/queries/infra.queries.ts\<close>), the gas station
  (\<open>gas-station.ts\<close>, \<open>broadcaster-gas-funder.ts\<close>), the external reconciler
  (\<open>src/chains/reconcile/external-reconciler.ts\<close>) and \<open>FeeSweepService\<close>
  (\<open>src/services/fee-sweep.service.ts\<close>).

  A balance reader is a function of the state, so that what a transfer moved can show in
  the readings after it.
\<close>

section \<open>SQL \<open>LIKE\<close>\<close>

text \<open>The pattern comes first. A backslash escapes the next character; a pattern that ends in
  one, which Postgres refuses, matches nothing here.\<close>

fun sql_like :: "string \<Rightarrow> string \<Rightarrow> bool" where
  "sql_like [] t = (t = [])"
| "sql_like (p # ps) [] = (p = CHR ''%'' \<and> sql_like ps [])"
| "sql_like (p # ps) (c # cs) =
     (if p = CHR ''%'' then sql_like ps (c # cs) \<or> sql_like (p # ps) cs
      else if p = CHR ''_'' then sql_like ps cs
      else if p = CHR 0x5C then (case ps of [] \<Rightarrow> False | q # qs \<Rightarrow> c = q \<and> sql_like qs cs)
      else c = p \<and> sql_like ps cs)"

section \<open>Sizing a sweep (fee-sweep-planner.ts)\<close>

definition forClaim :: "string \<Rightarrow> string \<Rightarrow> string \<Rightarrow> SqlLedger \<Rightarrow> (string \<times> int) list" where
  "forClaim asset merchant tenant s =
     map (\<lambda>((acc, a), (amt, v)). (acc, amt))
       (filter (\<lambda>((acc, a), _). a = asset \<and>
          (sql_like (''pool_addr:%:'' @ merchant) acc
           \<or> sql_like (''merchant'' @ [CHR 0x5C] @ ''_%:'' @ tenant @ '':'' @ merchant) acc)) (sq_balance s))"

fun claim_loop :: "int \<Rightarrow> int \<Rightarrow> (string \<times> int) list \<Rightarrow> app_error + (int \<times> int)" where
  "claim_loop poolAssets liabilities [] = Inr (poolAssets, liabilities)"
| "claim_loop poolAssets liabilities ((acc, amt) # rows) =
     rbind (normalBalance acc amt) (\<lambda>magnitude.
       if startsWith acc ''pool_addr:'' then claim_loop (poolAssets + magnitude) liabilities rows
       else claim_loop poolAssets (liabilities + magnitude) rows)"

definition claim :: "string \<Rightarrow> string \<Rightarrow> string \<Rightarrow> SqlLedger \<Rightarrow> app_error + int" where
  "claim tenant merchant asset s =
     rbind (claim_loop 0 0 (forClaim asset merchant tenant s)) (\<lambda>(poolAssets, liabilities).
       let surplus = poolAssets - liabilities in Inr (if surplus > 0 then surplus else 0))"

record FeeSweepPlan =
  fp_tenant :: string
  fp_merchant :: string
  fp_chain :: string
  fp_asset :: string
  fp_claimBaseUnits :: int
  fp_legs :: "GatheredLeg list"
  fp_totalBaseUnits :: int
  fp_skippedDust :: nat

fun plan_loop ::
  "AddressBalance \<Rightarrow> int \<Rightarrow> string \<Rightarrow> string \<Rightarrow> (string, int) jsmap \<Rightarrow> int \<Rightarrow> PoolAddressRow list \<Rightarrow>
   app_error + (GatheredLeg list \<times> nat)" where
  "plan_loop bal dust chain asset reserved remaining [] = Inr ([], 0)"
| "plan_loop bal dust chain asset reserved remaining (a # as) =
     (if remaining \<le> 0 then Inr ([], 0)
      else rbind (bal chain (pa_address a) asset) (\<lambda>onChain.
        let free = onChain - map_get_or reserved (pa_address a) 0 in
        if free \<le> 0 then plan_loop bal dust chain asset reserved remaining as
        else let tk = (if free < remaining then free else remaining) in
          if tk < dust
          then rbind (plan_loop bal dust chain asset reserved remaining as) (\<lambda>(legs, n). Inr (legs, n + 1))
          else rbind (plan_loop bal dust chain asset reserved (remaining - tk) as) (\<lambda>(legs, n).
            Inr (\<lparr>gs_address = pa_address a, gs_derivationIndex = pa_derivationIndex a,
              gs_gatherStrategy = pa_gatherStrategy a, gl_amountBaseUnits = tk\<rparr> # legs, n))))"

definition plan ::
  "AddressBalance \<Rightarrow> int \<Rightarrow> string \<Rightarrow> string \<Rightarrow> string \<Rightarrow> string \<Rightarrow> (string, int) jsmap \<Rightarrow> World \<Rightarrow>
   app_error + FeeSweepPlan" where
  "plan bal dust tenant merchant chain asset reserved w =
     rbind (claim tenant merchant asset (w_ledger w)) (\<lambda>claimBaseUnits.
       let empty = \<lparr>fp_tenant = tenant, fp_merchant = merchant, fp_chain = chain, fp_asset = asset,
         fp_claimBaseUnits = claimBaseUnits, fp_legs = [], fp_totalBaseUnits = 0, fp_skippedDust = 0\<rparr> in
       if claimBaseUnits \<le> 0 then Inr empty
       else rbind (plan_loop bal dust chain asset reserved claimBaseUnits
           (addressesForMerchant tenant merchant chain (w_pool w))) (\<lambda>(legs, skipped).
         Inr (empty\<lparr>fp_legs := legs, fp_totalBaseUnits := sum_list (map gl_amountBaseUnits legs),
           fp_skippedDust := skipped\<rparr>)))"

section \<open>The gas station (gas-station.ts)\<close>

record GasStationConfig =
  gn_nativeAsset :: string
  gn_floorBaseUnits :: int

record GasFloatStatus =
  gf_chain :: string
  gf_balance :: int
  gf_floor :: int
  gf_healthy :: bool

text \<open>The ports: \<open>GasFloatSource.available\<close>, \<open>GasFunder.fund\<close> (a \<open>provisioner\<close>) and
  \<open>ReconcilerBreaker.trip\<close>.\<close>

type_synonym GasFloatSource = "string \<Rightarrow> string \<Rightarrow> (World, app_error, int) eff"
type_synonym ReconcilerBreaker = "string \<Rightarrow> (World, app_error, unit) eff"

definition ledger_float :: GasFloatSource where
  "ledger_float chain nativeAsset = on_ledger (getBalance SqlLedgerStore (''gas_float:'' @ chain) nativeAsset)"

definition treasury_float :: "(World \<Rightarrow> AddressBalance) \<Rightarrow> (string \<Rightarrow> string option) \<Rightarrow> GasFloatSource" where
  "treasury_float bal treasuryOf chain nativeAsset =
     (case treasuryOf chain of
        None \<Rightarrow> ret 0
      | Some addr \<Rightarrow> (\<lambda>w. (bal w chain addr nativeAsset, w)))"

text \<open>The breaker of the deployment, the Postgres kill switch.\<close>

definition kill_breaker :: "int \<Rightarrow> ReconcilerBreaker" where
  "kill_breaker now reason = modify (\<lambda>w. w\<lparr>w_policy := kill_trip GLOBAL reason now (w_policy w)\<rparr>)"

record GasStation =
  gt_float :: GasFloatSource
  gt_configs :: "(string, GasStationConfig) jsmap"
  gt_funder :: "World provisioner option"
  gt_breaker :: "ReconcilerBreaker option"

definition configFor :: "GasStation \<Rightarrow> string \<Rightarrow> app_error + GasStationConfig" where
  "configFor g chain =
     (case map_of (gt_configs g) chain of
        None \<Rightarrow> Inl (JsError (''No gas-station config for chain '' @ chain))
      | Some c \<Rightarrow> Inr c)"

definition floatStatus :: "GasStation \<Rightarrow> string \<Rightarrow> (World, app_error, GasFloatStatus) eff" where
  "floatStatus g chain =
     bind (lift (configFor g chain)) (\<lambda>c.
     bind (gt_float g chain (gn_nativeAsset c)) (\<lambda>balance.
       ret \<lparr>gf_chain = chain, gf_balance = balance, gf_floor = gn_floorBaseUnits c,
         gf_healthy = (balance \<ge> gn_floorBaseUnits c)\<rparr>))"

definition trip_if_set :: "ReconcilerBreaker option \<Rightarrow> string \<Rightarrow> (World, app_error, unit) eff" where
  "trip_if_set b reason = (case b of None \<Rightarrow> ret () | Some trip \<Rightarrow> trip reason)"

definition monitor :: "GasStation \<Rightarrow> (World, app_error, GasFloatStatus list) eff" where
  "monitor g =
     for_each (\<lambda>chain statuses.
       bind (floatStatus g chain) (\<lambda>status.
       bind (if \<not> gf_healthy status
             then trip_if_set (gt_breaker g) (''gas_float:'' @ chain @ '' depleted: ''
               @ show_int (gf_balance status) @ '' < floor '' @ show_int (gf_floor status))
             else ret ()) (\<lambda>_.
         ret (statuses @ [status])))) (map fst (gt_configs g)) []"

definition provision :: "GasStation \<Rightarrow> World provisioner" where
  "provision g chain address minNative key =
     (case gt_funder g of
        None \<Rightarrow> throw (GasTreasuryNotConfiguredError (''Cannot provision gas on '' @ chain
          @ '': no gas treasury is configured. Set CIXTECH_GAS_TREASURY_ADDRESS and CIXTECH_GAS_TREASURY_INDEX, or token payouts on this chain cannot pay their own fee.''))
      | Some fund \<Rightarrow>
          bind (floatStatus g chain) (\<lambda>status.
            if \<not> gf_healthy status
            then bind (trip_if_set (gt_breaker g) (''gas_float:'' @ chain @ '' below floor; refusing to provision gas'')) (\<lambda>_.
                 bind (lift (configFor g chain)) (\<lambda>c.
                   throw (GasFloatDepletedError (''Gas float for '' @ chain @ '' is below its floor (''
                     @ show_int (gf_balance status) @ '' < '' @ show_int (gf_floor status) @ '' ''
                     @ gn_nativeAsset c @ '' base units) '' @ [CHR 0xE2, CHR 0x80, CHR 0x94]
                     @ '' top up the gas treasury before retrying this payout.''))))
            else fund chain address minNative key))"

section \<open>Funding gas (broadcaster-gas-funder.ts)\<close>

record gas_funder_config =
  fc_nativeAssetOf :: "string \<Rightarrow> string"
  fc_treasuryOf :: "string \<Rightarrow> (string \<times> int) option"
  fc_topUpMultiple :: "int option"
  fc_authorizer :: "AuthorizationSigner option"

definition gas_request :: "string \<Rightarrow> string \<Rightarrow> int \<Rightarrow> string \<Rightarrow> int \<Rightarrow> string \<Rightarrow> string \<Rightarrow> PayoutRequest" where
  "gas_request chain native amount from_address from_index to_address key =
     \<lparr>pq_chain = chain, pq_asset = native, pq_amountBaseUnits = amount, pq_fromAddress = from_address,
      pq_fromDerivationIndex = from_index, pq_toAddress = to_address, pq_idempotencyKey = Some key,
      pq_authorization = None\<rparr>"

definition internally_authorized ::
  "AuthorizationSigner option \<Rightarrow> string \<Rightarrow> string \<Rightarrow> int \<Rightarrow> PayoutRequest \<Rightarrow> PayoutRequest" where
  "internally_authorized authorizer key purpose now req =
     (case authorizer of
        None \<Rightarrow> req
      | Some sg \<Rightarrow> req\<lparr>pq_authorization := Some (mintInternalAuthorization sg key req purpose now INTERNAL_AUTH_TTL_MS)\<rparr>)"

definition fund ::
  "World PayoutBroadcaster \<Rightarrow> (World \<Rightarrow> AddressBalance) \<Rightarrow> gas_funder_config \<Rightarrow> int \<Rightarrow> World provisioner" where
  "fund send bal cfg now chain address minNative key =
     (let native = fc_nativeAssetOf cfg chain in
      bind (\<lambda>w. (bal w chain address native, w)) (\<lambda>held.
        if held \<ge> minNative then ret 0
        else case fc_treasuryOf cfg chain of
          None \<Rightarrow> throw (JsError (''No gas treasury configured for '' @ chain @ ''; cannot fund '' @ address
            @ '' to send a token transfer''))
        | Some (tre, idx) \<Rightarrow>
            let target = minNative * the_default 1 (fc_topUpMultiple cfg);
                amount = target - held;
                req = gas_request chain native amount tre idx address key
            in bind (send (internally_authorized (fc_authorizer cfg) key ''gas-top-up'' now req)) (\<lambda>_. ret amount)))"

section \<open>External reconciliation (external-reconciler.ts)\<close>

record ExternalDriftRow =
  ed_tenant :: string
  ed_merchant :: string
  ed_chain :: string
  ed_asset :: string
  ed_ledger :: int
  ed_onChain :: int

fun onChain_loop :: "AddressBalance \<Rightarrow> string \<Rightarrow> string \<Rightarrow> string list \<Rightarrow> int \<Rightarrow> app_error + int" where
  "onChain_loop bal chain asset [] acc = Inr acc"
| "onChain_loop bal chain asset (a # as) acc =
     rbind (bal chain a asset) (\<lambda>b. onChain_loop bal chain asset as (acc + b))"

definition group_drift ::
  "AddressBalance \<Rightarrow> SqlLedger \<Rightarrow> PoolGroup \<Rightarrow> string \<Rightarrow> app_error + ExternalDriftRow list" where
  "group_drift bal s g asset =
     (let ledgerBal = sql_balance (''pool_addr:'' @ pg_chain g @ '':'' @ pg_merchant g) asset s in
      rbind (onChain_loop bal (pg_chain g) asset (pg_addresses g) 0) (\<lambda>onChain.
        Inr (if ledgerBal \<noteq> onChain
          then [\<lparr>ed_tenant = pg_tenant g, ed_merchant = pg_merchant g, ed_chain = pg_chain g,
            ed_asset = asset, ed_ledger = ledgerBal, ed_onChain = onChain\<rparr>] else [])))"

fun drift_loop ::
  "AddressBalance \<Rightarrow> SqlLedger \<Rightarrow> (PoolGroup \<times> string) list \<Rightarrow> app_error + ExternalDriftRow list" where
  "drift_loop bal s [] = Inr []"
| "drift_loop bal s ((g, a) # rest) =
     rbind (group_drift bal s g a) (\<lambda>d. rbind (drift_loop bal s rest) (\<lambda>ds. Inr (d @ ds)))"

definition drift_summary :: "ExternalDriftRow list \<Rightarrow> string" where
  "drift_summary drift = join_with ''; '' (map (\<lambda>d. ed_chain d @ ''/'' @ ed_merchant d @ ''/'' @ ed_asset d
     @ '': ledger '' @ show_int (ed_ledger d) @ '' vs chain '' @ show_int (ed_onChain d)) drift)"

text \<open>The loops only read, so they run on the state at the start; the result is the drift and
  whether the breaker was tripped.\<close>

definition reconcile_run ::
  "(World \<Rightarrow> AddressBalance) \<Rightarrow> string list \<Rightarrow> ReconcilerBreaker option \<Rightarrow>
   (World, app_error, ExternalDriftRow list \<times> bool) eff" where
  "reconcile_run bal assets breaker =
     bind (\<lambda>w. (drift_loop (bal w) (w_ledger w)
         [(g, a). g \<leftarrow> poolGroups (w_pool w), a \<leftarrow> assets], w)) (\<lambda>drift.
       case breaker of
         None \<Rightarrow> ret (drift, False)
       | Some trip \<Rightarrow>
           if drift = [] then ret (drift, False)
           else bind (trip (''External reconciliation drift: '' @ drift_summary drift)) (\<lambda>_. ret (drift, True)))"

section \<open>Moving a leg\<close>

text \<open>A gather strategy is its \<open>prepare\<close> method; the transfers of a payout and of a sweep both
  prepare the address first, when a registry is configured.\<close>

type_synonym strategy = "PrepareGatherInput \<Rightarrow> (World, app_error, int) eff"

definition prepare_leg ::
  "strategy registry option \<Rightarrow> string \<Rightarrow> string \<Rightarrow> string \<Rightarrow> GatheredLeg \<Rightarrow> (World, app_error, unit) eff" where
  "prepare_leg strategies chain asset legKey leg =
     (case strategies of
        None \<Rightarrow> ret ()
      | Some reg \<Rightarrow>
          bind (lift (forAddress (gs_gatherStrategy leg) reg)) (\<lambda>prep.
          bind (prep \<lparr>pg_in_chain = chain, pg_in_address = gs_address leg,
              pg_in_derivationIndex = gs_derivationIndex leg, pg_in_asset = asset,
              pg_in_amountBaseUnits = gl_amountBaseUnits leg, pg_in_idempotencyKey = legKey\<rparr>) (\<lambda>_. ret ())))"

definition leg_request :: "string \<Rightarrow> string \<Rightarrow> string \<Rightarrow> string \<Rightarrow> GatheredLeg \<Rightarrow> PayoutRequest" where
  "leg_request chain asset to_address legKey leg =
     \<lparr>pq_chain = chain, pq_asset = asset, pq_amountBaseUnits = gl_amountBaseUnits leg,
      pq_fromAddress = gs_address leg, pq_fromDerivationIndex = gs_derivationIndex leg,
      pq_toAddress = to_address, pq_idempotencyKey = Some legKey, pq_authorization = None\<rparr>"

definition post_feeSwept :: "string \<Rightarrow> string \<Rightarrow> string \<Rightarrow> string \<Rightarrow> int \<Rightarrow> int \<Rightarrow> (World, app_error, bool) eff" where
  "post_feeSwept legKey chain merchant asset amount now =
     bind (lift (feeSwept \<lparr>fs_id = legKey, fs_idempotencyKey = legKey, fs_asset = mk_Asset asset,
         fs_amount = amount, fs_poolAddr = ''pool_addr:'' @ chain @ '':'' @ merchant,
         fs_treasury = ''treasury:'' @ chain, fs_networkFee = None, fs_occurredAt = now\<rparr>)) (\<lambda>e.
       on_ledger (post SqlLedgerStore e))"

text \<open>The optional lease: without one, acquiring always succeeds and releasing does nothing.\<close>

definition take_lease ::
  "int option \<Rightarrow> string \<Rightarrow> string \<Rightarrow> string \<Rightarrow> string \<Rightarrow> int \<Rightarrow> World \<Rightarrow> bool \<times> World" where
  "take_lease ttl tenant merchant chain holder now w =
     (case ttl of
        None \<Rightarrow> (True, w)
      | Some ms \<Rightarrow> (case lease_acquire ms tenant merchant chain holder now (w_lease w) of
          (got, tbl) \<Rightarrow> (got, w\<lparr>w_lease := tbl\<rparr>)))"

definition give_lease :: "int option \<Rightarrow> string \<Rightarrow> string \<Rightarrow> string \<Rightarrow> string \<Rightarrow> World \<Rightarrow> World" where
  "give_lease ttl tenant merchant chain holder w =
     (case ttl of
        None \<Rightarrow> w
      | Some _ \<Rightarrow> w\<lparr>w_lease := lease_release tenant merchant chain holder (w_lease w)\<rparr>)"

section \<open>The fee sweep (fee-sweep.service.ts)\<close>

record FeeSweepServiceOptions =
  ss_treasuryAddressFor :: "string \<Rightarrow> string option"
  ss_gatherStrategies :: "strategy registry option"
  ss_authorizer :: "AuthorizationSigner option"
  ss_gatherLease :: "int option"
  ss_killSwitch :: "(PayoutContext \<Rightarrow> (World, app_error, bool) eff) option"

record FeeSweepResult =
  fr_sweptCount :: nat
  fr_totalSweptAmount :: int
  fr_skipped :: "(string \<times> string \<times> string) list"

definition skip_sweep :: "string \<Rightarrow> string \<Rightarrow> string \<Rightarrow> FeeSweepResult \<Rightarrow> FeeSweepResult" where
  "skip_sweep merchant chain reason acc = acc\<lparr>fr_skipped := fr_skipped acc @ [(merchant, chain, reason)]\<rparr>"

definition em_dash :: string where
  "em_dash = [CHR 0xE2, CHR 0x80, CHR 0x94]"

text \<open>\<open>poolAddress.groups\<close>: the distinct groups ordered by chain and merchant.\<close>

definition sweep_groups :: "pool_table \<Rightarrow> (string \<times> string \<times> string) list" where
  "sweep_groups tbl = map (\<lambda>(c, m, t). (t, m, c))
     (sort (remdups (map (\<lambda>r. (pa_chain r, pa_merchant r, pa_tenant r)) tbl)))"

definition sweep_legKey :: "string \<Rightarrow> string \<Rightarrow> GatheredLeg \<Rightarrow> string" where
  "sweep_legKey chain asset leg = ''fee-sweep:'' @ chain @ '':'' @ gs_address leg @ '':'' @ asset @ '':''
     @ show_int (gl_amountBaseUnits leg)"

definition sweep_leg ::
  "World PayoutBroadcaster \<Rightarrow> FeeSweepServiceOptions \<Rightarrow> int \<Rightarrow> string \<Rightarrow> string \<Rightarrow> string \<Rightarrow> string \<Rightarrow>
   GatheredLeg \<Rightarrow> FeeSweepResult \<Rightarrow> (World, app_error, FeeSweepResult) eff" where
  "sweep_leg send opts now asset merchant chain tre leg acc =
     (let legKey = sweep_legKey chain asset leg in
      try_catch
        (bind (prepare_leg (ss_gatherStrategies opts) chain asset legKey leg) (\<lambda>_.
         bind (send (internally_authorized (ss_authorizer opts) legKey ''fee-sweep'' now
             (leg_request chain asset tre legKey leg))) (\<lambda>_.
         bind (post_feeSwept legKey chain merchant asset (gl_amountBaseUnits leg) now) (\<lambda>_.
           ret (acc\<lparr>fr_sweptCount := fr_sweptCount acc + 1,
             fr_totalSweptAmount := fr_totalSweptAmount acc + gl_amountBaseUnits leg\<rparr>)))))
        (\<lambda>err. ret (skip_sweep merchant chain (err_message err) acc)))"

definition sweep_legs ::
  "World PayoutBroadcaster \<Rightarrow> FeeSweepServiceOptions \<Rightarrow> (World \<Rightarrow> AddressBalance) \<Rightarrow> int \<Rightarrow> int \<Rightarrow> string \<Rightarrow>
   string \<Rightarrow> string \<Rightarrow> string \<Rightarrow> string \<Rightarrow> FeeSweepResult \<Rightarrow> (World, app_error, FeeSweepResult) eff" where
  "sweep_legs send opts bal dust now asset tenant merchant chain tre acc =
     bind (\<lambda>w. (plan (bal w) dust tenant merchant chain asset [] w, w)) (\<lambda>p.
       if fp_claimBaseUnits p \<le> 0 then ret acc
       else if fp_legs p = []
       then ret (skip_sweep merchant chain
         (if fp_skippedDust p > 0 then ''claim is below the dust threshold '' @ em_dash @ '' not worth the gas''
          else ''claim is not held on this chain'') acc)
       else for_each (sweep_leg send opts now asset merchant chain tre) (fp_legs p) acc)"

definition sweep_group ::
  "World PayoutBroadcaster \<Rightarrow> FeeSweepServiceOptions \<Rightarrow> (World \<Rightarrow> AddressBalance) \<Rightarrow> int \<Rightarrow> int \<Rightarrow> string \<Rightarrow>
   string \<times> string \<times> string \<Rightarrow> FeeSweepResult \<Rightarrow> (World, app_error, FeeSweepResult) eff" where
  "sweep_group send opts bal dust now asset = (\<lambda>(tenant, merchant, chain) acc w.
     case ss_treasuryAddressFor opts chain of
       None \<Rightarrow> (Inr (skip_sweep merchant chain ''no treasury address configured'' acc), w)
     | Some tre \<Rightarrow>
         if tre = [] then (Inr (skip_sweep merchant chain ''no treasury address configured'' acc), w)
         else let holder = ''console-sweep:'' @ asset in
           case take_lease (ss_gatherLease opts) tenant merchant chain holder now w of (held, w1) \<Rightarrow>
             if \<not> held
             then (Inr (skip_sweep merchant chain ''a payout is spending these addresses right now'' acc), w1)
             else try_finally (sweep_legs send opts bal dust now asset tenant merchant chain tre acc)
               (give_lease (ss_gatherLease opts) tenant merchant chain holder) w1)"

definition sweep ::
  "World PayoutBroadcaster \<Rightarrow> FeeSweepServiceOptions \<Rightarrow> (World \<Rightarrow> AddressBalance) \<Rightarrow> int \<Rightarrow> int \<Rightarrow> string \<Rightarrow>
   (World, app_error, FeeSweepResult) eff" where
  "sweep send opts bal dust now asset =
     bind (ask (ss_killSwitch opts) (\<lambda>ks. ks
         \<lparr>cx_tenant = [], cx_merchant = [], cx_chain = [], cx_asset = asset, cx_amountBaseUnits = 0,
          cx_destination = [], cx_requester = None, cx_approvals = None, cx_requestedAt = None\<rparr>) False) (\<lambda>halted.
       if halted
       then throw (SweepHaltedError (''Kill-switch is engaged '' @ em_dash
         @ '' refusing to move funds. Resume payouts first.''))
       else bind (reads (\<lambda>w. sweep_groups (w_pool w))) (\<lambda>groups.
         for_each (sweep_group send opts bal dust now asset) groups
           \<lparr>fr_sweptCount = 0, fr_totalSweptAmount = 0, fr_skipped = []\<rparr>))"

section \<open>The deployment (engine.ts, server.ts)\<close>

text \<open>What the environment of the process decides: the chain and its balances, the policy key,
  the gas rules per chain, the gas treasury, the fee treasury and the dust threshold.\<close>

record deployment =
  dp_chain :: chain_outcome
  dp_balances :: "World \<Rightarrow> AddressBalance"
  dp_chains :: "string list"
  dp_authorizer :: "AuthorizationSigner option"
  dp_gasRules :: "(string, int) jsmap"
  dp_nativeAsset :: "(string, string) jsmap"
  dp_gasTreasuryOf :: "string \<Rightarrow> (string \<times> int) option"
  dp_feeTreasuryAddressFor :: "string \<Rightarrow> string option"
  dp_dust :: int

definition engine_broadcaster :: "deployment \<Rightarrow> int \<Rightarrow> World PayoutBroadcaster" where
  "engine_broadcaster d now =
     (case dp_authorizer d of
        None \<Rightarrow> chain_send (dp_chain d)
      | Some sg \<Rightarrow> authorizing_send (chain_send (dp_chain d)) sg auth_require now)"

definition GAS_TOP_UP_MULTIPLE :: int where
  "GAS_TOP_UP_MULTIPLE = 3"

definition server_gasConfigs :: "deployment \<Rightarrow> (string, GasStationConfig) jsmap" where
  "server_gasConfigs d = foldl (\<lambda>m c. AList.update c
     \<lparr>gn_nativeAsset = map_get_or (dp_nativeAsset d) c [], gn_floorBaseUnits = map_get_or (dp_gasRules d) c 0 * 10\<rparr> m)
     [] (dp_chains d)"

definition server_funder :: "deployment \<Rightarrow> gas_funder_config" where
  "server_funder d =
     \<lparr>fc_nativeAssetOf = (\<lambda>c. map_get_or (dp_nativeAsset d) c []), fc_treasuryOf = dp_gasTreasuryOf d,
      fc_topUpMultiple = Some GAS_TOP_UP_MULTIPLE, fc_authorizer = dp_authorizer d\<rparr>"

definition server_gasStation :: "deployment \<Rightarrow> int \<Rightarrow> GasStation" where
  "server_gasStation d now =
     \<lparr>gt_float = treasury_float (dp_balances d) (\<lambda>c. map_option fst (dp_gasTreasuryOf d c)),
      gt_configs = server_gasConfigs d,
      gt_funder = (if list_ex (\<lambda>c. dp_gasTreasuryOf d c \<noteq> None) (dp_chains d)
        then Some (fund (engine_broadcaster d now) (dp_balances d) (server_funder d) now) else None),
      gt_breaker = None\<rparr>"

definition server_strategies :: "deployment \<Rightarrow> int \<Rightarrow> strategy registry" where
  "server_strategies d now =
     [(EOA_FUND_TRANSFER, eoa_prepare (Some (provision (server_gasStation d now)))
       (map_of (dp_gasRules d)) (map_of (dp_nativeAsset d)))]"

definition server_sweep_options :: "deployment \<Rightarrow> int \<Rightarrow> FeeSweepServiceOptions" where
  "server_sweep_options d now =
     \<lparr>ss_treasuryAddressFor = dp_feeTreasuryAddressFor d, ss_gatherStrategies = Some (server_strategies d now),
      ss_authorizer = dp_authorizer d, ss_gatherLease = Some DEFAULT_TTL_MS,
      ss_killSwitch = Some (\<lambda>ctx. on_policy (kill_engaged GLOBAL ctx))\<rparr>"

abbreviation sweepFees :: "deployment \<Rightarrow> int \<Rightarrow> string \<Rightarrow> (World, app_error, FeeSweepResult) eff" where
  "sweepFees d now \<equiv> sweep (engine_broadcaster d now) (server_sweep_options d now) (dp_balances d) (dp_dust d) now"

interpretation engine: payout_sender "engine_broadcaster d now" for d now
  unfolding engine_broadcaster_def
  by (auto split: option.splits intro: chain.payout_sender_axioms auth_chain.payout_sender_axioms)

section \<open>The contract of a gather strategy\<close>

text \<open>Preparing an address may only send transfers to that address, and touches no books.\<close>

abbreviation top_up_of :: "PrepareGatherInput \<Rightarrow> PayoutRequest \<Rightarrow> bool" where
  "top_up_of i q \<equiv> pq_chain q = pg_in_chain i \<and> pq_toAddress q = pg_in_address i"

locale gather_preparer =
  fixes prep :: strategy
  assumes prep_frame: "sent_after (top_up_of i) w (snd (prep i w))"

lemma internally_authorized_fields [simp]:
  "pq_chain (internally_authorized a k p n q) = pq_chain q"
  "pq_toAddress (internally_authorized a k p n q) = pq_toAddress q"
  "pq_fromAddress (internally_authorized a k p n q) = pq_fromAddress q"
  "pq_amountBaseUnits (internally_authorized a k p n q) = pq_amountBaseUnits q"
  "pq_asset (internally_authorized a k p n q) = pq_asset q"
  by (simp_all add: internally_authorized_def split: option.splits)

text \<open>What funding an address does: nothing when it holds enough, else one transfer of the
  difference to the target from the treasury.\<close>

definition top_up :: "gas_funder_config \<Rightarrow> string \<Rightarrow> string \<Rightarrow> int \<Rightarrow> string \<Rightarrow> int \<Rightarrow> int \<Rightarrow> string \<times> int \<Rightarrow> PayoutRequest" where
  "top_up cfg chain address minNative key now held t =
     internally_authorized (fc_authorizer cfg) key ''gas-top-up'' now
       (gas_request chain (fc_nativeAssetOf cfg chain) (minNative * the_default 1 (fc_topUpMultiple cfg) - held)
         (fst t) (snd t) address key)"

lemma fund_run:
  "fund send bal cfg now chain address minNative key w =
     (case bal w chain address (fc_nativeAssetOf cfg chain) of
        Inl e \<Rightarrow> (Inl e, w)
      | Inr held \<Rightarrow>
          if minNative \<le> held then (Inr 0, w)
          else case fc_treasuryOf cfg chain of
            None \<Rightarrow> (Inl (JsError (''No gas treasury configured for '' @ chain @ ''; cannot fund '' @ address
              @ '' to send a token transfer'')), w)
          | Some t \<Rightarrow> bind (send (top_up cfg chain address minNative key now held t))
              (\<lambda>_. ret (minNative * the_default 1 (fc_topUpMultiple cfg) - held)) w)"
  by (auto simp: fund_def bind_def Let_def ret_def throw_def top_up_def split: sum.splits option.splits)

lemma fund_frame:
  assumes "payout_sender send"
  shows "sent_after (\<lambda>q. pq_chain q = chain \<and> pq_toAddress q = address) w
    (snd (fund send bal cfg now chain address minNative key w))"
proof -
  have "sent_after (\<lambda>q. pq_chain q = chain \<and> pq_toAddress q = address) w
      (snd (bind (send (top_up cfg chain address minNative key now held t)) (\<lambda>_. ret n) w))" for held t n
    using payout_sender.send_sent_after [OF assms, of "\<lambda>q. pq_chain q = chain \<and> pq_toAddress q = address"
        "top_up cfg chain address minNative key now held t" w]
    by (auto simp: bind_def ret_def top_up_def gas_request_def split: prod.splits sum.splits)
  then show ?thesis by (auto simp: fund_run split: sum.splits option.splits)
qed

lemma fund_Inr:
  assumes "payout_sender send" "fund send bal cfg now chain address minNative key w = (Inr n, w')"
  obtains held where "bal w chain address (fc_nativeAssetOf cfg chain) = Inr held" "minNative \<le> held" "n = 0" "w' = w"
  | held t tx where "bal w chain address (fc_nativeAssetOf cfg chain) = Inr held" "held < minNative"
      "fc_treasuryOf cfg chain = Some t" "n = minNative * the_default 1 (fc_topUpMultiple cfg) - held"
      "w' = w\<lparr>w_sent := w_sent w @ [(top_up cfg chain address minNative key now held t, Inr tx)]\<rparr>"
  using assms(2)
  by (auto simp: fund_run bind_def ret_def split: sum.splits option.splits if_splits prod.splits
      dest!: payout_sender.send_ok [OF assms(1)])

lemma treasury_float_pure: "snd (treasury_float bal t c a w) = w"
  by (auto simp: treasury_float_def ret_def split: option.splits)

lemma floatStatus_pure:
  assumes "\<And>c a w. snd (gt_float g c a w) = w"
  shows "snd (floatStatus g chain w) = w"
  using assms [of chain] by (auto simp: floatStatus_def bind_def lift_def ret_def split: prod.splits sum.splits)
    (metis snd_conv)+

lemma provision_frame:
  "sent_after (\<lambda>q. pq_chain q = chain \<and> pq_toAddress q = address) w
    (snd (provision (server_gasStation d now) chain address minNative key w))"
proof -
  let ?g = "server_gasStation d now"
  obtain r w1 where st: "floatStatus ?g chain w = (r, w1)" by fastforce
  have "snd (floatStatus ?g chain w) = w"
    by (rule floatStatus_pure) (simp add: server_gasStation_def treasury_float_pure)
  with st have "w1 = w" by simp
  with st fund_frame [OF engine.payout_sender_axioms, of chain address w d now "dp_balances d" "server_funder d" now minNative key]
  show ?thesis
    by (cases r)
      (auto simp: provision_def server_gasStation_def bind_def throw_def lift_def trip_if_set_def ret_def
        split: sum.splits)
qed

interpretation server_eoa: gather_preparer
  "eoa_prepare (Some (provision (server_gasStation d now))) gasRequirement nativeAssetOf"
  for d now gasRequirement nativeAssetOf
  by unfold_locales (auto simp: eoa_prepare_def ret_def split: option.splits intro: provision_frame)

definition strategies_ok :: "strategy registry option \<Rightarrow> bool" where
  "strategies_ok reg \<longleftrightarrow> (\<forall>m. reg = Some m \<longrightarrow> (\<forall>p \<in> snd ` set m. gather_preparer p))"

lemma server_strategies_ok [simp]: "strategies_ok (Some (server_strategies d now))"
  by (simp add: strategies_ok_def server_strategies_def server_eoa.gather_preparer_axioms)

lemma prepare_leg_frame:
  assumes "strategies_ok reg"
  shows "sent_after (\<lambda>q. pq_chain q = chain \<and> pq_toAddress q = gs_address leg) w
    (snd (prepare_leg reg chain asset legKey leg w))"
proof -
  have "sent_after (\<lambda>q. pq_chain q = chain \<and> pq_toAddress q = gs_address leg) w
      (snd (p \<lparr>pg_in_chain = chain, pg_in_address = gs_address leg, pg_in_derivationIndex = gs_derivationIndex leg,
        pg_in_asset = asset, pg_in_amountBaseUnits = gl_amountBaseUnits leg, pg_in_idempotencyKey = legKey\<rparr> w))"
    if "reg = Some m" "map_of m k = Some p" for m k p
  proof -
    from assms that map_of_in_values [of m k p] have "gather_preparer p" by (auto simp: strategies_ok_def)
    from gather_preparer.prep_frame [OF this] show ?thesis by (rule sent_after_mono) simp
  qed
  then show ?thesis
    by (auto simp: prepare_leg_def ret_def bind_def lift_def forAddress_def split: option.splits prod.splits sum.splits)
      fastforce+
qed

lemma server_gasConfigs_lookup:
  assumes "map_of (server_gasConfigs d) chain = Some c"
  shows "c = \<lparr>gn_nativeAsset = map_get_or (dp_nativeAsset d) chain [],
    gn_floorBaseUnits = map_get_or (dp_gasRules d) chain 0 * 10\<rparr>"
proof -
  have "map_of (foldl (\<lambda>m k. AList.update k (f k) m) m cs) x = Some v \<Longrightarrow> map_of m x = Some v \<or> v = f x"
    for f :: "string \<Rightarrow> GasStationConfig" and m cs x v
    by (induction cs arbitrary: m) (fastforce simp: update_conv' split: if_splits)+
  from this [OF assms [unfolded server_gasConfigs_def]] show ?thesis by simp
qed

section \<open>Sizing a sweep: lemmas\<close>

lemma plan_loop_legs:
  "plan_loop bal dust chain asset reserved remaining as = Inr (legs, n) \<Longrightarrow>
     (0 \<le> remaining \<longrightarrow> sum_list (map gl_amountBaseUnits legs) \<le> remaining)
     \<and> subseq (map gs_address legs) (map pa_address as)
     \<and> (\<forall>l \<in> set legs. 0 < gl_amountBaseUnits l \<and> dust \<le> gl_amountBaseUnits l
        \<and> (\<exists>b. bal chain (gs_address l) asset = Inr b \<and> gl_amountBaseUnits l \<le> b - map_get_or reserved (gs_address l) 0))"
proof (induction as arbitrary: remaining legs n)
  case (Cons a as)
  show ?case
  proof (cases "remaining \<le> 0")
    case True
    with Cons.prems show ?thesis by auto
  next
    case False
    with Cons.prems obtain b where b: "bal chain (pa_address a) asset = Inr b"
      by (auto simp: rbind_Inr_iff)
    let ?free = "b - map_get_or reserved (pa_address a) 0"
    let ?tk = "if ?free < remaining then ?free else remaining"
    consider (none) "?free \<le> 0" | (dust) "0 < ?free" "?tk < dust" | (take) "0 < ?free" "dust \<le> ?tk" by linarith
    then show ?thesis
    proof cases
      case none
      with Cons.prems False b have "plan_loop bal dust chain asset reserved remaining as = Inr (legs, n)"
        by (simp add: Let_def)
      from Cons.IH [OF this] show ?thesis by auto
    next
      case dust
      with Cons.prems False b obtain n' where "plan_loop bal dust chain asset reserved remaining as = Inr (legs, n')"
        by (auto simp: Let_def rbind_Inr_iff)
      from Cons.IH [OF this] show ?thesis by auto
    next
      case take
      with Cons.prems False b obtain legs' where
        l: "plan_loop bal dust chain asset reserved (remaining - ?tk) as = Inr (legs', n)"
          "legs = \<lparr>gs_address = pa_address a, gs_derivationIndex = pa_derivationIndex a,
            gs_gatherStrategy = pa_gatherStrategy a, gl_amountBaseUnits = ?tk\<rparr> # legs'"
        by (auto simp: Let_def rbind_Inr_iff split: if_splits)
      from Cons.IH [OF l(1)] l(2) take b False show ?thesis by auto
    qed
  qed
qed simp

lemma plan_fields:
  assumes "plan bal dust tenant merchant chain asset reserved w = Inr p"
  shows "claim tenant merchant asset (w_ledger w) = Inr (fp_claimBaseUnits p)"
    and "fp_totalBaseUnits p = sum_list (map gl_amountBaseUnits (fp_legs p))"
    and "fp_legs p = [] \<or> plan_loop bal dust chain asset reserved (fp_claimBaseUnits p)
      (addressesForMerchant tenant merchant chain (w_pool w)) = Inr (fp_legs p, fp_skippedDust p)"
  using assms by (auto simp: plan_def rbind_Inr_iff Let_def split: if_splits)

lemma subseq_set_mono: "subseq xs ys \<Longrightarrow> set xs \<subseteq> set ys"
  by (auto elim: list_emb_set)

lemma plan_addresses:
  assumes "plan bal dust tenant merchant chain asset reserved w = Inr p"
  shows "set (map gs_address (fp_legs p)) \<subseteq> pa_address ` set (w_pool w)"
proof -
  from plan_fields(3) [OF assms]
  have "subseq (map gs_address (fp_legs p)) (map pa_address (addressesForMerchant tenant merchant chain (w_pool w)))"
    using plan_loop_legs by fastforce
  from subseq_set_mono [OF this] show ?thesis by (auto simp: addressesForMerchant_def)
qed

lemma claim_nonneg: "claim tenant merchant asset s = Inr c \<Longrightarrow> 0 \<le> c"
  by (auto simp: claim_def rbind_Inr_iff Let_def split: if_splits)

section \<open>The sweep: lemmas\<close>

text \<open>A sweep posts on treasury and pool accounts only, and sends only to the treasury address
  of the chain or, for gas, to a pool address.\<close>

definition sweep_posting :: "Posting \<Rightarrow> bool" where
  "sweep_posting p \<longleftrightarrow> startsWith (p_account p) ''treasury:'' \<or> startsWith (p_account p) ''pool_addr:''"

definition sweep_request :: "(string \<Rightarrow> string option) \<Rightarrow> pool_table \<Rightarrow> PayoutRequest \<Rightarrow> bool" where
  "sweep_request treasuryFor tbl q \<longleftrightarrow>
     treasuryFor (pq_chain q) = Some (pq_toAddress q) \<or> pq_toAddress q \<in> pa_address ` set tbl"

lemma startsWith_lit [simp]: "startsWith (p @ s) q \<longleftrightarrow> startsWith p q" if "length q \<le> length p"
  using that by (simp add: startsWith_def)

lemma moved_feeSwept:
  assumes "\<And>p. sweep_posting p \<Longrightarrow> A p"
  shows "preserves (moved A P w0) (post_feeSwept k c m a n now)"
proof -
  have "\<forall>p \<in> set (je_postings e). A p" if "feeSwept \<lparr>fs_id = k, fs_idempotencyKey = k, fs_asset = mk_Asset a,
         fs_amount = n, fs_poolAddr = ''pool_addr:'' @ c @ '':'' @ m,
         fs_treasury = ''treasury:'' @ c, fs_networkFee = None, fs_occurredAt = now\<rparr> = Inr e" for e
    using that by (auto simp: feeSwept_def checked_entry_def rbind_Inr_iff networkFeePostings_def sweep_posting_def
        startsWith_def split: if_splits intro!: assms)
  then show ?thesis unfolding post_feeSwept_def
    by (auto simp: preserves_def bind_def lift_def split: sum.splits intro!: moved_post [THEN preservesD])
qed

lemma moved_lease [simp]: "moved A P w0 (w\<lparr>w_lease := t\<rparr>) = moved A P w0 w"
  by (simp add: moved_def)

lemma moved_give_lease [simp]: "moved A P w0 (give_lease ttl t m c h w) = moved A P w0 w"
  by (simp add: give_lease_def split: option.splits)

lemma moved_take_lease: "take_lease ttl t m c h now w = (b, w') \<Longrightarrow> moved A P w0 w' = moved A P w0 w"
  by (auto simp: take_lease_def split: option.splits prod.splits)

lemma sweep_leg_moved:
  assumes "payout_sender send" "strategies_ok (ss_gatherStrategies opts)"
    and "ss_treasuryAddressFor opts chain = Some tre" "gs_address leg \<in> pa_address ` set tbl"
  shows "preserves (moved sweep_posting (sweep_request (ss_treasuryAddressFor opts) tbl) w0)
    (sweep_leg send opts now asset merchant chain tre leg acc)"
proof -
  let ?P = "sweep_request (ss_treasuryAddressFor opts) tbl"
  have "preserves (moved sweep_posting ?P w0) (prepare_leg (ss_gatherStrategies opts) chain asset k leg)" for k
    using assms(4)
    by (intro moved_step sent_after_moved sent_after_mono [OF prepare_leg_frame [OF assms(2)]])
      (auto simp: sweep_request_def)
  moreover have "preserves (moved sweep_posting ?P w0)
      (send (internally_authorized a k p now (leg_request chain asset tre k leg)))" for a k p
    using assms(3)
    by (intro payout_sender.moved_send [OF assms(1)]) (simp add: sweep_request_def leg_request_def)
  ultimately show ?thesis unfolding sweep_leg_def Let_def
    by (intro preserves_try_catch preserves_bind preserves_ret moved_feeSwept) simp_all
qed

lemma sweep_legs_moved:
  assumes "payout_sender send" "strategies_ok (ss_gatherStrategies opts)" "ss_treasuryAddressFor opts chain = Some tre"
  shows "preserves (moved sweep_posting (sweep_request (ss_treasuryAddressFor opts) (w_pool w0)) w0)
    (sweep_legs send opts bal dust now asset tenant merchant chain tre acc)"
proof (rule preservesI)
  fix w assume m: "moved sweep_posting (sweep_request (ss_treasuryAddressFor opts) (w_pool w0)) w0 w" (is "?M w")
  show "?M (snd (sweep_legs send opts bal dust now asset tenant merchant chain tre acc w))"
  proof (cases "plan (bal w) dust tenant merchant chain asset [] w")
    case (Inl e)
    with m show ?thesis by (simp add: sweep_legs_def bind_def)
  next
    case (Inr p)
    have "set (map gs_address (fp_legs p)) \<subseteq> pa_address ` set (w_pool w)"
      by (rule plan_addresses [OF Inr])
    with m have "set (map gs_address (fp_legs p)) \<subseteq> pa_address ` set (w_pool w0)" by (simp add: moved_def)
    then have "preserves ?M (for_each (sweep_leg send opts now asset merchant chain tre) (fp_legs p) acc)"
      by (intro preserves_for_each sweep_leg_moved assms) auto
    with m Inr show ?thesis by (auto simp: sweep_legs_def bind_def ret_def dest: preservesD)
  qed
qed

lemma sweep_group_moved:
  assumes "payout_sender send" "strategies_ok (ss_gatherStrategies opts)"
  shows "preserves (moved sweep_posting (sweep_request (ss_treasuryAddressFor opts) (w_pool w0)) w0)
    (sweep_group send opts bal dust now asset g acc)"
proof (rule preservesI)
  fix w assume m: "moved sweep_posting (sweep_request (ss_treasuryAddressFor opts) (w_pool w0)) w0 w" (is "?M w")
  obtain t mer c where g: "g = (t, mer, c)" by (cases g)
  show "?M (snd (sweep_group send opts bal dust now asset g acc w))"
  proof (cases "ss_treasuryAddressFor opts c")
    case None
    with m g show ?thesis by (simp add: sweep_group_def)
  next
    case (Some tre)
    obtain b w1 where tl: "take_lease (ss_gatherLease opts) t mer c (''console-sweep:'' @ asset) now w = (b, w1)" by fastforce
    with m have "?M w1" by (simp add: moved_take_lease)
    from preservesD [OF sweep_legs_moved [OF assms Some] this] m Some g tl \<open>?M w1\<close> show ?thesis
      by (auto simp: sweep_group_def Let_def try_finally_def split: prod.splits)
        (metis snd_conv)
  qed
qed

section \<open>A concrete deployment\<close>

definition ex_deployment :: deployment where
  "ex_deployment = \<lparr>dp_chain = (\<lambda>l q. Inr (''tx'' @ show_nat (length l))),
     dp_balances = (\<lambda>w c a x. Inr (if x = ''USDT'' then (if a = ''T0'' then 70 else 60)
       else if a = ''Tgas'' then 5000 else 20)),
     dp_chains = [''TRON''], dp_authorizer = None, dp_gasRules = [(''TRON'', 100)],
     dp_nativeAsset = [(''TRON'', ''TRX'')], dp_gasTreasuryOf = (\<lambda>_. Some (''Tgas'', 7)),
     dp_feeTreasuryAddressFor = (\<lambda>_. Some ''Tfee''), dp_dust = 2\<rparr>"

definition ex_world :: World where
  "ex_world = world_init\<lparr>w_pool := ex_gather_pool,
     w_ledger := snd (post SqlLedgerStore (projr (depositFinalized
       \<lparr>df_id = ''d1'', df_idempotencyKey = ''d1'', df_asset = ''USDT'', df_amount = 1000,
        df_feeBasisPoints = 100, df_poolAddr = ''pool_addr:TRON:m'',
        df_merchantAvailable = ''merchant_available:t:m'', df_feeRevenue = ''fee_revenue:t'',
        df_occurredAt = 1\<rparr>)) sql_init)\<rparr>"

section \<open>Properties of the treasury\<close>



text \<open>C22. A fee sweep moves nothing of a merchant's: with the kill switch engaged it is refused and
  changes nothing; otherwise the pool and the approvals stay as they were, every account
  other than the treasury and pool accounts keeps exactly its postings, and every transfer
  sent goes to the fee treasury of its chain or tops up a pool address.\<close>

theorem sweep_moves_only_fees:
  assumes "sweepFees d now asset w = (r, w')"
  shows "(case map_of (pd_kill (w_policy w)) GLOBAL of
      Some k \<Rightarrow> ks_engaged k \<longrightarrow> (\<exists>m. r = Inl (SweepHaltedError m)) \<and> w' = w
    | None \<Rightarrow> True)
    \<and> w_pool w' = w_pool w \<and> w_approvals w' = w_approvals w
    \<and> (\<forall>acc a. \<not> startsWith acc ''treasury:'' \<longrightarrow> \<not> startsWith acc ''pool_addr:'' \<longrightarrow>
         sql_postingsFor acc a (w_ledger w') = sql_postingsFor acc a (w_ledger w))
    \<and> (\<exists>l. w_sent w' = w_sent w @ l \<and> (\<forall>(q, o') \<in> set l.
         dp_feeTreasuryAddressFor d (pq_chain q) = Some (pq_toAddress q) \<or> pq_toAddress q \<in> pa_address ` set (w_pool w)))"
proof -
  let ?M = "moved sweep_posting (sweep_request (dp_feeTreasuryAddressFor d) (w_pool w)) w"
  let ?o = "server_sweep_options d now"
  have ks: "ss_killSwitch ?o = Some (\<lambda>ctx. on_policy (kill_engaged GLOBAL ctx))" by (simp add: server_sweep_options_def)
  have kill: "on_policy (kill_engaged GLOBAL ctx) w =
      (Inr (case map_of (pd_kill (w_policy w)) GLOBAL of None \<Rightarrow> False | Some k \<Rightarrow> ks_engaged k), w)" for ctx
    by (auto simp: zoom_def kill_engaged_def reads_def split: option.splits)
  have "preserves ?M (sweep_group (engine_broadcaster d now) ?o (dp_balances d) (dp_dust d) now asset g acc)" for g acc
    using sweep_group_moved [OF engine.payout_sender_axioms, of ?o] by (simp add: server_sweep_options_def)
  then have "preserves ?M (for_each (sweep_group (engine_broadcaster d now) ?o (dp_balances d) (dp_dust d) now asset) gs acc)"
    for gs acc by (intro preserves_for_each)
  from preservesD [OF this, of w] have fe:
    "?M (snd (for_each (sweep_group (engine_broadcaster d now) ?o (dp_balances d) (dp_dust d) now asset) gs acc w))" for gs acc
    by simp
  have M: "?M w'"
    using assms fe by (auto simp: sweep_def ks ask_def bind_def kill throw_def reads_def split: if_splits option.splits)
      (metis snd_conv)+
  have "sql_postingsFor acc a (w_ledger w') = sql_postingsFor acc a (w_ledger w)"
    if "\<not> startsWith acc ''treasury:''" "\<not> startsWith acc ''pool_addr:''" for acc a
  proof -
    from M obtain ps where "sql_log (w_ledger w') = sql_log (w_ledger w) @ ps" "\<forall>p \<in> set ps. sweep_posting p"
      by (auto simp: moved_def)
    with that show ?thesis
      by (auto simp: sql_postingsFor_def sql_log_def [symmetric] sweep_posting_def filter_empty_conv)
  qed
  moreover have "case map_of (pd_kill (w_policy w)) GLOBAL of
      Some k \<Rightarrow> ks_engaged k \<longrightarrow> (\<exists>m. r = Inl (SweepHaltedError m)) \<and> w' = w | None \<Rightarrow> True"
    using assms by (auto simp: sweep_def ks ask_def bind_def kill throw_def split: option.splits)
  ultimately show ?thesis using M by (simp add: moved_def sweep_request_def)
qed

theorem sweep_moves_only_fees_witness:
  "\<exists>r w'. sweepFees ex_deployment 20 ''USDT'' ex_world = (Inr r, w') \<and> fr_totalSweptAmount r = 10
    \<and> map (\<lambda>(q, o'). (pq_toAddress q, pq_amountBaseUnits q)) (w_sent w') = [(''T0'', 280), (''Tfee'', 10)]
    \<and> sql_postingsFor ''merchant_available:t:m'' ''USDT'' (w_ledger w') =
      sql_postingsFor ''merchant_available:t:m'' ''USDT'' (w_ledger ex_world)"
proof -
  let ?s = "sweepFees ex_deployment 20 ''USDT'' ex_world"
  have c: "(case ?s of (r, w') \<Rightarrow> (map_sum (\<lambda>_. ()) fr_totalSweptAmount r,
      map (\<lambda>(q, o'). (pq_toAddress q, pq_amountBaseUnits q)) (w_sent w'))) =
      (Inr 10, [(''T0'', 280), (''Tfee'', 10)])"
    by code_simp
  obtain r w' where s: "?s = (r, w')" by fastforce
  with c obtain x where e: "r = Inr x" "fr_totalSweptAmount x = 10"
    "map (\<lambda>(q, o'). (pq_toAddress q, pq_amountBaseUnits q)) (w_sent w') = [(''T0'', 280), (''Tfee'', 10)]"
    by (cases r) auto
  have "sql_postingsFor ''merchant_available:t:m'' ''USDT'' (w_ledger w') =
      sql_postingsFor ''merchant_available:t:m'' ''USDT'' (w_ledger ex_world)"
    using sweep_moves_only_fees [OF s] by (simp add: startsWith_def)
  with s e show ?thesis by auto
qed

text \<open>Gas is provisioned only from a healthy float, and in the exact amount: when provisioning
  succeeds, the gas treasury of the chain held at least ten transfers' worth, and either the
  address already held the requirement and nothing was sent, or exactly one transfer was
  sent, from the gas treasury to that address, topping it up to three times the requirement.\<close>

theorem gas_provision_exact:
  assumes "provision (server_gasStation d now) chain address minNative key w = (Inr n, w')"
    and "0 < map_get_or (dp_gasRules d) chain 0"
  shows "\<exists>tre idx float held. dp_gasTreasuryOf d chain = Some (tre, idx)
    \<and> dp_balances d w chain tre (map_get_or (dp_nativeAsset d) chain []) = Inr float
    \<and> map_get_or (dp_gasRules d) chain 0 * 10 \<le> float
    \<and> dp_balances d w chain address (map_get_or (dp_nativeAsset d) chain []) = Inr held
    \<and> (if minNative \<le> held then n = 0 \<and> w' = w
       else n = 3 * minNative - held \<and> (\<exists>q tx. w' = w\<lparr>w_sent := w_sent w @ [(q, Inr tx)]\<rparr>
         \<and> pq_chain q = chain \<and> pq_fromAddress q = tre \<and> pq_toAddress q = address \<and> pq_amountBaseUnits q = n
         \<and> pq_asset q = map_get_or (dp_nativeAsset d) chain []))"
proof -
  let ?g = "server_gasStation d now"
  obtain r w1 where st: "floatStatus ?g chain w = (r, w1)" by fastforce
  have "snd (floatStatus ?g chain w) = w"
    by (rule floatStatus_pure) (simp add: server_gasStation_def treasury_float_pure)
  with st have "w1 = w" by simp
  with st assms(1) obtain status where s: "floatStatus ?g chain w = (Inr status, w)" "gf_healthy status"
    and f: "fund (engine_broadcaster d now) (dp_balances d) (server_funder d) now chain address minNative key w = (Inr n, w')"
    by (cases r) (auto simp: provision_def server_gasStation_def bind_def throw_def lift_def trip_if_set_def ret_def
        split: if_splits option.splits sum.splits)
  from s obtain c float where c: "map_of (server_gasConfigs d) chain = Some c" "gn_floorBaseUnits c \<le> float"
    and t: "dp_gasTreasuryOf d chain = None \<and> float = 0
      \<or> (\<exists>tre idx. dp_gasTreasuryOf d chain = Some (tre, idx) \<and> dp_balances d w chain tre (gn_nativeAsset c) = Inr float)"
    by (auto simp: floatStatus_def configFor_def server_gasStation_def treasury_float_def bind_def lift_def ret_def
        split: option.splits sum.splits prod.splits)
  note C = server_gasConfigs_lookup [OF c(1)]
  from t C c(2) assms(2) obtain tre idx where T: "dp_gasTreasuryOf d chain = Some (tre, idx)"
    "dp_balances d w chain tre (map_get_or (dp_nativeAsset d) chain []) = Inr float" by auto
  from f show ?thesis
  proof (rule fund_Inr [OF engine.payout_sender_axioms])
    fix held assume "dp_balances d w chain address (fc_nativeAssetOf (server_funder d) chain) = Inr held"
      "minNative \<le> held" "n = 0" "w' = w"
    with T C c(2) show ?thesis by (auto simp: server_funder_def)
  next
    fix held u tx
    let ?q = "top_up (server_funder d) chain address minNative key now held u"
    assume h: "dp_balances d w chain address (fc_nativeAssetOf (server_funder d) chain) = Inr held" "held < minNative"
      "fc_treasuryOf (server_funder d) chain = Some u"
      "n = minNative * the_default 1 (fc_topUpMultiple (server_funder d)) - held"
      "w' = w\<lparr>w_sent := w_sent w @ [(?q, Inr tx)]\<rparr>"
    then have "pq_chain ?q = chain \<and> pq_fromAddress ?q = tre \<and> pq_toAddress ?q = address \<and> pq_amountBaseUnits ?q = n
        \<and> pq_asset ?q = map_get_or (dp_nativeAsset d) chain []" "n = 3 * minNative - held"
      using T(1) by (auto simp: top_up_def gas_request_def server_funder_def GAS_TOP_UP_MULTIPLE_def)
    with h T C c(2) show ?thesis
      by (intro exI [of _ tre] exI [of _ idx] exI [of _ float] exI [of _ held]) (auto simp: server_funder_def)
  qed
qed

theorem gas_provision_exact_witness:
  "\<exists>w'. provision (server_gasStation ex_deployment 20) ''TRON'' ''T0'' 100 ''k'' ex_world = (Inr 280, w')
    \<and> (\<exists>q tx. w_sent w' = w_sent ex_world @ [(q, Inr tx)] \<and> pq_fromAddress q = ''Tgas'' \<and> pq_amountBaseUnits q = 280)"
proof -
  let ?s = "provision (server_gasStation ex_deployment 20) ''TRON'' ''T0'' 100 ''k'' ex_world"
  have c: "map_sum (\<lambda>_. ()) id (fst ?s) = Inr 280" "map_get_or (dp_gasRules ex_deployment) ''TRON'' 0 = 100"
    "dp_gasTreasuryOf ex_deployment ''TRON'' = Some (''Tgas'', 7)"
    "dp_balances ex_deployment ex_world ''TRON'' ''T0'' (map_get_or (dp_nativeAsset ex_deployment) ''TRON'' []) = Inr 20"
    by code_simp+
  obtain r w' where s: "?s = (r, w')" by fastforce
  with c(1) have r: "?s = (Inr 280, w')" by (cases r) auto
  from gas_provision_exact [OF this] c(2-) r show ?thesis by auto
qed



end
