(* ===== verification/Payout.thy ===== *)
theory Payout
  imports Treasury
begin

text \<open>
  Payouts: the intent journal (\<open>src/chains/payout/payout-journal.ts\<close>,
  \<open>src/queries/payout.queries.ts\<close>, \<open>payout-journal.schema.ts\<close>) and \<open>PayoutService\<close>
  (\<open>src/services/payout.service.ts\<close>), which composes the journal, the policy, the lease, the
  gatherer, the ledger, the strategies, the authorizer and the broadcaster.

  The clock of a call is its parameter \<open>now\<close>, and the id \<open>randomUUID\<close> returns its parameter
  \<open>uuid\<close>. A database error is not modelled, except the unique index on the intent id.
\<close>

section \<open>The journal (payout-journal.ts)\<close>

record NewIntent =
  ni_idempotencyKey :: string
  ni_requestedBy :: "string option"
  ni_tenant :: string
  ni_merchant :: string
  ni_chain :: string
  ni_asset :: string
  ni_amountBaseUnits :: int
  ni_destination :: string

definition on_intents :: "(PayoutIntent list \<Rightarrow> PayoutIntent list) \<Rightarrow> (World, app_error, unit) eff" where
  "on_intents f = modify (w_intents_update f)"

definition intent_row :: "string \<Rightarrow> int \<Rightarrow> NewIntent \<Rightarrow> PayoutIntent" where
  "intent_row uuid now i =
     \<lparr>pi_id = uuid, pi_idempotencyKey = ni_idempotencyKey i, pi_tenant = ni_tenant i, pi_merchant = ni_merchant i,
      pi_chain = ni_chain i, pi_asset = ni_asset i, pi_amountBaseUnits = ni_amountBaseUnits i,
      pi_destination = ni_destination i, pi_fromAddress = None, pi_txId = None, pi_status = Locked,
      pi_requestedBy = ni_requestedBy i, pi_lastError = None, pi_createdAt = now, pi_updatedAt = now\<rparr>"

definition journal_load :: "string \<Rightarrow> PayoutIntent list \<Rightarrow> PayoutIntent option" where
  "journal_load key tbl = List.find (\<lambda>i. pi_idempotencyKey i = key) tbl"

definition loadById :: "string \<Rightarrow> string \<Rightarrow> PayoutIntent list \<Rightarrow> PayoutIntent option" where
  "loadById tenant i tbl = List.find (\<lambda>r. pi_id r = i \<and> pi_tenant r = tenant) tbl"

text \<open>\<open>INSERT ... ON CONFLICT (idempotency_key) DO NOTHING\<close>; the index on \<open>id\<close> still raises.\<close>

definition intent_insert :: "string \<Rightarrow> int \<Rightarrow> NewIntent \<Rightarrow> (World, app_error, unit) eff" where
  "intent_insert uuid now i =
     bind (reads w_intents) (\<lambda>tbl.
       if list_ex (\<lambda>r. pi_idempotencyKey r = ni_idempotencyKey i) tbl then ret ()
       else if list_ex (\<lambda>r. pi_id r = uuid) tbl
       then throw (ForeignError ''duplicate key value violates unique constraint'' False None (Some ''23505''))
       else on_intents (\<lambda>t. t @ [intent_row uuid now i]))"

definition journal_begin :: "string \<Rightarrow> int \<Rightarrow> NewIntent \<Rightarrow> (World, app_error, PayoutIntent) eff" where
  "journal_begin uuid now i =
     bind (intent_insert uuid now i) (\<lambda>_.
     bind (reads (\<lambda>w. journal_load (ni_idempotencyKey i) (w_intents w))) (\<lambda>row.
       case row of
         None \<Rightarrow> throw (JsError (''payout_intent '' @ ni_idempotencyKey i @ '' vanished after insert''))
       | Some r \<Rightarrow> ret r))"

definition intent_update :: "string \<Rightarrow> (PayoutIntent \<Rightarrow> PayoutIntent) \<Rightarrow> (World, app_error, unit) eff" where
  "intent_update key f = on_intents (map (\<lambda>r. if pi_idempotencyKey r = key then f r else r))"

definition setFrom :: "string \<Rightarrow> string \<Rightarrow> int \<Rightarrow> (World, app_error, unit) eff" where
  "setFrom key from_address now = intent_update key (\<lambda>r. r\<lparr>pi_fromAddress := Some from_address,
     pi_status := Broadcasting, pi_updatedAt := now\<rparr>)"

definition markBroadcast :: "string \<Rightarrow> string \<Rightarrow> int \<Rightarrow> (World, app_error, unit) eff" where
  "markBroadcast key txId now = intent_update key (\<lambda>r. r\<lparr>pi_txId := Some txId, pi_status := Broadcast, pi_updatedAt := now\<rparr>)"

definition markSettled :: "string \<Rightarrow> int \<Rightarrow> (World, app_error, unit) eff" where
  "markSettled key now = intent_update key (\<lambda>r. r\<lparr>pi_status := Settled, pi_updatedAt := now\<rparr>)"

definition markFailed :: "string \<Rightarrow> string \<Rightarrow> int \<Rightarrow> (World, app_error, unit) eff" where
  "markFailed key reason now = intent_update key (\<lambda>r. r\<lparr>pi_status := Failed, pi_lastError := Some (take 500 reason),
     pi_updatedAt := now\<rparr>)"

definition stuck :: "int \<Rightarrow> int \<Rightarrow> PayoutIntent list \<Rightarrow> PayoutIntent list" where
  "stuck olderThanMs now tbl = sort_key pi_updatedAt
     (filter (\<lambda>r. pi_status r \<in> {Locked, Broadcasting, Broadcast} \<and> pi_updatedAt r < now - olderThanMs) tbl)"

section \<open>The service (payout.service.ts)\<close>

record PayoutParams =
  pp_tenant :: string
  pp_merchant :: string
  pp_chain :: string
  pp_asset :: string
  pp_amountBaseUnits :: int
  pp_destination :: string
  pp_idempotencyKey :: string
  pp_requester :: "string option"
  pp_approvals :: "string list option"

record PayoutLeg =
  lg_address :: string
  lg_txId :: string
  lg_amountBaseUnits :: int

record PayoutResult =
  rs_txId :: string
  rs_from :: string
  rs_legs :: "PayoutLeg list option"

text \<open>The collaborators and options of the service; \<open>feeSweep\<close> is the planner's dust threshold
  and the treasury lookup, \<open>gatherLease\<close> the lease's time to live.\<close>

record PayoutService =
  py_check :: "PayoutContext \<Rightarrow> int \<Rightarrow> (World, app_error, unit) eff"
  py_send :: "World PayoutBroadcaster"
  py_balances :: "World \<Rightarrow> AddressBalance"
  py_journal :: bool
  py_authorizer :: "AuthorizationSigner option"
  py_authTtlMs :: int
  py_approvals :: bool
  py_approvalsRequired :: int
  py_feeSweep :: "(int \<times> (string \<Rightarrow> string option)) option"
  py_gatherLease :: "int option"
  py_gatherStrategies :: "strategy registry option"

definition DEFAULT_AUTH_TTL_MS :: int where
  "DEFAULT_AUTH_TTL_MS = 5 * 60000"

definition journalled :: "PayoutService \<Rightarrow> (World, app_error, unit) eff \<Rightarrow> (World, app_error, unit) eff" where
  "journalled sv m = (if py_journal sv then m else ret ())"

definition findIntent :: "PayoutService \<Rightarrow> string \<Rightarrow> World \<Rightarrow> PayoutIntent option" where
  "findIntent sv key w = (if py_journal sv then journal_load key (w_intents w) else None)"

definition available_account :: "PayoutParams \<Rightarrow> string" where
  "available_account p = ''merchant_available:'' @ pp_tenant p @ '':'' @ pp_merchant p"

definition pending_account :: "PayoutParams \<Rightarrow> string" where
  "pending_account p = ''merchant_pending_withdrawal:'' @ pp_tenant p @ '':'' @ pp_merchant p"

definition pool_account :: "PayoutParams \<Rightarrow> string" where
  "pool_account p = ''pool_addr:'' @ pp_chain p @ '':'' @ pp_merchant p"

definition lock_input :: "PayoutParams \<Rightarrow> int \<Rightarrow> PayoutLockedInput" where
  "lock_input p now =
     \<lparr>pl_id = pp_idempotencyKey p @ '':lock'', pl_idempotencyKey = pp_idempotencyKey p @ '':lock'',
      pl_asset = mk_Asset (pp_asset p), pl_amount = pp_amountBaseUnits p,
      pl_merchantAvailable = available_account p, pl_merchantPendingWithdrawal = pending_account p,
      pl_occurredAt = now\<rparr>"

definition settle_input :: "PayoutParams \<Rightarrow> int \<Rightarrow> PayoutSettledInput" where
  "settle_input p now =
     \<lparr>ps_id = ''settle:'' @ pp_idempotencyKey p, ps_idempotencyKey = ''settle:'' @ pp_idempotencyKey p,
      ps_asset = mk_Asset (pp_asset p), ps_amount = pp_amountBaseUnits p,
      ps_merchantPendingWithdrawal = pending_account p, ps_poolAddr = pool_account p,
      ps_networkFee = None, ps_occurredAt = now\<rparr>"

definition settle :: "PayoutParams \<Rightarrow> int \<Rightarrow> (World, app_error, unit) eff" where
  "settle p now =
     bind (lift (payoutSettled (settle_input p now))) (\<lambda>e.
     bind (on_ledger (post SqlLedgerStore e)) (\<lambda>_. ret ()))"

definition payout_legKey :: "PayoutParams \<Rightarrow> nat \<Rightarrow> nat \<Rightarrow> string" where
  "payout_legKey p n i = (if n = 1 then pp_idempotencyKey p else pp_idempotencyKey p @ '':'' @ show_nat i)"

definition payout_authorized ::
  "PayoutService \<Rightarrow> PayoutParams \<Rightarrow> int \<Rightarrow> string \<Rightarrow> PayoutRequest \<Rightarrow> PayoutRequest" where
  "payout_authorized sv p now legKey req =
     (case py_authorizer sv of
        None \<Rightarrow> req
      | Some sg \<Rightarrow> req\<lparr>pq_authorization := Some (mint sg
          \<lparr>ac_intentId = legKey, ac_tenant = pp_tenant p, ac_merchant = pp_merchant p, ac_chain = pp_chain p,
           ac_asset = pp_asset p, ac_amount = show_int (pq_amountBaseUnits req), ac_destination = pp_destination p,
           ac_sighash = transferCommitment (as_crypto sg) (request_identity legKey req),
           ac_policyVersion = [], ac_approvals = the_default [] (pp_approvals p), ac_decidedAt = 0, ac_expiresAt = 0\<rparr>
          now (py_authTtlMs sv))\<rparr>)"

definition send_leg ::
  "PayoutService \<Rightarrow> PayoutParams \<Rightarrow> int \<Rightarrow> nat \<Rightarrow> nat \<times> GatheredLeg \<Rightarrow> PayoutLeg list \<Rightarrow>
   (World, app_error, PayoutLeg list) eff" where
  "send_leg sv p now n = (\<lambda>(i, leg) sent.
     let legKey = payout_legKey p n i in
     bind (prepare_leg (py_gatherStrategies sv) (pp_chain p) (pp_asset p) legKey leg) (\<lambda>_.
     bind (py_send sv (payout_authorized sv p now legKey
         (leg_request (pp_chain p) (pp_asset p) (pp_destination p) legKey leg))) (\<lambda>txId.
       ret (sent @ [\<lparr>lg_address = gs_address leg, lg_txId = txId, lg_amountBaseUnits = gl_amountBaseUnits leg\<rparr>]))))"

definition reserved_by :: "GatheredLeg list \<Rightarrow> (string, int) jsmap" where
  "reserved_by legs = foldl (\<lambda>m l. AList.update (gs_address l)
     (map_get_or m (gs_address l) 0 + gl_amountBaseUnits l) m) [] legs"

definition fee_leg ::
  "PayoutService \<Rightarrow> PayoutParams \<Rightarrow> int \<Rightarrow> string \<Rightarrow> nat \<times> GatheredLeg \<Rightarrow> unit \<Rightarrow> (World, app_error, unit) eff" where
  "fee_leg sv p now tre = (\<lambda>(i, leg) _.
     let legKey = pp_idempotencyKey p @ '':fee:'' @ show_nat i in
     try_catch
       (bind (prepare_leg (py_gatherStrategies sv) (pp_chain p) (pp_asset p) legKey leg) (\<lambda>_.
        bind (py_send sv (leg_request (pp_chain p) (pp_asset p) tre legKey leg)) (\<lambda>_.
        bind (post_feeSwept legKey (pp_chain p) (pp_merchant p) (pp_asset p) (gl_amountBaseUnits leg) now) (\<lambda>_.
          ret ()))))
       (\<lambda>_. ret ()))"

definition sweepFee :: "PayoutService \<Rightarrow> PayoutParams \<Rightarrow> int \<Rightarrow> GatheredLeg list \<Rightarrow> (World, app_error, unit) eff" where
  "sweepFee sv p now merchantLegs =
     (case py_feeSweep sv of
        None \<Rightarrow> ret ()
      | Some (dust, treasuryAddressFor) \<Rightarrow>
          (case treasuryAddressFor (pp_chain p) of
             None \<Rightarrow> ret ()
           | Some tre \<Rightarrow>
               if tre = [] then ret ()
               else (\<lambda>w. case plan (py_balances sv w) dust (pp_tenant p) (pp_merchant p) (pp_chain p) (pp_asset p)
                   (reserved_by merchantLegs) w of
                 Inl _ \<Rightarrow> (Inr (), w)
               | Inr pl \<Rightarrow> for_each (fee_leg sv p now tre) (List.enumerate 0 (fp_legs pl)) () w)))"

text \<open>The part of \<open>payout\<close> inside the \<open>try\<close>, under the lease; \<open>payout_finish\<close> is what follows the
  loop over the legs.\<close>

definition payout_finish ::
  "PayoutService \<Rightarrow> PayoutParams \<Rightarrow> int \<Rightarrow> string \<Rightarrow> GatheredLeg list \<Rightarrow> PayoutLeg list \<Rightarrow>
   (World, app_error, PayoutResult) eff" where
  "payout_finish sv p now primaryFrom legs sent =
     (let primaryTxId = (case sent of [] \<Rightarrow> [] | l # _ \<Rightarrow> lg_txId l) in
      bind (journalled sv (markBroadcast (pp_idempotencyKey p) primaryTxId now)) (\<lambda>_.
      bind (settle p now) (\<lambda>_.
      bind (journalled sv (markSettled (pp_idempotencyKey p) now)) (\<lambda>_.
      bind (sweepFee sv p now legs) (\<lambda>_.
        ret \<lparr>rs_txId = primaryTxId, rs_from = primaryFrom,
          rs_legs = (if length sent > 1 then Some sent else None)\<rparr>)))))"

definition payout_body :: "PayoutService \<Rightarrow> PayoutParams \<Rightarrow> int \<Rightarrow> (World, app_error, PayoutResult) eff" where
  "payout_body sv p now =
     bind (\<lambda>w. (gather SqlPoolStore (py_balances sv w) (pp_tenant p) (pp_merchant p) (pp_chain p) (pp_asset p)
         (pp_amountBaseUnits p) (w_pool w), w)) (\<lambda>legs.
     let primaryFrom = (case legs of [] \<Rightarrow> [] | l # _ \<Rightarrow> gs_address l) in
     bind (journalled sv (setFrom (pp_idempotencyKey p) primaryFrom now)) (\<lambda>_.
     bind (on_ledger (lockPayout SqlLedgerStore (lock_input p now))) (\<lambda>_.
     bind (for_each (send_leg sv p now (length legs)) (List.enumerate 0 legs) []) (\<lambda>sent.
       payout_finish sv p now primaryFrom legs sent))))"

definition payout_context :: "PayoutParams \<Rightarrow> int \<Rightarrow> PayoutContext" where
  "payout_context p requestedAt =
     \<lparr>cx_tenant = pp_tenant p, cx_merchant = pp_merchant p, cx_chain = pp_chain p, cx_asset = pp_asset p,
      cx_amountBaseUnits = pp_amountBaseUnits p, cx_destination = pp_destination p,
      cx_requester = pp_requester p, cx_approvals = pp_approvals p, cx_requestedAt = Some requestedAt\<rparr>"

definition new_intent :: "PayoutParams \<Rightarrow> NewIntent" where
  "new_intent p =
     \<lparr>ni_idempotencyKey = pp_idempotencyKey p, ni_requestedBy = pp_requester p, ni_tenant = pp_tenant p,
      ni_merchant = pp_merchant p, ni_chain = pp_chain p, ni_asset = pp_asset p,
      ni_amountBaseUnits = pp_amountBaseUnits p, ni_destination = pp_destination p\<rparr>"

text \<open>An optional string that is present and not empty, as JavaScript's truthiness tests it.\<close>

definition truthy :: "string option \<Rightarrow> bool" where
  "truthy x \<longleftrightarrow> x \<noteq> None \<and> x \<noteq> Some []"

definition under_lease :: "PayoutService \<Rightarrow> PayoutParams \<Rightarrow> int \<Rightarrow> (World, app_error, PayoutResult) eff" where
  "under_lease sv p now = (\<lambda>w.
     case take_lease (py_gatherLease sv) (pp_tenant p) (pp_merchant p) (pp_chain p) (pp_idempotencyKey p) now w of
       (held, w1) \<Rightarrow>
         if \<not> held
         then (Inl (GatherBusyError (''Another operation is already spending '' @ pp_merchant p @ '''s ''
           @ pp_chain p @ '' pool addresses. Retry shortly.'')), w1)
         else try_finally (payout_body sv p now)
           (give_lease (py_gatherLease sv) (pp_tenant p) (pp_merchant p) (pp_chain p) (pp_idempotencyKey p)) w1)"

definition payout :: "PayoutService \<Rightarrow> string \<Rightarrow> int \<Rightarrow> PayoutParams \<Rightarrow> (World, app_error, PayoutResult) eff" where
  "payout sv uuid now p =
     bind (if py_journal sv then bind (journal_begin uuid now (new_intent p)) (\<lambda>i. ret (Some i)) else ret None) (\<lambda>intent.
       case intent of
         Some i \<Rightarrow>
           if pi_status i = Settled \<and> truthy (pi_txId i)
           then ret \<lparr>rs_txId = the (pi_txId i), rs_from = the_default [] (pi_fromAddress i), rs_legs = None\<rparr>
           else if pi_status i = Broadcast \<and> truthy (pi_txId i) \<and> truthy (pi_fromAddress i)
           then bind (settle p now) (\<lambda>_.
                bind (journalled sv (markSettled (pp_idempotencyKey p) now)) (\<lambda>_.
                  ret \<lparr>rs_txId = the (pi_txId i), rs_from = the (pi_fromAddress i), rs_legs = None\<rparr>))
           else bind (py_check sv (payout_context p (pi_createdAt i)) now) (\<lambda>_. under_lease sv p now)
       | None \<Rightarrow> bind (py_check sv (payout_context p now) now) (\<lambda>_. under_lease sv p now))"

datatype ApproveResult =
    ApproveSettled string string "string list"
  | ApprovePending int "string list"

definition intent_params :: "PayoutIntent \<Rightarrow> string list \<Rightarrow> PayoutParams" where
  "intent_params i approvals =
     \<lparr>pp_tenant = pi_tenant i, pp_merchant = pi_merchant i, pp_chain = pi_chain i, pp_asset = pi_asset i,
      pp_amountBaseUnits = pi_amountBaseUnits i, pp_destination = pi_destination i,
      pp_idempotencyKey = pi_idempotencyKey i,
      pp_requester = (if truthy (pi_requestedBy i) then pi_requestedBy i else None), pp_approvals = Some approvals\<rparr>"

definition payout_approve ::
  "PayoutService \<Rightarrow> string \<Rightarrow> int \<Rightarrow> string \<Rightarrow> string \<Rightarrow> string \<Rightarrow> (World, app_error, ApproveResult) eff" where
  "payout_approve sv uuid now tenant withdrawalId approver =
     (if \<not> py_journal sv \<or> \<not> py_approvals sv
      then throw (JsError ''Approvals need a payout journal and an approval store'')
      else bind (reads (\<lambda>w. loadById tenant withdrawalId (w_intents w))) (\<lambda>row.
        case row of
          None \<Rightarrow> throw (WithdrawalNotFoundError (''No withdrawal '' @ withdrawalId))
        | Some i \<Rightarrow>
            if pi_status i = Settled
            then bind (reads (\<lambda>w. approversFor (pi_idempotencyKey i) (w_approvals w))) (\<lambda>approvals.
              ret (ApproveSettled (the_default [] (pi_txId i)) (the_default [] (pi_fromAddress i)) approvals))
            else
              bind (zoom w_approvals (\<lambda>t. w_approvals_update (\<lambda>_. t))
                (approve tenant (pi_idempotencyKey i) approver (pi_requestedBy i) now)) (\<lambda>_.
              bind (reads (\<lambda>w. approversFor (pi_idempotencyKey i) (w_approvals w))) (\<lambda>approvals.
                try_catch
                  (bind (payout sv uuid now (intent_params i approvals)) (\<lambda>r.
                    ret (ApproveSettled (rs_txId r) (rs_from r) approvals)))
                  (\<lambda>err. if err_code err = Some POLICY_APPROVAL_REQUIRED
                    then ret (ApprovePending (py_approvalsRequired sv) approvals) else throw err)))))"

section \<open>The deployed service (engine.ts, server.ts)\<close>

definition world_policy ::
  "int \<Rightarrow> string list \<Rightarrow> ApprovalPolicy option \<Rightarrow> TimeLockPolicy option \<Rightarrow> VelocityConfig \<Rightarrow> World PolicyConfig" where
  "world_policy maxPayout allowlist approval timeLock vel =
     \<lparr>pc_maxPerPayoutBaseUnits = maxPayout, pc_allowlist = allowlist,
      pc_allowlistStore = Some (\<lambda>ctx now. on_policy (allow_usable ctx now)),
      pc_killSwitch = Some (\<lambda>ctx. on_policy (kill_engaged GLOBAL ctx)), pc_sanctions = None,
      pc_solvency = Some (\<lambda>a. on_ledger (svc_isSolvent SqlLedgerStore a)),
      pc_approval = approval, pc_timeLock = timeLock, pc_velocity = Some (\<lambda>ctx now. on_policy (sql_admit vel ctx now))\<rparr>"

definition engine_payouts :: "deployment \<Rightarrow> World PolicyConfig \<Rightarrow> int \<Rightarrow> int \<Rightarrow> PayoutService" where
  "engine_payouts d pol approvalsRequired now =
     \<lparr>py_check = policy_check pol, py_send = engine_broadcaster d now, py_balances = dp_balances d,
      py_journal = True, py_authorizer = dp_authorizer d, py_authTtlMs = DEFAULT_AUTH_TTL_MS,
      py_approvals = True, py_approvalsRequired = approvalsRequired,
      py_feeSweep = Some (dp_dust d, dp_feeTreasuryAddressFor d), py_gatherLease = Some DEFAULT_TTL_MS,
      py_gatherStrategies = Some (server_strategies d now)\<rparr>"

section \<open>The contract of the collaborators\<close>

text \<open>What \<open>PayoutService\<close> relies on: a policy check changes policy tables only, the broadcaster
  meets its contract, and so does every gather strategy.\<close>

locale payout_env =
  fixes sv :: PayoutService
  assumes check_frame: "py_check sv ctx now w = (r, w') \<Longrightarrow> w' = w\<lparr>w_policy := w_policy w'\<rparr>"
    and sender: "payout_sender (py_send sv)"
    and strategies: "strategies_ok (py_gatherStrategies sv)"

sublocale payout_env \<subseteq> payout_sender "py_send sv"
  by (rule sender)

text \<open>The transfers to an address among the requests of a log, as pairs of source and amount.\<close>

definition transfers_to :: "string \<Rightarrow> (PayoutRequest \<times> 'o) list \<Rightarrow> (string \<times> int) list" where
  "transfers_to dest l =
     map (\<lambda>(q, _). (pq_fromAddress q, pq_amountBaseUnits q)) (filter (\<lambda>(q, _). pq_toAddress q = dest) l)"

lemma transfers_to_simps [simp]:
  "transfers_to dest [] = []"
  "transfers_to dest (l @ l') = transfers_to dest l @ transfers_to dest l'"
  by (simp_all add: transfers_to_def)

lemma transfers_to_none: "\<forall>(q, r) \<in> set l. pq_toAddress q \<noteq> dest \<Longrightarrow> transfers_to dest l = []"
  by (auto simp: transfers_to_def filter_empty_conv)

abbreviation leg_pair :: "GatheredLeg \<Rightarrow> string \<times> int" where
  "leg_pair l \<equiv> (gs_address l, gl_amountBaseUnits l)"

lemma payout_authorized_fields [simp]:
  "pq_chain (payout_authorized sv p now k q) = pq_chain q"
  "pq_toAddress (payout_authorized sv p now k q) = pq_toAddress q"
  "pq_fromAddress (payout_authorized sv p now k q) = pq_fromAddress q"
  "pq_amountBaseUnits (payout_authorized sv p now k q) = pq_amountBaseUnits q"
  by (simp_all add: payout_authorized_def split: option.splits)

lemma leg_request_fields [simp]:
  "pq_chain (leg_request c a t k l) = c" "pq_toAddress (leg_request c a t k l) = t"
  "pq_fromAddress (leg_request c a t k l) = gs_address l" "pq_amountBaseUnits (leg_request c a t k l) = gl_amountBaseUnits l"
  by (simp_all add: leg_request_def)

section \<open>Sending the legs\<close>

definition delivered :: "string \<Rightarrow> (PayoutRequest \<times> (app_error + string)) list \<Rightarrow> bool" where
  "delivered dest l \<longleftrightarrow> list_all (\<lambda>(q, r). pq_toAddress q = dest \<longrightarrow> \<not> isl r) l"

lemma delivered_simps [simp]:
  "delivered dest []" "delivered dest (l @ l') \<longleftrightarrow> delivered dest l \<and> delivered dest l'"
  by (simp_all add: delivered_def)

lemma delivered_none: "\<forall>(q, r) \<in> set l. pq_toAddress q \<noteq> dest \<Longrightarrow> delivered dest l"
  by (auto simp: delivered_def list_all_iff)

context payout_env
begin

lemma send_leg_run:
  assumes "send_leg sv p now n (i, leg) sent w = (r, w')" "gs_address leg \<noteq> pp_destination p"
  shows "\<exists>l. w' = w\<lparr>w_policy := w_policy w', w_sent := w_sent w @ l\<rparr>
    \<and> (if \<exists>s. r = Inr s
       then (\<exists>tx. r = Inr (sent @ [\<lparr>lg_address = gs_address leg, lg_txId = tx, lg_amountBaseUnits = gl_amountBaseUnits leg\<rparr>]))
         \<and> transfers_to (pp_destination p) l = [leg_pair leg] \<and> delivered (pp_destination p) l
       else transfers_to (pp_destination p) l \<in> {[], [leg_pair leg]})"
proof -
  let ?k = "payout_legKey p n i" and ?d = "pp_destination p"
  let ?q = "payout_authorized sv p now ?k (leg_request (pp_chain p) (pp_asset p) ?d ?k leg)"
  obtain r1 w1 where p1: "prepare_leg (py_gatherStrategies sv) (pp_chain p) (pp_asset p) ?k leg w = (r1, w1)" by fastforce
  with prepare_leg_frame [OF strategies, of "pp_chain p" leg w "pp_asset p" ?k] obtain l where
    l: "w1 = w\<lparr>w_policy := w_policy w1, w_sent := w_sent w @ l\<rparr>" "\<forall>(q, r) \<in> set l. pq_toAddress q = gs_address leg"
    by (auto simp: sent_after_def)
  from l(2) assms(2) have none: "transfers_to ?d l = []" "delivered ?d l"
    by (auto intro!: transfers_to_none delivered_none)
  show ?thesis
  proof (cases r1)
    case (Inl e)
    with assms(1) p1 have "w' = w1" "r = Inl e" by (simp_all add: send_leg_def Let_def bind_def)
    with l none show ?thesis by (intro exI [of _ l]) auto
  next
    case (Inr u)
    obtain r2 w2 where s: "py_send sv ?q w1 = (r2, w2)" by fastforce
    have eq: "w' = w2" "r = map_sum id (\<lambda>tx. sent @ [\<lparr>lg_address = gs_address leg, lg_txId = tx,
        lg_amountBaseUnits = gl_amountBaseUnits leg\<rparr>]) r2"
      using assms(1) p1 Inr s by (auto simp: send_leg_def Let_def bind_def ret_def split: sum.splits)
    from send_records [OF s] consider (refused) "w2 = w1" "\<forall>tx. r2 \<noteq> Inr tx"
      | (sent) "w2 = w1\<lparr>w_sent := w_sent w1 @ [(?q, r2)]\<rparr>" by blast
    then show ?thesis
    proof cases
      case refused
      then have "\<nexists>s. r = Inr s" using eq(2) by (cases r2) auto
      with refused l none eq(1) show ?thesis by (intro exI [of _ l]) auto
    next
      case sent
      have "w' = w\<lparr>w_policy := w_policy w', w_sent := w_sent w @ l @ [(?q, r2)]\<rparr>"
        unfolding eq(1) sent by (subst (1 2) l(1)) simp
      moreover have "transfers_to ?d (l @ [(?q, r2)]) = [leg_pair leg]"
        using none(1) by (simp add: transfers_to_def)
      moreover have "delivered ?d (l @ [(?q, r2)])" if "\<exists>s. r = Inr s"
        using none(2) that eq(2) by (cases r2) (auto simp: delivered_def)
      ultimately show ?thesis using eq(2) by (intro exI [of _ "l @ [(?q, r2)]"]) (cases r2; auto)
    qed
  qed
qed

lemma send_legs_run:
  assumes "for_each (send_leg sv p now n) (List.enumerate i legs) sent w = (r, w')"
    and "pp_destination p \<notin> gs_address ` set legs"
  shows "\<exists>l k. w' = w\<lparr>w_policy := w_policy w', w_sent := w_sent w @ l\<rparr> \<and> k \<le> length legs
    \<and> transfers_to (pp_destination p) l = take k (map leg_pair legs)
    \<and> (\<forall>s. r = Inr s \<longrightarrow> k = length legs \<and> delivered (pp_destination p) l
        \<and> map lg_address s = map lg_address sent @ map gs_address legs)"
  using assms
proof (induction legs arbitrary: i sent w)
  case Nil
  then show ?case by (intro exI [of _ "[]"] exI [of _ 0]) (auto simp: ret_def)
next
  case (Cons leg legs)
  let ?d = "pp_destination p"
  obtain r1 w1 where s1: "send_leg sv p now n (i, leg) sent w = (r1, w1)" by fastforce
  from send_leg_run [OF this] Cons.prems(2) obtain l where
    l: "w1 = w\<lparr>w_policy := w_policy w1, w_sent := w_sent w @ l\<rparr>"
    "if \<exists>s. r1 = Inr s
       then (\<exists>tx. r1 = Inr (sent @ [\<lparr>lg_address = gs_address leg, lg_txId = tx, lg_amountBaseUnits = gl_amountBaseUnits leg\<rparr>]))
         \<and> transfers_to ?d l = [leg_pair leg] \<and> delivered ?d l
       else transfers_to ?d l \<in> {[], [leg_pair leg]}" by auto
  show ?case
  proof (cases r1)
    case (Inl e)
    with Cons.prems(1) s1 have "w' = w1" "r = Inl e" by (simp_all add: bind_def)
    moreover from l(2) Inl have "transfers_to ?d l = [] \<or> transfers_to ?d l = [leg_pair leg]" by auto
    ultimately show ?thesis
      using l(1) by (intro exI [of _ l] exI [of _ "length (transfers_to ?d l)"]) auto
  next
    case (Inr s)
    with Cons.prems(1) s1 have f: "for_each (send_leg sv p now n) (List.enumerate (Suc i) legs) s w1 = (r, w')"
      by (simp add: bind_def)
    from Cons.IH [OF f] Cons.prems(2) obtain l' k where
      l': "w' = w1\<lparr>w_policy := w_policy w', w_sent := w_sent w1 @ l'\<rparr>" "k \<le> length legs"
      "transfers_to ?d l' = take k (map leg_pair legs)"
      "\<forall>t. r = Inr t \<longrightarrow> k = length legs \<and> delivered ?d l' \<and> map lg_address t = map lg_address s @ map gs_address legs"
      by auto
    have "w' = w\<lparr>w_policy := w_policy w', w_sent := w_sent w @ l @ l'\<rparr>"
      by (subst l'(1), subst (1 2) l(1)) simp
    with l' l(2) Inr show ?thesis
      by (intro exI [of _ "l @ l'"] exI [of _ "Suc k"]) auto
  qed
qed

end

section \<open>Ledger and journal steps\<close>

lemma lock_run:
  assumes "lockPayout SqlLedgerStore i s = (r, s')"
  shows "(\<exists>ps. sql_log s' = sql_log s @ ps)
    \<and> jr_idempotency_key ` set (sq_journal_entry s) \<subseteq> jr_idempotency_key ` set (sq_journal_entry s')
    \<and> (\<forall>b. r = Inr b \<longrightarrow> 0 < pl_amount i \<and> pl_idempotencyKey i \<in> jr_idempotency_key ` set (sq_journal_entry s')
        \<and> (pl_idempotencyKey i \<notin> jr_idempotency_key ` set (sq_journal_entry s) \<longrightarrow>
           sql_log s' = sql_log s @ [post_debit (pl_merchantAvailable i) (pl_asset i) (pl_amount i),
             post_credit (pl_merchantPendingWithdrawal i) (pl_asset i) (pl_amount i)]
           \<and> jr_idempotency_key ` set (sq_journal_entry s') = insert (pl_idempotencyKey i) (jr_idempotency_key ` set (sq_journal_entry s))))"
proof (cases "\<exists>e. payoutLocked i = Inr e \<and> post SqlLedgerStore e s = (r, s')")
  case True
  then obtain e where e: "payoutLocked i = Inr e" "post SqlLedgerStore e s = (r, s')" by blast
  from e(1) have pos: "0 < pl_amount i" by (auto simp: payoutLocked_def split: if_splits)
  from e payoutLocked_ok [OF pos] have f: "je_idempotencyKey e = pl_idempotencyKey i"
    "je_postings e = [post_debit (pl_merchantAvailable i) (pl_asset i) (pl_amount i),
      post_credit (pl_merchantPendingWithdrawal i) (pl_asset i) (pl_amount i)]" by auto
  have bal: "assertBalanced e = Inr ()"
    using e(1) by (auto simp: payoutLocked_def checked_entry_def rbind_Inr_iff split: if_splits)
  then have "all_positive (je_postings e)" by (simp add: assertBalanced_iff)
  with e(2) bal have "r = Inr False \<and> s' = s \<and> je_idempotencyKey e \<in> jr_idempotency_key ` set (sq_journal_entry s)
      \<or> (\<exists>x. r = Inl x) \<and> s' = s \<or> r = Inr True \<and> s' = sql_applied e s"
    by (auto simp: post_def effect_simps SqlLedgerStore_def sql_append_cases split: if_splits)
  then show ?thesis
    by (elim disjE conjE exE) (simp_all add: sql_applied_fields f pos subset_insertI del: image_iff)
next
  case False
  with assms have "s' = s \<and> (\<exists>e. r = Inl e)"
    by (auto simp: lockPayout_def availableBalance_def bind_def reads_def lift_def throw_def
        split: sum.splits if_splits)
  then show ?thesis by auto
qed

lemma settle_run:
  assumes "settle p now w = (r, w')"
  shows "(\<exists>s. w' = w\<lparr>w_ledger := s\<rparr>) \<and> ledger_keys w \<subseteq> ledger_keys w' \<and> (\<exists>ps. sql_log (w_ledger w') = sql_log (w_ledger w) @ ps)
    \<and> (r = Inr () \<and> (''settle:'' @ pp_idempotencyKey p) \<notin> ledger_keys w \<longrightarrow>
        sql_log (w_ledger w') = sql_log (w_ledger w) @
          [post_debit (pending_account p) (mk_Asset (pp_asset p)) (pp_amountBaseUnits p),
           post_credit (pool_account p) (mk_Asset (pp_asset p)) (pp_amountBaseUnits p)])"
proof (cases "0 < pp_amountBaseUnits p")
  case True
  define e where "e = projr (payoutSettled (settle_input p now))"
  from True payoutSettled_ok [of "settle_input p now"] have e: "payoutSettled (settle_input p now) = Inr e"
    and f: "je_idempotencyKey e = ''settle:'' @ pp_idempotencyKey p"
    "je_postings e = [post_debit (pending_account p) (mk_Asset (pp_asset p)) (pp_amountBaseUnits p),
           post_credit (pool_account p) (mk_Asset (pp_asset p)) (pp_amountBaseUnits p)]"
    by (auto simp: e_def settle_input_def networkFeePostings_def)
  obtain r1 s1 where p: "post SqlLedgerStore e (w_ledger w) = (r1, s1)" by fastforce
  have w': "w' = w\<lparr>w_ledger := s1\<rparr>" "r = map_sum id (\<lambda>_. ()) r1"
    using assms by (auto simp: settle_def bind_def lift_def e zoom_def p ret_def split: sum.splits)
  have bal: "assertBalanced e = Inr ()"
    using e by (auto simp: payoutSettled_def checked_entry_def rbind_Inr_iff split: if_splits)
  then have "all_positive (je_postings e)" by (simp add: assertBalanced_iff)
  with bal p have "s1 = w_ledger w \<and> (\<forall>b. r1 = Inr b \<longrightarrow> je_idempotencyKey e \<in> ledger_keys w)
      \<or> sql_log s1 = sql_log (w_ledger w) @ je_postings e"
    by (auto simp: post_def effect_simps SqlLedgerStore_def sql_append_cases sql_applied_fields split: if_splits)
  with w' f post_log [OF p] show ?thesis by (cases r1) auto
next
  case False
  with assms have "w' = w" "\<exists>e. r = Inl e"
    by (auto simp: settle_def bind_def lift_def payoutSettled_def settle_input_def)
  then show ?thesis by (auto intro: exI [of _ "w_ledger w"])
qed

lemma moved_settle: "preserves (moved (\<lambda>_. True) P w0) (settle p now)"
proof (rule moved_step)
  fix w
  obtain r w' where "settle p now w = (r, w')" by fastforce
  with settle_run [OF this] show "moved (\<lambda>_. True) P w (snd (settle p now w))" by (auto simp: moved_def)
qed

lemma moved_journalled [intro]: "preserves (moved A P w0) (journalled sv (intent_update k f))"
  by (auto simp: preserves_def journalled_def intent_update_def on_intents_def modify_def ret_def moved_def)

lemmas journal_steps = setFrom_def markBroadcast_def markSettled_def

section \<open>Sweeping the fee after a payout\<close>

context payout_env
begin

lemma fee_leg_moved:
  assumes "\<And>x. sweep_posting x \<Longrightarrow> A x" "\<And>q. pq_toAddress q = tre \<or> pq_toAddress q = gs_address leg \<Longrightarrow> P q"
  shows "preserves (moved A P w0) (fee_leg sv p now tre (i, leg) u)"
proof -
  have "preserves (moved A P w0) (prepare_leg (py_gatherStrategies sv) (pp_chain p) (pp_asset p) k leg)" for k
    by (intro moved_step sent_after_moved sent_after_mono [OF prepare_leg_frame [OF strategies]]) (auto intro: assms(2))
  moreover have "preserves (moved A P w0) (py_send sv (leg_request (pp_chain p) (pp_asset p) tre k leg))" for k
    by (intro moved_send) (auto intro: assms(2))
  ultimately show ?thesis unfolding fee_leg_def Let_def split_conv
    by (intro preserves_try_catch preserves_bind preserves_ret moved_feeSwept assms(1)) simp_all
qed

lemma sweepFee_moved:
  assumes "\<And>x. sweep_posting x \<Longrightarrow> A x" "\<And>q. pq_toAddress q \<in> pa_address ` set (w_pool w0) \<Longrightarrow> P q"
    and "\<And>dust tf q. py_feeSweep sv = Some (dust, tf) \<Longrightarrow> tf (pp_chain p) = Some (pq_toAddress q) \<Longrightarrow> P q"
  shows "preserves (moved A P w0) (sweepFee sv p now legs)"
proof (rule preservesI)
  fix w assume m: "moved A P w0 w"
  show "moved A P w0 (snd (sweepFee sv p now legs w))"
  proof (cases "\<exists>dust tf tre pl. py_feeSweep sv = Some (dust, tf) \<and> tf (pp_chain p) = Some tre \<and> tre \<noteq> []
      \<and> plan (py_balances sv w) dust (pp_tenant p) (pp_merchant p) (pp_chain p) (pp_asset p) (reserved_by legs) w = Inr pl")
    case True
    then obtain dust tf tre pl where c: "py_feeSweep sv = Some (dust, tf)" "tf (pp_chain p) = Some tre" "tre \<noteq> []"
      "plan (py_balances sv w) dust (pp_tenant p) (pp_merchant p) (pp_chain p) (pp_asset p) (reserved_by legs) w = Inr pl"
      by blast
    from plan_addresses [OF c(4)] m have a: "set (map gs_address (fp_legs pl)) \<subseteq> pa_address ` set (w_pool w0)"
      by (simp add: moved_def)
    have "preserves (moved A P w0) (fee_leg sv p now tre x u)" if "x \<in> set (List.enumerate 0 (fp_legs pl))" for x u
    proof -
      obtain i leg where x: "x = (i, leg)" by (cases x)
      with that have "leg \<in> set (fp_legs pl)" by (auto simp: in_set_enumerate_eq)
      with a have "gs_address leg \<in> pa_address ` set (w_pool w0)" by auto
      with c show ?thesis unfolding x by (intro fee_leg_moved assms(1)) (auto intro: assms(2,3))
    qed
    then have "preserves (moved A P w0) (for_each (fee_leg sv p now tre) (List.enumerate 0 (fp_legs pl)) ())"
      by (rule preserves_for_each)
    with m c show ?thesis by (auto simp: sweepFee_def dest: preservesD)
  next
    case False
    then have "snd (sweepFee sv p now legs w) = w"
      by (auto simp: sweepFee_def ret_def split: option.splits sum.splits)
    with m show ?thesis by simp
  qed
qed

lemma sweepFee_intents: "preserves (\<lambda>w. w_intents w = t) (sweepFee sv p now legs)"
proof -
  have pr: "preserves (\<lambda>w. w_intents w = t) (prepare_leg (py_gatherStrategies sv) c a k leg)" for c a k leg
    using sent_afterD(5) [OF prepare_leg_frame [OF strategies]] by (intro preservesI) simp
  have sd: "preserves (\<lambda>w. w_intents w = t) (py_send sv q)" for q
    using sent_afterD(5) [OF send_sent_after [of "\<lambda>_. True"]] by (intro preservesI) simp
  have fs: "preserves (\<lambda>w. w_intents w = t) (post_feeSwept k c m a n now)" for k c m a n
    unfolding post_feeSwept_def by (intro preserves_bind preserves_lift preserves_zoom) simp
  have "preserves (\<lambda>w. w_intents w = t) (fee_leg sv p now tre x u)" for tre x u
    unfolding fee_leg_def Let_def by (cases x) (auto intro!: preserves_try_catch preserves_bind preserves_ret pr sd fs)
  then have fe: "preserves (\<lambda>w. w_intents w = t) (for_each (fee_leg sv p now tre) xs ())" for tre xs
    by (intro preserves_for_each)
  show ?thesis
  proof (rule preservesI)
    fix w :: World assume "w_intents w = t"
    with preservesD [OF fe, of w] show "w_intents (snd (sweepFee sv p now legs w)) = t"
      by (simp add: sweepFee_def ret_def split: option.splits sum.splits prod.splits)
  qed
qed

end

section \<open>The body of a payout\<close>

lemma gather_leg_addresses:
  assumes "pool_step\<^sup>*\<^sup>* [] tbl" "gather SqlPoolStore bal t m c a amt tbl = Inr legs"
  shows "gs_address ` set legs \<subseteq> pa_address ` set tbl"
proof
  fix x assume "x \<in> gs_address ` set legs"
  with gather_legs [OF assms] obtain r where "r \<in> set tbl" "pa_address r = x"
    by (auto simp: list_all_iff list_ex_iff)
  then show "x \<in> pa_address ` set tbl" by blast
qed

lemma journal_load_update:
  "(\<And>r. pi_idempotencyKey (f r) = pi_idempotencyKey r) \<Longrightarrow>
     journal_load k (map (\<lambda>r. if pi_idempotencyKey r = k then f r else r) t) = map_option f (journal_load k t)"
  by (induction t) (auto simp: journal_load_def)

lemma journalled_run:
  "journalled sv (intent_update k f) w =
     (Inr (), if py_journal sv
       then w\<lparr>w_intents := map (\<lambda>r. if pi_idempotencyKey r = k then f r else r) (w_intents w)\<rparr> else w)"
  by (simp add: journalled_def intent_update_def on_intents_def modify_def ret_def)

context payout_env
begin

lemma finish_moved:
  assumes "pp_destination p \<notin> pa_address ` set (w_pool w0)"
    and "\<And>dust tf. py_feeSweep sv = Some (dust, tf) \<Longrightarrow> tf (pp_chain p) \<noteq> Some (pp_destination p)"
  shows "preserves (moved (\<lambda>_. True) (\<lambda>q. pq_toAddress q \<noteq> pp_destination p) w0)
    (payout_finish sv p now primaryFrom legs sent)"
  using assms unfolding payout_finish_def Let_def journal_steps
  by (intro preserves_bind preserves_ret moved_journalled moved_settle sweepFee_moved) auto

lemma finish_ok:
  assumes "payout_finish sv p now primaryFrom legs sent w = (Inr res, w')"
    and "(''settle:'' @ pp_idempotencyKey p) \<notin> ledger_keys w"
  shows "\<exists>ps. sql_log (w_ledger w') = sql_log (w_ledger w) @
          [post_debit (pending_account p) (mk_Asset (pp_asset p)) (pp_amountBaseUnits p),
           post_credit (pool_account p) (mk_Asset (pp_asset p)) (pp_amountBaseUnits p)] @ ps
        \<and> list_all sweep_posting ps"
    and "res = \<lparr>rs_txId = (case sent of [] \<Rightarrow> [] | l # _ \<Rightarrow> lg_txId l), rs_from = primaryFrom,
          rs_legs = (if length sent > 1 then Some sent else None)\<rparr>"
    and "py_journal sv \<Longrightarrow> journal_load (pp_idempotencyKey p) (w_intents w) = Some i \<Longrightarrow>
      journal_load (pp_idempotencyKey p) (w_intents w') =
        Some (i\<lparr>pi_txId := Some (rs_txId res), pi_status := Settled, pi_updatedAt := now\<rparr>)"
proof -
  let ?k = "pp_idempotencyKey p"
  define w1 where "w1 = snd (journalled sv (markBroadcast ?k (case sent of [] \<Rightarrow> [] | l # _ \<Rightarrow> lg_txId l) now) w)"
  obtain r2 w2 where s: "settle p now w1 = (r2, w2)" by fastforce
  define w3 where "w3 = snd (journalled sv (markSettled ?k now) w2)"
  obtain r4 w4 where f: "sweepFee sv p now legs w3 = (r4, w4)" by fastforce
  have r2: "r2 = Inr ()" and w': "w' = w4"
    and res: "res = \<lparr>rs_txId = (case sent of [] \<Rightarrow> [] | l # _ \<Rightarrow> lg_txId l), rs_from = primaryFrom,
          rs_legs = (if length sent > 1 then Some sent else None)\<rparr>"
    using assms(1) s f
    by (auto simp: payout_finish_def Let_def journal_steps journalled_run bind_def ret_def w1_def w3_def
        split: sum.splits)
  show "res = \<lparr>rs_txId = (case sent of [] \<Rightarrow> [] | l # _ \<Rightarrow> lg_txId l), rs_from = primaryFrom,
          rs_legs = (if length sent > 1 then Some sent else None)\<rparr>" by (rule res)
  have w1: "w_ledger w1 = w_ledger w" "w_intents w1 = (if py_journal sv then map (\<lambda>r. if pi_idempotencyKey r = ?k
      then r\<lparr>pi_txId := Some (rs_txId res), pi_status := Broadcast, pi_updatedAt := now\<rparr> else r) (w_intents w) else w_intents w)"
    by (simp_all add: w1_def journal_steps journalled_run res)
  from settle_run [OF s] r2 w1(1) assms(2) have w2: "w_intents w2 = w_intents w1"
    "sql_log (w_ledger w2) = sql_log (w_ledger w) @
          [post_debit (pending_account p) (mk_Asset (pp_asset p)) (pp_amountBaseUnits p),
           post_credit (pool_account p) (mk_Asset (pp_asset p)) (pp_amountBaseUnits p)]" by auto
  have w3: "w_ledger w3 = w_ledger w2" "w_intents w3 = (if py_journal sv then map (\<lambda>r. if pi_idempotencyKey r = ?k
      then r\<lparr>pi_status := Settled, pi_updatedAt := now\<rparr> else r) (w_intents w2) else w_intents w2)"
    by (simp_all add: w3_def journal_steps journalled_run)
  have "preserves (moved sweep_posting (\<lambda>_. True) w3) (sweepFee sv p now legs)"
    by (rule sweepFee_moved) simp_all
  from preservesD [OF this moved_refl] f w' have "moved sweep_posting (\<lambda>_. True) w3 w'" by simp
  then show "\<exists>ps. sql_log (w_ledger w') = sql_log (w_ledger w) @
          [post_debit (pending_account p) (mk_Asset (pp_asset p)) (pp_amountBaseUnits p),
           post_credit (pool_account p) (mk_Asset (pp_asset p)) (pp_amountBaseUnits p)] @ ps
        \<and> list_all sweep_posting ps"
    using w2(2) w3(1) by (auto simp: moved_def list_all_iff)
  have w4: "w_intents w' = w_intents w3"
    using preservesD [OF sweepFee_intents [where t = "w_intents w3" and p = p and now = now and legs = legs], of w3] f w'
    by simp
  show "journal_load ?k (w_intents w') = Some (i\<lparr>pi_txId := Some (rs_txId res), pi_status := Settled, pi_updatedAt := now\<rparr>)"
    if "py_journal sv" "journal_load ?k (w_intents w) = Some i"
    using that by (simp add: w4 w3 w2 w1 journal_load_update del: map_map)
qed

lemma body_stages:
  assumes run: "payout_body sv p now w = (r, w')"
    and dest: "pp_destination p \<notin> pa_address ` set (w_pool w)" and pool: "pool_step\<^sup>*\<^sup>* [] (w_pool w)"
  obtains (early) "w_sent w' = w_sent w" "\<exists>e. r = Inl e" "w_pool w' = w_pool w"
  | (sent) legs b s2 w2 r3 w3 l k where
      "gather SqlPoolStore (py_balances sv w) (pp_tenant p) (pp_merchant p) (pp_chain p) (pp_asset p)
         (pp_amountBaseUnits p) (w_pool w) = Inr legs"
      "lockPayout SqlLedgerStore (lock_input p now) (w_ledger w) = (Inr b, s2)"
      "w2 = (snd (journalled sv (setFrom (pp_idempotencyKey p) (case legs of [] \<Rightarrow> [] | l # _ \<Rightarrow> gs_address l) now) w))\<lparr>w_ledger := s2\<rparr>"
      "for_each (send_leg sv p now (length legs)) (List.enumerate 0 legs) [] w2 = (r3, w3)"
      "w3 = w2\<lparr>w_policy := w_policy w3, w_sent := w_sent w2 @ l\<rparr>" "k \<le> length legs"
      "transfers_to (pp_destination p) l = take k (map leg_pair legs)"
      "\<forall>s. r3 = Inr s \<longrightarrow> k = length legs \<and> delivered (pp_destination p) l \<and> map lg_address s = map gs_address legs"
      "(\<exists>e. r3 = Inl e \<and> r = Inl e \<and> w' = w3)
       \<or> (\<exists>s. r3 = Inr s \<and> payout_finish sv p now (case legs of [] \<Rightarrow> [] | l # _ \<Rightarrow> gs_address l) legs s w3 = (r, w'))"
proof (cases "gather SqlPoolStore (py_balances sv w) (pp_tenant p) (pp_merchant p) (pp_chain p) (pp_asset p)
         (pp_amountBaseUnits p) (w_pool w)")
  case (Inl e)
  with run have "w' = w \<and> r = Inl e" by (simp add: payout_body_def bind_def)
  with early show thesis by simp
next
  case (Inr legs)
  let ?from = "case legs of [] \<Rightarrow> [] | l # _ \<Rightarrow> gs_address l"
  define w1 where "w1 = snd (journalled sv (setFrom (pp_idempotencyKey p) ?from now) w)"
  have w1: "w_ledger w1 = w_ledger w" "w_sent w1 = w_sent w" "w_pool w1 = w_pool w"
    "journalled sv (setFrom (pp_idempotencyKey p) ?from now) w = (Inr (), w1)"
    by (simp_all add: w1_def journal_steps journalled_run)
  obtain r2 s2 where lk: "lockPayout SqlLedgerStore (lock_input p now) (w_ledger w) = (r2, s2)" by fastforce
  show thesis
  proof (cases r2)
    case (Inl e)
    with run Inr w1 lk have "w' = w1\<lparr>w_ledger := s2\<rparr> \<and> r = Inl e"
      by (simp add: payout_body_def bind_def Let_def zoom_def)
    with early w1 show thesis by simp
  next
    case (Inr b)
    define w2 where "w2 = w1\<lparr>w_ledger := s2\<rparr>"
    obtain r3 w3 where fe: "for_each (send_leg sv p now (length legs)) (List.enumerate 0 legs) [] w2 = (r3, w3)" by fastforce
    from gather_leg_addresses [OF pool \<open>gather _ _ _ _ _ _ _ _ = _\<close>] dest have "pp_destination p \<notin> gs_address ` set legs"
      by auto
    from send_legs_run [OF fe this] obtain l k where
      l: "w3 = w2\<lparr>w_policy := w_policy w3, w_sent := w_sent w2 @ l\<rparr>" "k \<le> length legs"
      "transfers_to (pp_destination p) l = take k (map leg_pair legs)"
      "\<forall>s. r3 = Inr s \<longrightarrow> k = length legs \<and> delivered (pp_destination p) l \<and> map lg_address s = map gs_address legs"
      by auto
    have "(\<exists>e. r3 = Inl e \<and> r = Inl e \<and> w' = w3) \<or> (\<exists>s. r3 = Inr s \<and> payout_finish sv p now ?from legs s w3 = (r, w'))"
      using run \<open>gather _ _ _ _ _ _ _ _ = _\<close> w1 lk Inr fe
      by (cases r3) (auto simp: payout_body_def bind_def Let_def zoom_def w2_def)
    with \<open>gather _ _ _ _ _ _ _ _ = _\<close> lk Inr fe l show thesis by (intro sent [of legs b s2 w2 r3 w3 l k]) (auto simp: w2_def w1_def)
  qed
qed

end

section \<open>The deployed service meets the contract\<close>

lemma evaluate_world_policy_frame:
  "preserves (\<lambda>w. w = w0\<lparr>w_policy := w_policy w\<rparr>) (evaluate (world_policy mx al ap tl' vel) ctx now)"
proof -
  let ?I = "\<lambda>w. w = w0\<lparr>w_policy := w_policy w\<rparr>"
  have p: "preserves ?I (on_policy m)" for m :: "(policy_db, app_error, 'a) eff"
    by (rule preserves_zoom) (metis World.select_convs(4) World.surjective World.update_convs(4))
  have l: "preserves ?I (on_ledger (svc_isSolvent SqlLedgerStore a))" for a
    by (rule preserves_zoom)
      (auto simp: svc_isSolvent_def checkSolvency_def bind_def ret_def split: sum.splits)
  show ?thesis
    unfolding evaluate_def world_policy_def ask_def velocity_gate_def Let_def
    apply (auto intro!: preserves_bind preserves_ret p l preserves_try_catch preserves_throw split: option.splits)
    done
qed

lemma engine_check_frame:
  assumes "policy_check (world_policy mx al ap tl' vel) ctx now w = (r, w')"
  shows "w' = w\<lparr>w_policy := w_policy w'\<rparr>"
proof -
  have "preserves (\<lambda>v. v = w\<lparr>w_policy := w_policy v\<rparr>) (policy_check (world_policy mx al ap tl' vel) ctx now)"
    unfolding policy_check_def
    by (intro preserves_bind evaluate_world_policy_frame) (auto split: PolicyDecision.splits)
  from preservesD [OF this, of w] assms show ?thesis by simp
qed

interpretation engine_svc: payout_env "engine_payouts d (world_policy mx al ap tl' vel) ar now"
  for d mx al ap tl' vel ar now
proof (rule payout_env.intro)
  show "\<And>ctx now' w r w'. py_check (engine_payouts d (world_policy mx al ap tl' vel) ar now) ctx now' w = (r, w') \<Longrightarrow>
      w' = w\<lparr>w_policy := w_policy w'\<rparr>"
    by (simp add: engine_payouts_def engine_check_frame)
  show "payout_sender (py_send (engine_payouts d (world_policy mx al ap tl' vel) ar now))"
    using engine.payout_sender_axioms by (simp add: engine_payouts_def)
qed (simp add: engine_payouts_def)

section \<open>The whole payout\<close>

lemma journal_load_None_iff: "journal_load k t = None \<longleftrightarrow> \<not> list_ex (\<lambda>r. pi_idempotencyKey r = k) t"
  by (induction t) (auto simp: journal_load_def)

lemma journal_load_snoc:
  "journal_load k (t @ [r]) =
     (case journal_load k t of Some x \<Rightarrow> Some x | None \<Rightarrow> if pi_idempotencyKey r = k then Some r else None)"
  by (induction t) (auto simp: journal_load_def)

lemma journal_begin_run:
  "journal_begin uuid now i w =
     (case journal_load (ni_idempotencyKey i) (w_intents w) of
        Some row \<Rightarrow> (Inr row, w)
      | None \<Rightarrow> if list_ex (\<lambda>r. pi_id r = uuid) (w_intents w)
          then (Inl (ForeignError ''duplicate key value violates unique constraint'' False None (Some ''23505'')), w)
          else (Inr (intent_row uuid now i), w\<lparr>w_intents := w_intents w @ [intent_row uuid now i]\<rparr>))"
proof (cases "journal_load (ni_idempotencyKey i) (w_intents w)")
  case None
  moreover have "pi_idempotencyKey (intent_row uuid now i) = ni_idempotencyKey i" by (simp add: intent_row_def)
  ultimately show ?thesis
    using journal_load_None_iff [of "ni_idempotencyKey i" "w_intents w"]
    by (simp add: journal_begin_def intent_insert_def on_intents_def bind_def reads_def ret_def throw_def
        modify_def journal_load_snoc)
next
  case (Some row)
  then have "list_ex (\<lambda>r. pi_idempotencyKey r = ni_idempotencyKey i) (w_intents w)"
    using journal_load_None_iff [of "ni_idempotencyKey i" "w_intents w"] by simp
  with Some show ?thesis
    by (simp add: journal_begin_def intent_insert_def bind_def reads_def ret_def)
qed

abbreviation lock_key :: "PayoutParams \<Rightarrow> string" where
  "lock_key p \<equiv> pp_idempotencyKey p @ '':lock''"

abbreviation settle_key :: "PayoutParams \<Rightarrow> string" where
  "settle_key p \<equiv> ''settle:'' @ pp_idempotencyKey p"

text \<open>Where a payout can send: nowhere on the replay of a finished intent, else under the lease
  after the policy allowed it.\<close>

context payout_env
begin

lemma payout_stages:
  assumes "payout sv uuid now p w = (r, w')" "py_journal sv"
  obtains (finished) i where "journal_load (pp_idempotencyKey p) (w_intents w) = Some i" "pi_status i = Settled"
      "truthy (pi_txId i)" "w' = w"
      "r = Inr \<lparr>rs_txId = the (pi_txId i), rs_from = the_default [] (pi_fromAddress i), rs_legs = None\<rparr>"
  | (resumed) i r1 w1 where "journal_load (pp_idempotencyKey p) (w_intents w) = Some i" "pi_status i = Broadcast"
      "truthy (pi_txId i)" "truthy (pi_fromAddress i)" "settle p now w = (r1, w1)"
      "(\<exists>e. r1 = Inl e \<and> r = Inl e \<and> w' = w1) \<or>
       r1 = Inr () \<and> r = Inr \<lparr>rs_txId = the (pi_txId i), rs_from = the (pi_fromAddress i), rs_legs = None\<rparr>
         \<and> w' = snd (journalled sv (markSettled (pp_idempotencyKey p) now) w1)"
  | (conflict) "w' = w" "\<exists>e. r = Inl e"
  | (checked) i t r1 w1 where "journal_load (pp_idempotencyKey p) t = Some i"
      "t = w_intents w \<or> t = w_intents w @ [intent_row uuid now (new_intent p)]"
      "py_check sv (payout_context p (pi_createdAt i)) now (w\<lparr>w_intents := t\<rparr>) = (r1, w1)"
      "(\<exists>e. r1 = Inl e \<and> r = Inl e \<and> w' = w1) \<or> r1 = Inr () \<and> under_lease sv p now w1 = (r, w')"
proof -
  have k: "ni_idempotencyKey (new_intent p) = pp_idempotencyKey p" by (simp add: new_intent_def)
  obtain b v where jb: "journal_begin uuid now (new_intent p) w = (b, v)" by fastforce
  show thesis
  proof (cases b)
    case (Inl e)
    with jb have "v = w" by (auto simp: journal_begin_run split: option.splits if_splits)
    with assms jb Inl have "w' = w \<and> r = Inl e" by (simp add: payout_def bind_def)
    then show thesis by (intro conflict) auto
  next
    case (Inr i)
    define t where "t = w_intents v"
    have t: "v = w\<lparr>w_intents := t\<rparr>" "journal_load (pp_idempotencyKey p) t = Some i"
      "t = w_intents w \<or> t = w_intents w @ [intent_row uuid now (new_intent p)]"
      "i \<noteq> intent_row uuid now (new_intent p) \<Longrightarrow> v = w \<and> journal_load (pp_idempotencyKey p) (w_intents w) = Some i"
      using jb Inr k by (auto simp: journal_begin_run t_def journal_load_snoc intent_row_def split: option.splits if_splits)
    have new: "pi_status i \<noteq> Locked \<Longrightarrow> v = w \<and> journal_load (pp_idempotencyKey p) (w_intents w) = Some i"
      by (rule t(4)) (auto simp: intent_row_def)
    have run: "(if pi_status i = Settled \<and> truthy (pi_txId i)
           then ret \<lparr>rs_txId = the (pi_txId i), rs_from = the_default [] (pi_fromAddress i), rs_legs = None\<rparr>
           else if pi_status i = Broadcast \<and> truthy (pi_txId i) \<and> truthy (pi_fromAddress i)
           then bind (settle p now) (\<lambda>_.
                bind (journalled sv (markSettled (pp_idempotencyKey p) now)) (\<lambda>_.
                  ret \<lparr>rs_txId = the (pi_txId i), rs_from = the (pi_fromAddress i), rs_legs = None\<rparr>))
           else bind (py_check sv (payout_context p (pi_createdAt i)) now) (\<lambda>_. under_lease sv p now)) v = (r, w')"
      using assms jb Inr by (simp add: payout_def bind_def ret_def)
    consider (a) "pi_status i = Settled" "truthy (pi_txId i)"
      | (b) "pi_status i = Broadcast" "truthy (pi_txId i)" "truthy (pi_fromAddress i)"
      | (c) "\<not> (pi_status i = Settled \<and> truthy (pi_txId i))"
        "\<not> (pi_status i = Broadcast \<and> truthy (pi_txId i) \<and> truthy (pi_fromAddress i))" by blast
    then show thesis
    proof cases
      case a
      with new run show thesis by (intro finished) (auto simp: ret_def)
    next
      case b
      obtain r1 w1 where s: "settle p now w = (r1, w1)" by fastforce
      from b new have v: "v = w" "journal_load (pp_idempotencyKey p) (w_intents w) = Some i" by auto
      show thesis
        by (rule resumed [OF v(2) b s])
          (use run b v s in \<open>auto simp: bind_def ret_def journal_steps journalled_run split: sum.splits\<close>)
    next
      case c
      obtain r1 w1 where ck: "py_check sv (payout_context p (pi_createdAt i)) now (w\<lparr>w_intents := t\<rparr>) = (r1, w1)" by fastforce
      show thesis
        by (rule checked [OF t(2,3) ck])
          (use run c ck t(1) in \<open>auto simp: bind_def split: sum.splits\<close>)
    qed
  qed
qed

end

context payout_env
begin

lemma under_lease_run:
  assumes "under_lease sv p now w = (r, w')"
  obtains (busy) "\<exists>e. r = Inl e" "w' = w\<lparr>w_lease := w_lease w'\<rparr>" "py_gatherLease sv \<noteq> None \<Longrightarrow> w_lease w' = w_lease w"
  | (ran) t w2 where "payout_body sv p now (w\<lparr>w_lease := t\<rparr>) = (r, w2)"
      "w' = give_lease (py_gatherLease sv) (pp_tenant p) (pp_merchant p) (pp_chain p) (pp_idempotencyKey p) w2"
proof -
  obtain held w1 where tl: "take_lease (py_gatherLease sv) (pp_tenant p) (pp_merchant p) (pp_chain p)
      (pp_idempotencyKey p) now w = (held, w1)" by fastforce
  then have w1: "w1 = w\<lparr>w_lease := w_lease w1\<rparr>"
    by (auto simp: take_lease_def split: option.splits prod.splits)
  show thesis
  proof (cases held)
    case True
    obtain r2 w2 where b: "payout_body sv p now w1 = (r2, w2)" by fastforce
    with assms tl True have "r2 = r"
      "w' = give_lease (py_gatherLease sv) (pp_tenant p) (pp_merchant p) (pp_chain p) (pp_idempotencyKey p) w2"
      by (simp_all add: under_lease_def try_finally_def)
    with b w1 show thesis by (intro ran [of "w_lease w1" w2]) simp_all
  next
    case False
    with assms tl have e: "w' = w1" "\<exists>e. r = Inl e" by (auto simp: under_lease_def)
    have "w_lease w1 = w_lease w" if "py_gatherLease sv \<noteq> None"
      using tl False that
      by (auto simp: take_lease_def lease_acquire_def lease_acquire_row_def Let_def split: option.splits if_splits prod.splits)
    with e w1 show thesis by (intro busy) simp_all
  qed
qed

lemma give_lease_other [simp]:
  "w_sent (give_lease ttl t m c h w) = w_sent w" "w_ledger (give_lease ttl t m c h w) = w_ledger w"
  "w_intents (give_lease ttl t m c h w) = w_intents w" "w_pool (give_lease ttl t m c h w) = w_pool w"
  by (simp_all add: give_lease_def split: option.splits)

lemma body_sends:
  assumes run: "payout_body sv p now w = (r, w')"
    and dest: "pp_destination p \<notin> pa_address ` set (w_pool w)" and pool: "pool_step\<^sup>*\<^sup>* [] (w_pool w)"
    and tre: "\<And>dust tf. py_feeSweep sv = Some (dust, tf) \<Longrightarrow> tf (pp_chain p) \<noteq> Some (pp_destination p)"
  shows "\<exists>l. w_sent w' = w_sent w @ l \<and> distinct (map fst (transfers_to (pp_destination p) l))
    \<and> sum_list (map snd (transfers_to (pp_destination p) l)) \<le> max 0 (pp_amountBaseUnits p)
    \<and> (transfers_to (pp_destination p) l \<noteq> [] \<longrightarrow> lock_key p \<in> ledger_keys w')"
  using run dest pool
proof (cases rule: body_stages)
  case early
  then show ?thesis by (intro exI [of _ "[]"]) simp
next
  case (sent legs b s2 w2 r3 w3 l k)
  let ?d = "pp_destination p"
  note g = gather_legs [OF pool sent(1)]
  have "\<forall>x \<in> set (map gl_amountBaseUnits (drop k legs)). 0 \<le> x"
    using g by (auto simp: list_all_iff dest!: in_set_dropD)
  then have "sum_list (map gl_amountBaseUnits (drop k legs)) \<ge> 0" by (intro sum_list_nonneg) auto
  moreover have "sum_list (map gl_amountBaseUnits legs) =
      sum_list (map gl_amountBaseUnits (take k legs)) + sum_list (map gl_amountBaseUnits (drop k legs))"
    by (metis append_take_drop_id map_append sum_list_append)
  ultimately have le: "sum_list (map snd (transfers_to ?d l)) \<le> pp_amountBaseUnits p"
    using g sent(7) by (simp add: take_map o_def)
  have di: "distinct (map fst (transfers_to ?d l))"
    using g sent(7) by (simp add: take_map o_def) (metis distinct_take take_map)
  have w2: "w_sent w2 = w_sent w" "w_pool w2 = w_pool w" "w_ledger w2 = s2"
    by (simp_all add: sent(3) journal_steps journalled_run)
  have "w_ledger w3 = w_ledger w2" by (subst sent(5)) simp
  with lock_run [OF sent(2)] w2(3) have lk: "lock_key p \<in> ledger_keys w3" by (simp add: lock_input_def)
  have w3: "w_sent w3 = w_sent w @ l" "w_pool w3 = w_pool w" by (subst sent(5), simp add: w2)+
  from sent(9) show ?thesis
  proof (elim disjE exE conjE)
    fix e assume "w' = w3"
    with w3 le di lk show ?thesis by (intro exI [of _ l]) auto
  next
    fix s assume f: "payout_finish sv p now (case legs of [] \<Rightarrow> [] | l # _ \<Rightarrow> gs_address l) legs s w3 = (r, w')"
    have "preserves (moved (\<lambda>_. True) (\<lambda>q. pq_toAddress q \<noteq> ?d) w3)
        (payout_finish sv p now (case legs of [] \<Rightarrow> [] | l # _ \<Rightarrow> gs_address l) legs s)"
      using dest w3(2) by (intro finish_moved tre) simp_all
    from preservesD [OF this moved_refl] f have m: "moved (\<lambda>_. True) (\<lambda>q. pq_toAddress q \<noteq> ?d) w3 w'" by simp
    then obtain l' where l': "w_sent w' = w_sent w3 @ l'" "\<forall>(q, r) \<in> set l'. pq_toAddress q \<noteq> ?d" by (auto simp: moved_def)
    from m lk have "lock_key p \<in> ledger_keys w'" by (auto simp: moved_def)
    with l' w3 le di transfers_to_none [OF l'(2)] show ?thesis by (intro exI [of _ "l @ l'"]) auto
  qed
qed

lemma body_ok:
  assumes run: "payout_body sv p now w = (Inr res, w')"
    and dest: "pp_destination p \<notin> pa_address ` set (w_pool w)" and pool: "pool_step\<^sup>*\<^sup>* [] (w_pool w)"
    and tre: "\<And>dust tf. py_feeSweep sv = Some (dust, tf) \<Longrightarrow> tf (pp_chain p) \<noteq> Some (pp_destination p)"
    and fresh: "lock_key p \<notin> ledger_keys w" "settle_key p \<notin> ledger_keys w"
    and j: "py_journal sv" "journal_load (pp_idempotencyKey p) (w_intents w) = Some i"
  shows "\<exists>l ps i'. w_sent w' = w_sent w @ l \<and> distinct (map fst (transfers_to (pp_destination p) l))
    \<and> sum_list (map snd (transfers_to (pp_destination p) l)) = pp_amountBaseUnits p \<and> delivered (pp_destination p) l
    \<and> sql_log (w_ledger w') = sql_log (w_ledger w) @
        [post_debit (available_account p) (mk_Asset (pp_asset p)) (pp_amountBaseUnits p),
         post_credit (pending_account p) (mk_Asset (pp_asset p)) (pp_amountBaseUnits p),
         post_debit (pending_account p) (mk_Asset (pp_asset p)) (pp_amountBaseUnits p),
         post_credit (pool_account p) (mk_Asset (pp_asset p)) (pp_amountBaseUnits p)] @ ps
    \<and> list_all sweep_posting ps
    \<and> journal_load (pp_idempotencyKey p) (w_intents w') = Some i' \<and> pi_status i' = Settled
    \<and> pi_txId i' = Some (rs_txId res) \<and> pi_fromAddress i' = Some (rs_from res)"
  using run dest pool
proof (cases rule: body_stages)
  case (sent legs b s2 w2 r3 w3 l k)
  let ?d = "pp_destination p" and ?from = "case legs of [] \<Rightarrow> [] | l # _ \<Rightarrow> gs_address l"
  note g = gather_legs [OF pool sent(1)]
  from sent(9) obtain s where r3: "r3 = Inr s" and f: "payout_finish sv p now ?from legs s w3 = (Inr res, w')" by auto
  from sent(7,8) r3 have tr: "transfers_to ?d l = map leg_pair legs" "delivered ?d l" by simp_all
  have w2: "w_sent w2 = w_sent w" "w_pool w2 = w_pool w" "w_ledger w2 = s2"
    "journal_load (pp_idempotencyKey p) (w_intents w2) =
      Some (i\<lparr>pi_fromAddress := Some ?from, pi_status := Broadcasting, pi_updatedAt := now\<rparr>)"
    using j by (simp_all add: sent(3) journal_steps journalled_run journal_load_update)
  have w3: "w_sent w3 = w_sent w @ l" "w_pool w3 = w_pool w" "w_ledger w3 = s2" "w_intents w3 = w_intents w2"
    by (subst sent(5), simp add: w2)+
  from lock_run [OF sent(2)] fresh(1) have lk: "sql_log s2 = sql_log (w_ledger w) @
      [post_debit (available_account p) (mk_Asset (pp_asset p)) (pp_amountBaseUnits p),
         post_credit (pending_account p) (mk_Asset (pp_asset p)) (pp_amountBaseUnits p)]"
    "jr_idempotency_key ` set (sq_journal_entry s2) = insert (lock_key p) (ledger_keys w)"
    by (simp_all add: lock_input_def)
  have "length (settle_key p) \<noteq> length (lock_key p)" by simp
  then have "settle_key p \<noteq> lock_key p" by metis
  with fresh(2) lk(2) w3(3) have sk: "settle_key p \<notin> ledger_keys w3" by simp
  note fin = finish_ok [OF f sk]
  have "preserves (moved (\<lambda>_. True) (\<lambda>q. pq_toAddress q \<noteq> ?d) w3) (payout_finish sv p now ?from legs s)"
    using dest w3(2) by (intro finish_moved tre) simp_all
  from preservesD [OF this moved_refl] f have "moved (\<lambda>_. True) (\<lambda>q. pq_toAddress q \<noteq> ?d) w3 w'" by simp
  then obtain l' where l': "w_sent w' = w_sent w3 @ l'" "\<forall>(q, r) \<in> set l'. pq_toAddress q \<noteq> ?d" by (auto simp: moved_def)
  from fin(1) obtain ps where ps: "sql_log (w_ledger w') = sql_log (w_ledger w3) @
          [post_debit (pending_account p) (mk_Asset (pp_asset p)) (pp_amountBaseUnits p),
           post_credit (pool_account p) (mk_Asset (pp_asset p)) (pp_amountBaseUnits p)] @ ps" "list_all sweep_posting ps" by blast
  show ?thesis
    using g tr l' w3 transfers_to_none [OF l'(2)] delivered_none [OF l'(2)] ps lk(1) fin(3) [OF j(1)] w2(4)
    by (intro exI [of _ "l @ l'"] exI [of _ ps]) (simp add: o_def fin(2))
qed auto

end

section \<open>Properties of payouts\<close>

lemma engine_payouts_fields [simp]:
  "py_journal (engine_payouts d pol ar now)" "py_gatherLease (engine_payouts d pol ar now) = Some DEFAULT_TTL_MS"
  "py_feeSweep (engine_payouts d pol ar now) = Some (dp_dust d, dp_feeTreasuryAddressFor d)"
  "py_check (engine_payouts d pol ar now) = policy_check pol"
  by (simp_all add: engine_payouts_def)

definition ex_params :: PayoutParams where
  "ex_params = \<lparr>pp_tenant = ''t'', pp_merchant = ''m'', pp_chain = ''TRON'', pp_asset = ''USDT'',
     pp_amountBaseUnits = 100, pp_destination = ''Tdst'', pp_idempotencyKey = ''k'', pp_requester = Some ''alice'',
     pp_approvals = None\<rparr>"

definition ex_bare :: deployment where
  "ex_bare = ex_deployment\<lparr>dp_gasRules := [], dp_feeTreasuryAddressFor := (\<lambda>_. None)\<rparr>"

definition ex_vel500 :: VelocityConfig where
  "ex_vel500 = \<lparr>vc_windowMs = 1000, vc_maxTotalBaseUnits = 500\<rparr>"

abbreviation ex_service :: "deployment \<Rightarrow> int \<Rightarrow> PayoutService" where
  "ex_service d \<equiv> engine_payouts d (world_policy 200 [''Tdst''] None None ex_vel500) 0"

lemma ex_world_facts:
  "pool_step\<^sup>*\<^sup>* [] (w_pool ex_world)" "pp_destination ex_params \<notin> pa_address ` set (w_pool ex_world)"
  "dp_feeTreasuryAddressFor ex_bare (pp_chain ex_params) \<noteq> Some (pp_destination ex_params)"
  "journal_load (pp_idempotencyKey ex_params) (w_intents ex_world) = None"
  "lock_key ex_params \<notin> ledger_keys ex_world" "settle_key ex_params \<notin> ledger_keys ex_world"
proof -
  show "pool_step\<^sup>*\<^sup>* [] (w_pool ex_world)" using ex_gather_reach by (simp add: ex_world_def)
qed code_simp+

text \<open>C1. A new payout that succeeds pays exactly the requested amount: the transfers it sent to
  the destination come from distinct addresses, were all accepted, and sum to the amount;
  the ledger gained exactly the lock and the settlement, besides postings of swept fees; the
  intent is settled under the returned transaction and source; and no lease of the payout
  is left.\<close>

theorem payout_pays_exactly:
  assumes "payout (engine_payouts d (world_policy mx al ap tl' vel) ar now) uuid now p w = (Inr res, w')"
    and "journal_load (pp_idempotencyKey p) (w_intents w) = None"
    and "lock_key p \<notin> ledger_keys w" and "settle_key p \<notin> ledger_keys w"
    and "pool_step\<^sup>*\<^sup>* [] (w_pool w)" and "pp_destination p \<notin> pa_address ` set (w_pool w)"
    and "dp_feeTreasuryAddressFor d (pp_chain p) \<noteq> Some (pp_destination p)"
  shows "\<exists>l ps i. w_sent w' = w_sent w @ l \<and> distinct (map fst (transfers_to (pp_destination p) l))
    \<and> sum_list (map snd (transfers_to (pp_destination p) l)) = pp_amountBaseUnits p \<and> delivered (pp_destination p) l
    \<and> sql_log (w_ledger w') = sql_log (w_ledger w) @
        [post_debit (available_account p) (mk_Asset (pp_asset p)) (pp_amountBaseUnits p),
         post_credit (pending_account p) (mk_Asset (pp_asset p)) (pp_amountBaseUnits p),
         post_debit (pending_account p) (mk_Asset (pp_asset p)) (pp_amountBaseUnits p),
         post_credit (pool_account p) (mk_Asset (pp_asset p)) (pp_amountBaseUnits p)] @ ps
    \<and> list_all sweep_posting ps
    \<and> journal_load (pp_idempotencyKey p) (w_intents w') = Some i \<and> pi_status i = Settled
    \<and> pi_txId i = Some (rs_txId res) \<and> pi_fromAddress i = Some (rs_from res)
    \<and> (\<forall>row. (lease_key (pp_tenant p) (pp_merchant p) (pp_chain p), row) \<in> set (w_lease w') \<longrightarrow>
         lr_holder row \<noteq> pp_idempotencyKey p)"
  using assms(1) engine_payouts_fields(1)
proof (cases rule: engine_svc.payout_stages)
  case (checked i t r1 w1)
  let ?sv = "engine_payouts d (world_policy mx al ap tl' vel) ar now"
  from checked(4) have ul: "under_lease ?sv p now w1 = (Inr res, w')" by auto
  have w1: "w1 = (w\<lparr>w_intents := t\<rparr>)\<lparr>w_policy := w_policy w1\<rparr>"
    by (rule engine_check_frame) (use checked(3) in simp)
  then have f: "w_sent w1 = w_sent w" "w_ledger w1 = w_ledger w" "w_pool w1 = w_pool w" "w_intents w1 = t"
    by (metis World.select_convs World.surjective World.update_convs)+
  from ul show ?thesis
  proof (cases rule: engine_svc.under_lease_run)
    case (ran t2 w2)
    have "\<exists>l ps i'. w_sent w2 = w_sent (w1\<lparr>w_lease := t2\<rparr>) @ l \<and> distinct (map fst (transfers_to (pp_destination p) l))
    \<and> sum_list (map snd (transfers_to (pp_destination p) l)) = pp_amountBaseUnits p \<and> delivered (pp_destination p) l
    \<and> sql_log (w_ledger w2) = sql_log (w_ledger (w1\<lparr>w_lease := t2\<rparr>)) @
        [post_debit (available_account p) (mk_Asset (pp_asset p)) (pp_amountBaseUnits p),
         post_credit (pending_account p) (mk_Asset (pp_asset p)) (pp_amountBaseUnits p),
         post_debit (pending_account p) (mk_Asset (pp_asset p)) (pp_amountBaseUnits p),
         post_credit (pool_account p) (mk_Asset (pp_asset p)) (pp_amountBaseUnits p)] @ ps
    \<and> list_all sweep_posting ps
    \<and> journal_load (pp_idempotencyKey p) (w_intents w2) = Some i' \<and> pi_status i' = Settled
    \<and> pi_txId i' = Some (rs_txId res) \<and> pi_fromAddress i' = Some (rs_from res)"
      by (rule engine_svc.body_ok [OF ran(1)]) (use assms checked(1) f in auto)
    moreover have "\<forall>row. (lease_key (pp_tenant p) (pp_merchant p) (pp_chain p), row) \<in> set (w_lease w') \<longrightarrow>
         lr_holder row \<noteq> pp_idempotencyKey p"
      by (auto simp: ran(2) give_lease_def lease_release_def)
    ultimately show ?thesis using f by (simp add: ran(2) del: ex_simps)
  qed auto
qed (use assms(2) in auto)

theorem payout_pays_exactly_witness:
  "\<exists>res w'. payout (ex_service ex_bare 20) ''u'' 20 ex_params ex_world = (Inr res, w')
    \<and> (\<exists>l. w_sent w' = w_sent ex_world @ l \<and> sum_list (map snd (transfers_to ''Tdst'' l)) = 100)"
proof -
  let ?s = "payout (ex_service ex_bare 20) ''u'' 20 ex_params ex_world"
  have c: "isl (fst ?s) = False" "pp_destination ex_params = ''Tdst''" "pp_amountBaseUnits ex_params = 100" by code_simp+
  obtain r w' where s: "?s = (r, w')" by fastforce
  with c obtain res where r: "?s = (Inr res, w')" by (cases r) auto
  from payout_pays_exactly [OF r ex_world_facts(4,5,6,1,2,3)] c(2,3) r show ?thesis by auto
qed

text \<open>C3. No call ever overpays, whatever its outcome and whatever the state of its intent: the
  transfers it sends to the destination come from distinct addresses and sum to at most the
  requested amount; and if it sends any, the policy allowed the payout and the amount is
  locked in the ledger under the payout's key.\<close>

theorem payout_never_overpays:
  assumes "payout (engine_payouts d (world_policy mx al ap tl' vel) ar now) uuid now p w = (r, w')"
    and "pool_step\<^sup>*\<^sup>* [] (w_pool w)" and "pp_destination p \<notin> pa_address ` set (w_pool w)"
    and "dp_feeTreasuryAddressFor d (pp_chain p) \<noteq> Some (pp_destination p)"
  shows "\<exists>l. w_sent w' = w_sent w @ l \<and> distinct (map fst (transfers_to (pp_destination p) l))
    \<and> sum_list (map snd (transfers_to (pp_destination p) l)) \<le> max 0 (pp_amountBaseUnits p)
    \<and> (transfers_to (pp_destination p) l \<noteq> [] \<longrightarrow> lock_key p \<in> ledger_keys w'
        \<and> (\<exists>t at w1. evaluate (world_policy mx al ap tl' vel) (payout_context p at) now (w\<lparr>w_intents := t\<rparr>) = (Inr ALLOW, w1)))"
    (is "?P w'")
proof -
  let ?sv = "engine_payouts d (world_policy mx al ap tl' vel) ar now"
  have same: "?P v" if "w_sent v = w_sent w" for v using that by (intro exI [of _ "[]"]) simp
  from assms(1) engine_payouts_fields(1) show ?thesis
  proof (cases rule: engine_svc.payout_stages)
    case (resumed i r1 w1)
    from settle_run [OF resumed(5)] have "w_sent w1 = w_sent w" by auto
    with resumed(6) show ?thesis by (intro same) (auto simp: journal_steps journalled_run)
  next
    case (checked i t r1 w1)
    have "w1 = (w\<lparr>w_intents := t\<rparr>)\<lparr>w_policy := w_policy w1\<rparr>"
      by (rule engine_check_frame) (use checked(3) in simp)
    then have f: "w_sent w1 = w_sent w" "w_pool w1 = w_pool w"
      by (metis World.select_convs World.surjective World.update_convs)+
    from checked(4) show ?thesis
    proof (elim disjE exE conjE)
      fix e assume "w' = w1"
      with f show ?thesis by (intro same) simp
    next
      assume r1: "r1 = Inr ()" and ul: "under_lease ?sv p now w1 = (r, w')"
      from checked(3) r1 have al: "evaluate (world_policy mx al ap tl' vel) (payout_context p (pi_createdAt i)) now
          (w\<lparr>w_intents := t\<rparr>) = (Inr ALLOW, w1)" by (simp add: policy_check_iff)
      from ul show ?thesis
      proof (cases rule: engine_svc.under_lease_run)
        case busy
        then have "w_sent w' = w_sent w1" by (metis World.select_convs(7) World.surjective World.update_convs(3))
        with f show ?thesis by (intro same) simp
      next
        case (ran t2 w2)
        have "\<exists>l. w_sent w2 = w_sent (w1\<lparr>w_lease := t2\<rparr>) @ l \<and> distinct (map fst (transfers_to (pp_destination p) l))
            \<and> sum_list (map snd (transfers_to (pp_destination p) l)) \<le> max 0 (pp_amountBaseUnits p)
            \<and> (transfers_to (pp_destination p) l \<noteq> [] \<longrightarrow> lock_key p \<in> ledger_keys w2)"
          by (rule engine_svc.body_sends [OF ran(1)]) (use assms f in auto)
        then obtain l where "w_sent w2 = w_sent w @ l" "distinct (map fst (transfers_to (pp_destination p) l))"
          "sum_list (map snd (transfers_to (pp_destination p) l)) \<le> max 0 (pp_amountBaseUnits p)"
          "transfers_to (pp_destination p) l \<noteq> [] \<longrightarrow> lock_key p \<in> ledger_keys w2" using f by auto
        with al ran(2) show ?thesis by (intro exI [of _ l]) auto
      qed
    qed
  qed (auto intro!: same)
qed

theorem payout_never_overpays_witness:
  "\<exists>l. w_sent (snd (payout (ex_service ex_bare 20) ''u'' 20 ex_params ex_world)) = w_sent ex_world @ l
    \<and> sum_list (map snd (transfers_to (pp_destination ex_params) l)) \<le> max 0 (pp_amountBaseUnits ex_params)"
  using payout_never_overpays [OF surjective_pairing ex_world_facts(1-3),
    where mx = 200 and al = "[''Tdst'']" and ap = None and tl' = None and vel = ex_vel500 and ar = 0 and now = 20
      and uuid = "''u''"]
  by blast

text \<open>C11. A retry never resends what is on the chain: for an intent that is settled, or broadcast
  with a transaction and source recorded, a call sends nothing and, if it returns, returns the
  recorded transaction; a settled one changes nothing at all, and a broadcast one is settled
  once the call has returned.\<close>

theorem payout_replay_is_safe:
  assumes "payout (engine_payouts d (world_policy mx al ap tl' vel) ar now) uuid now p w = (r, w')"
    and "journal_load (pp_idempotencyKey p) (w_intents w) = Some i"
    and "pi_status i = Settled \<or> pi_status i = Broadcast" and "truthy (pi_txId i)" and "truthy (pi_fromAddress i)"
  shows "w_sent w' = w_sent w
    \<and> (\<forall>res. r = Inr res \<longrightarrow> rs_txId res = the (pi_txId i) \<and> rs_from res = the (pi_fromAddress i)
        \<and> (\<exists>i'. journal_load (pp_idempotencyKey p) (w_intents w') = Some i' \<and> pi_status i' = Settled))
    \<and> (pi_status i = Settled \<longrightarrow> w' = w \<and> \<not> isl r)"
proof -
  let ?sv = "engine_payouts d (world_policy mx al ap tl' vel) ar now"
  have jb: "journal_begin uuid now (new_intent p) w = (Inr i, w)"
    using assms(2) by (simp add: journal_begin_run new_intent_def)
  show ?thesis
  proof (cases "pi_status i = Settled")
    case True
    with assms(1,4) jb have "r = Inr \<lparr>rs_txId = the (pi_txId i), rs_from = the_default [] (pi_fromAddress i), rs_legs = None\<rparr>"
      "w' = w" by (auto simp: payout_def bind_def ret_def)
    with True assms(2,5) show ?thesis by (auto simp: truthy_def)
  next
    case False
    with assms(3) have b: "pi_status i = Broadcast" by simp
    obtain r1 w1 where s: "settle p now w = (r1, w1)" by fastforce
    from settle_run [OF s] have w1: "w_sent w1 = w_sent w" "w_intents w1 = w_intents w" by auto
    have "(\<exists>e. r = Inl e) \<and> w' = w1 \<or> r = Inr \<lparr>rs_txId = the (pi_txId i), rs_from = the (pi_fromAddress i), rs_legs = None\<rparr>
        \<and> w' = snd (journalled ?sv (markSettled (pp_idempotencyKey p) now) w1)"
      using assms(1,4,5) jb b s
      by (auto simp: payout_def bind_def ret_def journal_steps journalled_run split: sum.splits)
    with w1 b assms(2) show ?thesis by (auto simp: journal_steps journalled_run journal_load_update)
  qed
qed

definition ex_intent :: PayoutIntent where
  "ex_intent = (intent_row ''u'' 5 (new_intent ex_params))\<lparr>pi_status := Broadcast, pi_txId := Some ''tx0'',
     pi_fromAddress := Some ''T0''\<rparr>"

theorem payout_replay_is_safe_witness:
  "w_sent (snd (payout (ex_service ex_bare 20) ''v'' 20 ex_params (ex_world\<lparr>w_intents := [ex_intent]\<rparr>))) = w_sent ex_world"
  using payout_replay_is_safe [OF surjective_pairing, where d = ex_bare and mx = 200 and al = "[''Tdst'']" and ap = None
      and tl' = None and vel = ex_vel500 and ar = 0 and now = 20 and uuid = "''v''" and p = ex_params
      and w = "ex_world\<lparr>w_intents := [ex_intent]\<rparr>" and i = ex_intent]
  by (simp add: ex_intent_def intent_row_def new_intent_def journal_load_def truthy_def)

text \<open>C26. However a payout ends, it leaves no lease behind: the lease table is as it was before, or
  holds no lease of this payout on the merchant's addresses.\<close>

theorem payout_leaves_no_lease:
  "case payout (engine_payouts d (world_policy mx al ap tl' vel) ar now) uuid now p w of (r, w') \<Rightarrow>
     w_lease w' = w_lease w
     \<or> list_all (\<lambda>(k, row). k = lease_key (pp_tenant p) (pp_merchant p) (pp_chain p) \<longrightarrow>
         lr_holder row \<noteq> pp_idempotencyKey p) (w_lease w')"
proof -
  let ?sv = "engine_payouts d (world_policy mx al ap tl' vel) ar now"
  obtain r w' where run: "payout ?sv uuid now p w = (r, w')" by fastforce
  have "w_lease w' = w_lease w
     \<or> list_all (\<lambda>(k, row). k = lease_key (pp_tenant p) (pp_merchant p) (pp_chain p) \<longrightarrow>
         lr_holder row \<noteq> pp_idempotencyKey p) (w_lease w')"
    using run engine_payouts_fields(1)
  proof (cases rule: engine_svc.payout_stages)
    case (resumed i r1 w1)
    from settle_run [OF resumed(5)] resumed(6) show ?thesis by (auto simp: journal_steps journalled_run)
  next
    case (checked i t r1 w1)
    have "w1 = (w\<lparr>w_intents := t\<rparr>)\<lparr>w_policy := w_policy w1\<rparr>"
      by (rule engine_check_frame) (use checked(3) in simp)
    then have f: "w_lease w1 = w_lease w" by (metis World.select_convs World.surjective World.update_convs)
    from checked(4) show ?thesis
    proof (elim disjE exE conjE)
      assume "under_lease ?sv p now w1 = (r, w')"
      then show ?thesis
      proof (cases rule: engine_svc.under_lease_run)
        case (ran t2 w2)
        then show ?thesis by (auto simp: give_lease_def lease_release_def list_all_iff)
      qed (use f in simp)
    qed (use f in simp)
  qed auto
  with run show ?thesis by simp
qed

theorem payout_leaves_no_lease_witness:
  "list_all (\<lambda>(k, row). k = lease_key ''t'' ''m'' ''TRON'' \<longrightarrow> lr_holder row \<noteq> ''k'')
     (w_lease (snd (payout (ex_service ex_bare 20) ''u'' 20 ex_params ex_world)))"
proof -
  have "w_lease ex_world = []" by (simp add: ex_world_def world_init_def)
  with payout_leaves_no_lease [where d = ex_bare and mx = 200 and al = "[''Tdst'']" and ap = None
      and tl' = None and vel = ex_vel500 and ar = 0 and now = 20 and uuid = "''u''" and p = ex_params and w = ex_world]
  show ?thesis by (auto simp: ex_params_def split: prod.splits)
qed

text \<open>The requester cannot approve: an approval by the requester of an unsettled withdrawal is
  refused with a separation-of-duties error and changes nothing, and so is one without a name;
  an unknown withdrawal is refused as not found.\<close>

theorem self_approval_refused:
  "case loadById tenant wid (w_intents w) of
     None \<Rightarrow> payout_approve (engine_payouts d pol ar now) uuid now tenant wid approver w =
       (Inl (WithdrawalNotFoundError (''No withdrawal '' @ wid)), w)
   | Some i \<Rightarrow> if pi_status i \<noteq> Settled \<and> (approver = [] \<or> pi_requestedBy i = Some approver)
       then \<exists>m. payout_approve (engine_payouts d pol ar now) uuid now tenant wid approver w = (Inl (SelfApprovalError m), w)
       else True"
  by (auto simp: payout_approve_def engine_payouts_def bind_def reads_def throw_def zoom_def approve_def
      split: option.splits)

text \<open>A retry after a partly failed broadcast sends the first leg again: the intent is still
  \<open>broadcasting\<close>, so the second call gathers and sends every leg, under a lock that is only
  taken once. Of 100 requested, 170 are delivered.\<close>

lemma retry_after_partial_broadcast_pays_twice:
  "(let d = ex_bare\<lparr>dp_chain := (\<lambda>l q. if length l = 1 then Inl (JsError ''timeout'') else Inr ''tx'')\<rparr> in
    case payout (ex_service d 20) ''u'' 20 ex_params ex_world of (r, w) \<Rightarrow>
    case payout (ex_service d 30) ''v'' 30 ex_params w of (r', w') \<Rightarrow>
      (isl r, isl r', transfers_to ''Tdst'' (filter (\<lambda>(q, r). \<not> isl r) (w_sent w')))) =
   (True, False, [(''T0'', 70), (''T0'', 70), (''T1'', 30)])"
  by code_simp

end
