(* ===== verification/Webhooks.thy ===== *)
theory Webhooks
  imports Authorization
begin

text \<open>
  Webhooks (\<open>src/chains/webhooks.ts\<close>, \<open>src/queries/webhook.queries.ts\<close>, the tables
  \<open>webhook_endpoint\<close> and \<open>webhook_delivery\<close> of \<open>src/schemas/sql/api.schema.ts\<close>): the endpoint
  store, signatures, the outbox with its claims and back-off, and the dispatcher.

  The HTTP exchange is a parameter: a function of the requests made before that answers with
  a status or an exception. \<open>FOR UPDATE SKIP LOCKED\<close> makes a claim one atomic step, so
  concurrent workers are sequences of claims.
\<close>

section \<open>Timestamps\<close>

text \<open>\<open>Date.toISOString\<close> for the years 0 to 9999, from the civil calendar.\<close>

definition civil_of_days :: "int \<Rightarrow> int \<times> int \<times> int" where
  "civil_of_days days =
     (let z = days + 719468; era = z div 146097; doe = z mod 146097;
          yoe = (doe - doe div 1460 + doe div 36524 - doe div 146096) div 365;
          doy = doe - (365 * yoe + yoe div 4 - yoe div 100);
          mp = (5 * doy + 2) div 153;
          d = doy - (153 * mp + 2) div 5 + 1;
          m = (if mp < 10 then mp + 3 else mp - 9)
      in (yoe + era * 400 + (if m \<le> 2 then 1 else 0), m, d))"

definition iso_string :: "int \<Rightarrow> string" where
  "iso_string ms =
     (let day = ms div 86400000; t = ms mod 86400000; pad = (\<lambda>n x. padStart n (CHR ''0'') (show_int x))
      in case civil_of_days day of (y, m, d) \<Rightarrow>
        pad 4 y @ ''-'' @ pad 2 m @ ''-'' @ pad 2 d @ ''T'' @ pad 2 (t div 3600000) @ '':''
        @ pad 2 (t div 60000 mod 60) @ '':'' @ pad 2 (t div 1000 mod 60) @ ''.'' @ pad 3 (t mod 1000) @ ''Z'')"

section \<open>Signatures\<close>

definition signWebhook :: "crypto \<Rightarrow> string \<Rightarrow> string \<Rightarrow> string" where
  "signWebhook cr secret body = ''sha256='' @ cr_hmac cr secret body"

definition verifyWebhook :: "crypto \<Rightarrow> string \<Rightarrow> string \<Rightarrow> string \<Rightarrow> bool" where
  "verifyWebhook cr secret body signature =
     (let expected = signWebhook cr secret body in length expected = length signature \<and> expected = signature)"

section \<open>Endpoints and deliveries\<close>

datatype delivery_status = Pending | Delivered | Dead

record delivery_row =
  wl_id :: string
  wl_tenant_id :: string
  wl_body :: string
  wl_status :: delivery_status
  wl_attempts :: nat
  wl_next_attempt :: int
  wl_last_error :: "string option"

text \<open>The tables, and the requests made: URL, body and signature.\<close>

record webhook_db =
  wh_endpoints :: "(string, string \<times> string) jsmap"
  wh_deliveries :: "delivery_row list"
  wh_posts :: "(string \<times> string \<times> string) list"

definition endpoint_set :: "string \<Rightarrow> string \<Rightarrow> string \<Rightarrow> webhook_db \<Rightarrow> webhook_db" where
  "endpoint_set tenantId url secret db = db\<lparr>wh_endpoints := AList.update tenantId (url, secret) (wh_endpoints db)\<rparr>"

definition endpoint_get :: "string \<Rightarrow> webhook_db \<Rightarrow> (string \<times> string) option" where
  "endpoint_get tenantId db = map_of (wh_endpoints db) tenantId"

definition MAX_ATTEMPTS :: nat where
  "MAX_ATTEMPTS = 8"

definition BACKOFF_BASE_MS :: int where
  "BACKOFF_BASE_MS = 5000"

definition BACKOFF_MAX_MS :: int where
  "BACKOFF_MAX_MS = 60 * 60000"

text \<open>The payload of an event: its data is a list of string fields.\<close>

definition webhook_body :: "string \<Rightarrow> string \<Rightarrow> (string \<times> string) list \<Rightarrow> int \<Rightarrow> string" where
  "webhook_body i event data now =
     ''{'' @ json_key ''id'' @ json_string i @ '','' @ json_key ''event'' @ json_string event @ '',''
     @ json_key ''data'' @ ''{'' @ join_with '','' (map (\<lambda>(k, v). json_key k @ json_string v) data) @ ''},''
     @ json_key ''ts'' @ json_string (iso_string now) @ ''}''"

definition outbox_enqueue ::
  "string \<Rightarrow> int \<Rightarrow> string \<Rightarrow> string \<Rightarrow> (string \<times> string) list \<Rightarrow> (webhook_db, app_error, string) eff" where
  "outbox_enqueue uuid now tenantId event data db =
     (if list_ex (\<lambda>r. wl_id r = uuid) (wh_deliveries db)
      then (Inl (ForeignError ''duplicate key value violates unique constraint'' False None (Some ''23505'')), db)
      else (Inr uuid, db\<lparr>wh_deliveries := wh_deliveries db @
        [\<lparr>wl_id = uuid, wl_tenant_id = tenantId, wl_body = webhook_body uuid event data now, wl_status = Pending,
          wl_attempts = 0, wl_next_attempt = now, wl_last_error = None\<rparr>]\<rparr>))"

definition due :: "int \<Rightarrow> delivery_row \<Rightarrow> bool" where
  "due now r \<longleftrightarrow> wl_status r = Pending \<and> wl_next_attempt r \<le> now"

definition claimDue :: "int \<Rightarrow> nat \<Rightarrow> int \<Rightarrow> webhook_db \<Rightarrow> delivery_row list \<times> webhook_db" where
  "claimDue now limit leaseMs db =
     (let rows = take limit (sort_key wl_next_attempt (filter (due now) (wh_deliveries db)));
          ids = map wl_id rows
      in (rows, db\<lparr>wh_deliveries := map (\<lambda>r. if wl_id r \<in> set ids then r\<lparr>wl_next_attempt := now + leaseMs\<rparr> else r)
            (wh_deliveries db)\<rparr>))"

definition update_delivery :: "string \<Rightarrow> (delivery_row \<Rightarrow> delivery_row) \<Rightarrow> webhook_db \<Rightarrow> webhook_db" where
  "update_delivery i f db = db\<lparr>wh_deliveries := map (\<lambda>r. if wl_id r = i then f r else r) (wh_deliveries db)\<rparr>"

definition markDelivered :: "string \<Rightarrow> webhook_db \<Rightarrow> webhook_db" where
  "markDelivered i = update_delivery i (\<lambda>r. r\<lparr>wl_status := Delivered\<rparr>)"

definition recordFailure :: "string \<Rightarrow> nat \<Rightarrow> int \<Rightarrow> string \<Rightarrow> bool \<Rightarrow> webhook_db \<Rightarrow> webhook_db" where
  "recordFailure i attempts nextAttempt err dead = update_delivery i (\<lambda>r. r\<lparr>wl_attempts := attempts,
     wl_next_attempt := nextAttempt, wl_last_error := Some (take 500 err), wl_status := (if dead then Dead else Pending)\<rparr>)"

definition backoffAt :: "int \<Rightarrow> nat \<Rightarrow> int" where
  "backoffAt now attempts = now + min (BACKOFF_BASE_MS * 2 ^ (attempts - 1)) BACKOFF_MAX_MS"

section \<open>Posting and dispatching\<close>

text \<open>\<open>FetchWebhookPoster.post\<close> over the exchange \<open>http\<close> and the check \<open>allowed\<close> of the URL.\<close>

type_synonym webhook_http = "(string \<times> string \<times> string) list \<Rightarrow> string \<Rightarrow> app_error + int"

definition fetch_post ::
  "(string \<Rightarrow> app_error + unit) \<Rightarrow> webhook_http \<Rightarrow> string \<Rightarrow> string \<Rightarrow> string \<Rightarrow> (webhook_db, app_error, bool \<times> int) eff" where
  "fetch_post allowed http url body sig =
     bind (lift (allowed url)) (\<lambda>_.
     bind (\<lambda>db. (http (wh_posts db) url, db\<lparr>wh_posts := wh_posts db @ [(url, body, sig)]\<rparr>)) (\<lambda>status.
       if 300 \<le> status \<and> status < 400
       then throw (JsError (''endpoint redirected ('' @ show_int status @ ''); webhook targets must not redirect''))
       else ret (200 \<le> status \<and> status < 300, status)))"

text \<open>\<open>show_err\<close> is \<open>String(err)\<close>, the name of the exception's class and its message.\<close>

definition dispatch_one ::
  "crypto \<Rightarrow> (app_error \<Rightarrow> string) \<Rightarrow> (string \<Rightarrow> string \<Rightarrow> string \<Rightarrow> (webhook_db, app_error, bool \<times> int) eff) \<Rightarrow> int \<Rightarrow> delivery_row \<Rightarrow>
   nat \<times> nat \<Rightarrow> (webhook_db, app_error, nat \<times> nat) eff" where
  "dispatch_one cr show_err post' now row = (\<lambda>(delivered, failed) db.
     let attempts = wl_attempts row + 1 in
     case endpoint_get (wl_tenant_id row) db of
       None \<Rightarrow> (Inr (delivered, failed + 1), recordFailure (wl_id row) attempts now ''no webhook endpoint'' True db)
     | Some (url, secret) \<Rightarrow>
         try_catch
           (bind (post' url (wl_body row) (signWebhook cr secret (wl_body row))) (\<lambda>(ok, status).
             if \<not> ok then throw (JsError (''endpoint returned '' @ show_int status))
             else bind (modify (markDelivered (wl_id row))) (\<lambda>_. ret (delivered + 1, failed))))
           (\<lambda>err. bind (modify (recordFailure (wl_id row) attempts (backoffAt now attempts)
               (show_err err) (attempts \<ge> MAX_ATTEMPTS))) (\<lambda>_. ret (delivered, failed + 1))) db)"

definition dispatchDue ::
  "crypto \<Rightarrow> (app_error \<Rightarrow> string) \<Rightarrow> (string \<Rightarrow> string \<Rightarrow> string \<Rightarrow> (webhook_db, app_error, bool \<times> int) eff) \<Rightarrow> int \<Rightarrow> nat \<Rightarrow>
   (webhook_db, app_error, nat \<times> nat) eff" where
  "dispatchDue cr show_err post' now limit =
     bind (\<lambda>db. case claimDue now limit 60000 db of (rows, db') \<Rightarrow> (Inr rows, db')) (\<lambda>rows.
       for_each (dispatch_one cr show_err post' now) rows (0, 0))"

section \<open>The contract of a poster\<close>

text \<open>A poster touches neither endpoints nor deliveries.\<close>

locale webhook_poster =
  fixes post' :: "string \<Rightarrow> string \<Rightarrow> string \<Rightarrow> (webhook_db, app_error, bool \<times> int) eff"
  assumes post_frame: "post' url body sig db = (r, db') \<Longrightarrow> db' = db\<lparr>wh_posts := wh_posts db'\<rparr>"

interpretation fetch: webhook_poster "fetch_post allowed http" for allowed http
  by unfold_locales
    (auto simp: fetch_post_def bind_def lift_def ret_def throw_def split: sum.splits if_splits)

section \<open>Claims and deliveries: lemmas\<close>

text \<open>What one dispatched row becomes: delivered, or one more failed attempt, dead when it had
  no endpoint or was the last.\<close>

definition failed_as :: "delivery_row \<Rightarrow> delivery_row \<Rightarrow> delivery_row \<Rightarrow> bool" where
  "failed_as row r r' \<longleftrightarrow> wl_id r' = wl_id r \<and> wl_body r' = wl_body r \<and> wl_tenant_id r' = wl_tenant_id r
     \<and> wl_attempts r' = wl_attempts row + 1 \<and> wl_status r' \<in> {Pending, Dead}
     \<and> (wl_status r' = Pending \<longrightarrow> wl_attempts row + 1 < MAX_ATTEMPTS)"

context webhook_poster
begin

lemma dispatch_one_run:
  assumes "dispatch_one cr show_err post' now row acc db = (r, db')"
  shows "\<exists>f acc'. r = Inr acc' \<and> wh_endpoints db' = wh_endpoints db
    \<and> wh_deliveries db' = map (\<lambda>x. if wl_id x = wl_id row then f x else x) (wh_deliveries db)
    \<and> (f = (\<lambda>x. x\<lparr>wl_status := Delivered\<rparr>) \<or> (\<forall>x. failed_as row x (f x)))"
proof -
  obtain d e where acc: "acc = (d, e)" by (cases acc)
  show ?thesis
  proof (cases "endpoint_get (wl_tenant_id row) db")
    case None
    let ?f = "\<lambda>x. x\<lparr>wl_attempts := wl_attempts row + 1, wl_next_attempt := now,
      wl_last_error := Some (take 500 ''no webhook endpoint''), wl_status := Dead\<rparr>"
    have "\<forall>x. failed_as row x (?f x)" by (simp add: failed_as_def)
    with None assms acc show ?thesis
      by (intro exI [of _ ?f] exI [of _ "(d, e + 1)"])
        (auto simp: dispatch_one_def recordFailure_def update_delivery_def)
  next
    case (Some ep)
    obtain url secret where ep: "ep = (url, secret)" by (cases ep)
    obtain pr db1 where p: "post' url (wl_body row) (signWebhook cr secret (wl_body row)) db = (pr, db1)" by fastforce
    from post_frame [OF p] have db1: "wh_endpoints db1 = wh_endpoints db" "wh_deliveries db1 = wh_deliveries db"
      by (metis webhook_db.ext_inject webhook_db.surjective webhook_db.update_convs(3))+
    show ?thesis
    proof (cases "\<exists>status. pr = Inr (True, status)")
      case True
      with Some ep p assms acc db1 show ?thesis
        by (intro exI [of _ "\<lambda>x. x\<lparr>wl_status := Delivered\<rparr>"] exI [of _ "(d + 1, e)"])
          (auto simp: dispatch_one_def try_catch_def bind_def modify_def ret_def markDelivered_def update_delivery_def)
    next
      case False
      then obtain err where run: "r = Inr (d, e + 1)"
        "db' = recordFailure (wl_id row) (wl_attempts row + 1) (backoffAt now (wl_attempts row + 1)) err
          (wl_attempts row + 1 \<ge> MAX_ATTEMPTS) db1"
        using Some ep p assms acc
        by (cases pr) (auto simp: dispatch_one_def try_catch_def bind_def modify_def ret_def throw_def split: prod.splits)
      let ?f = "\<lambda>x. x\<lparr>wl_attempts := wl_attempts row + 1, wl_next_attempt := backoffAt now (wl_attempts row + 1),
        wl_last_error := Some (take 500 err), wl_status := (if wl_attempts row + 1 \<ge> MAX_ATTEMPTS then Dead else Pending)\<rparr>"
      have "\<forall>x. failed_as row x (?f x)" by (simp add: failed_as_def)
      with run db1 show ?thesis
        by (intro exI [of _ ?f] exI [of _ "(d, e + 1)"]) (auto simp: recordFailure_def update_delivery_def)
    qed
  qed
qed

end

definition hooks_ok :: "webhook_db \<Rightarrow> bool" where
  "hooks_ok db \<longleftrightarrow> distinct (map wl_id (wh_deliveries db))
     \<and> list_all (\<lambda>r. wl_attempts r \<le> MAX_ATTEMPTS \<and> (wl_status r = Pending \<longrightarrow> wl_attempts r < MAX_ATTEMPTS)) (wh_deliveries db)"

lemma set_claimed: "set (fst (claimDue now limit leaseMs db)) \<subseteq> {r \<in> set (wh_deliveries db). due now r}"
  by (auto simp: claimDue_def Let_def dest: in_set_takeD)

text \<open>\<open>settled_in db db'\<close>: rows that are not pending stay as they are.\<close>

definition settled_in :: "webhook_db \<Rightarrow> webhook_db \<Rightarrow> bool" where
  "settled_in db db' \<longleftrightarrow> (\<forall>r \<in> set (wh_deliveries db). wl_status r \<noteq> Pending \<longrightarrow> r \<in> set (wh_deliveries db'))"

lemma claim_rows:
  assumes "claimDue now limit leaseMs db = (rows, db')" and "hooks_ok db"
  shows "hooks_ok db'" "settled_in db db'" "distinct (map wl_id rows)"
    "\<forall>x \<in> set rows. \<exists>y \<in> set (wh_deliveries db'). wl_id y = wl_id x \<and> wl_status y = Pending \<and> wl_attempts y = wl_attempts x"
proof -
  let ?g = "\<lambda>r. if wl_id r \<in> set (map wl_id rows) then r\<lparr>wl_next_attempt := now + leaseMs\<rparr> else r"
  from assms(1) have d: "wh_deliveries db' = map ?g (wh_deliveries db)"
    and rows: "rows = take limit (sort_key wl_next_attempt (filter (due now) (wh_deliveries db)))"
    by (auto simp: claimDue_def Let_def)
  have sub: "x \<in> set (wh_deliveries db)" "wl_status x = Pending" if "x \<in> set rows" for x
    using that by (auto simp: rows due_def dest: in_set_takeD)
  have ids: "map wl_id (wh_deliveries db') = map wl_id (wh_deliveries db)" by (simp add: d)
  from assms(2) show ok: "hooks_ok db'" unfolding hooks_ok_def ids by (auto simp: d list_all_iff)
  have inj: "x = y" if "x \<in> set (wh_deliveries db)" "y \<in> set (wh_deliveries db)" "wl_id x = wl_id y" for x y
    using assms(2) that by (auto simp: hooks_ok_def distinct_map inj_on_def)
  show "settled_in db db'"
    unfolding settled_in_def
  proof (intro ballI impI)
    fix x assume x: "x \<in> set (wh_deliveries db)" "wl_status x \<noteq> Pending"
    with sub inj have "wl_id x \<notin> set (map wl_id rows)" by fastforce
    with x(1) show "x \<in> set (wh_deliveries db')" unfolding d set_map by (intro image_eqI [of _ _ x]) simp_all
  qed
  have "distinct (map wl_id (filter (due now) (wh_deliveries db)))"
    using assms(2) by (simp add: hooks_ok_def distinct_map_filter)
  then have "distinct (map wl_id (sort_key wl_next_attempt (filter (due now) (wh_deliveries db))))"
    by (simp add: distinct_map)
  then show "distinct (map wl_id rows)" by (simp add: rows take_map [symmetric])
  show "\<forall>x \<in> set rows. \<exists>y \<in> set (wh_deliveries db'). wl_id y = wl_id x \<and> wl_status y = Pending \<and> wl_attempts y = wl_attempts x"
  proof
    fix x assume x: "x \<in> set rows"
    have "?g x \<in> set (wh_deliveries db')" unfolding d set_map using sub(1) [OF x] by (rule imageI)
    with sub(2) [OF x] show "\<exists>y \<in> set (wh_deliveries db'). wl_id y = wl_id x \<and> wl_status y = Pending \<and> wl_attempts y = wl_attempts x"
      by (intro bexI [of _ "?g x"]) auto
  qed
qed

context webhook_poster
begin

lemma dispatch_rows:
  assumes "for_each (dispatch_one cr show_err post' now) rows acc db = (r, db')"
    and "hooks_ok db" "distinct (map wl_id rows)"
    and "\<forall>x \<in> set rows. \<exists>y \<in> set (wh_deliveries db). wl_id y = wl_id x \<and> wl_status y = Pending \<and> wl_attempts y = wl_attempts x"
  shows "hooks_ok db' \<and> settled_in db db' \<and> (\<exists>a. r = Inr a)"
  using assms
proof (induction rows arbitrary: acc db)
  case Nil
  then show ?case by (auto simp: ret_def settled_in_def)
next
  case (Cons row rows)
  obtain r1 db1 where s: "dispatch_one cr show_err post' now row acc db = (r1, db1)" by fastforce
  from dispatch_one_run [OF s] obtain f acc1 where f: "r1 = Inr acc1"
    "wh_deliveries db1 = map (\<lambda>x. if wl_id x = wl_id row then f x else x) (wh_deliveries db)"
    "f = (\<lambda>x. x\<lparr>wl_status := Delivered\<rparr>) \<or> (\<forall>x. failed_as row x (f x))" by blast
  from f(3) have fid: "wl_id (f x) = wl_id x" for x by (auto simp: failed_as_def)
  from Cons.prems(4) obtain y where y: "y \<in> set (wh_deliveries db)" "wl_id y = wl_id row" "wl_status y = Pending"
    "wl_attempts y = wl_attempts row" by auto
  from y Cons.prems(2) have at: "wl_attempts row < MAX_ATTEMPTS" by (auto simp: hooks_ok_def list_all_iff)
  have uniq: "x = y" if "x \<in> set (wh_deliveries db)" "wl_id x = wl_id row" for x
    using Cons.prems(2) that y by (auto simp: hooks_ok_def distinct_map inj_on_def)
  have ids: "map wl_id (wh_deliveries db1) = map wl_id (wh_deliveries db)" by (simp add: f(2) fid)
  have good: "wl_attempts (f y) \<le> MAX_ATTEMPTS \<and> (wl_status (f y) = Pending \<longrightarrow> wl_attempts (f y) < MAX_ATTEMPTS)"
    using f(3) at y(4) by (auto simp: failed_as_def)
  have "list_all (\<lambda>r. wl_attempts r \<le> MAX_ATTEMPTS \<and> (wl_status r = Pending \<longrightarrow> wl_attempts r < MAX_ATTEMPTS)) (wh_deliveries db1)"
    unfolding list_all_iff f(2)
  proof
    fix z assume "z \<in> set (map (\<lambda>x. if wl_id x = wl_id row then f x else x) (wh_deliveries db))"
    then obtain x where x: "x \<in> set (wh_deliveries db)" "z = (if wl_id x = wl_id row then f x else x)" by auto
    show "wl_attempts z \<le> MAX_ATTEMPTS \<and> (wl_status z = Pending \<longrightarrow> wl_attempts z < MAX_ATTEMPTS)"
    proof (cases "wl_id x = wl_id row")
      case True
      with uniq [OF x(1)] good x(2) show ?thesis by simp
    next
      case False
      with x Cons.prems(2) show ?thesis by (simp add: hooks_ok_def list_all_iff)
    qed
  qed
  then have ok: "hooks_ok db1" using Cons.prems(2) ids by (simp add: hooks_ok_def)
  have st: "settled_in db db1"
    unfolding settled_in_def
  proof (intro ballI impI)
    fix x assume x: "x \<in> set (wh_deliveries db)" "wl_status x \<noteq> Pending"
    with uniq y(3) have "wl_id x \<noteq> wl_id row" by auto
    then have "(if wl_id x = wl_id row then f x else x) = x" by simp
    with x(1) show "x \<in> set (wh_deliveries db1)" unfolding f(2) set_map by (intro image_eqI [of _ _ x]) simp_all
  qed
  have rest: "for_each (dispatch_one cr show_err post' now) rows acc1 db1 = (r, db')"
    using Cons.prems(1) s f(1) by (simp add: bind_def)
  have "\<exists>z \<in> set (wh_deliveries db1). wl_id z = wl_id x \<and> wl_status z = Pending \<and> wl_attempts z = wl_attempts x"
    if "x \<in> set rows" for x
  proof -
    from that Cons.prems(3) have ne: "wl_id x \<noteq> wl_id row" by (force simp: image_iff)
    from Cons.prems(4) that obtain z where z: "z \<in> set (wh_deliveries db)" "wl_id z = wl_id x" "wl_status z = Pending"
      "wl_attempts z = wl_attempts x" by auto
    have "z \<in> set (wh_deliveries db1)"
      unfolding f(2) set_map using z ne by (intro image_eqI [of _ _ z]) simp_all
    with z show ?thesis by blast
  qed
  with Cons.IH [OF rest ok] Cons.prems(3) have "hooks_ok db' \<and> settled_in db1 db' \<and> (\<exists>a. r = Inr a)" by auto
  with st show ?case by (auto simp: settled_in_def)
qed

lemma dispatchDue_ok:
  assumes "dispatchDue cr show_err post' now limit db = (r, db')" and "hooks_ok db"
  shows "hooks_ok db' \<and> settled_in db db' \<and> (\<exists>a. r = Inr a)"
proof -
  obtain rows db1 where c: "claimDue now limit 60000 db = (rows, db1)" by fastforce
  note cl = claim_rows [OF c assms(2)]
  have run: "for_each (dispatch_one cr show_err post' now) rows (0, 0) db1 = (r, db')"
    using assms(1) c by (simp add: dispatchDue_def bind_def)
  from dispatch_rows [OF run cl(1,3)] cl(4) have "hooks_ok db' \<and> settled_in db1 db' \<and> (\<exists>a. r = Inr a)" by blast
  with cl(2) show ?thesis by (auto simp: settled_in_def)
qed

end

section \<open>Interleavings\<close>

text \<open>What API calls and dispatcher runs do to the tables, in any order.\<close>

inductive hook_step :: "crypto \<Rightarrow> (app_error \<Rightarrow> string) \<Rightarrow> (string \<Rightarrow> app_error + unit) \<Rightarrow> webhook_http \<Rightarrow>
  webhook_db \<Rightarrow> webhook_db \<Rightarrow> bool" for cr show_err allowed http where
  hook_set: "hook_step cr show_err allowed http db (endpoint_set t url secret db)"
| hook_enqueue: "outbox_enqueue uuid now t event data db = (r, db') \<Longrightarrow> hook_step cr show_err allowed http db db'"
| hook_dispatch: "dispatchDue cr show_err (fetch_post allowed http) now limit db = (r, db')
    \<Longrightarrow> hook_step cr show_err allowed http db db'"

lemma hook_step_ok:
  assumes "hook_step cr show_err allowed http db db'" and "hooks_ok db"
  shows "hooks_ok db' \<and> settled_in db db'"
  using assms
proof (cases rule: hook_step.cases)
  case hook_set
  with assms(2) show ?thesis by (simp add: endpoint_set_def hooks_ok_def settled_in_def)
next
  case hook_enqueue
  with assms(2) show ?thesis
    by (auto simp: outbox_enqueue_def hooks_ok_def settled_in_def MAX_ATTEMPTS_def list_ex_iff split: if_splits)
next
  case hook_dispatch
  with fetch.dispatchDue_ok assms(2) show ?thesis by blast
qed

lemma hook_steps_ok:
  assumes "(hook_step cr show_err allowed http)\<^sup>*\<^sup>* db db'" and "hooks_ok db"
  shows "hooks_ok db' \<and> settled_in db db'"
  using assms
proof (induction rule: rtranclp_induct)
  case base
  then show ?case by (simp add: settled_in_def)
next
  case (step y z)
  with hook_step_ok [OF step.hyps(2)] show ?case by (auto simp: settled_in_def)
qed

section \<open>Requests\<close>

text \<open>The requests one row can cause: its body, to its tenant's endpoint, signed with its secret.\<close>

definition signed_for :: "crypto \<Rightarrow> webhook_db \<Rightarrow> delivery_row \<Rightarrow> string \<times> string \<times> string \<Rightarrow> bool" where
  "signed_for cr db row = (\<lambda>(url, body, sig). body = wl_body row \<and>
     (\<exists>secret. endpoint_get (wl_tenant_id row) db = Some (url, secret) \<and> verifyWebhook cr secret body sig))"

lemma dispatch_one_posts:
  assumes "dispatch_one cr show_err (fetch_post allowed http) now row acc db = (r, db')"
  shows "\<exists>ps acc'. r = Inr acc' \<and> wh_posts db' = wh_posts db @ ps \<and> length ps \<le> 1 \<and> (\<forall>p \<in> set ps. signed_for cr db row p \<and> allowed (fst p) = Inr ())
    \<and> wh_endpoints db' = wh_endpoints db"
proof (cases "endpoint_get (wl_tenant_id row) db")
  case None
  with assms show ?thesis
    by (cases acc) (auto simp: dispatch_one_def recordFailure_def update_delivery_def)
next
  case (Some ep)
  obtain url secret where ep: "ep = (url, secret)" by (cases ep)
  note run = dispatch_one_def try_catch_def bind_def modify_def ret_def throw_def lift_def fetch_post_def
    markDelivered_def recordFailure_def update_delivery_def
  show ?thesis
  proof (cases "allowed url")
    case (Inl e)
    with Some ep assms show ?thesis by (cases acc) (auto simp: run)
  next
    case (Inr u)
    let ?p = "(url, wl_body row, signWebhook cr secret (wl_body row))"
    have "signed_for cr db row ?p" using Some ep by (simp add: signed_for_def verifyWebhook_def)
    moreover from Some ep Inr assms have "wh_posts db' = wh_posts db @ [?p] \<and> wh_endpoints db' = wh_endpoints db
      \<and> (\<exists>acc'. r = Inr acc')"
      by (cases acc) (auto simp: run split: sum.splits if_splits prod.splits)
    ultimately show ?thesis using Inr by (intro exI [of _ "[?p]"]) auto
  qed
qed

lemma dispatch_posts:
  assumes "for_each (dispatch_one cr show_err (fetch_post allowed http) now) rows acc db = (r, db')"
  shows "\<exists>ps. wh_posts db' = wh_posts db @ ps \<and> length ps \<le> length rows
    \<and> (\<forall>p \<in> set ps. (\<exists>row \<in> set rows. signed_for cr db row p) \<and> allowed (fst p) = Inr ())"
  using assms
proof (induction rows arbitrary: acc db)
  case Nil
  then show ?case by (auto simp: ret_def)
next
  case (Cons row rows)
  obtain r1 db1 where s: "dispatch_one cr show_err (fetch_post allowed http) now row acc db = (r1, db1)" by fastforce
  from dispatch_one_posts [OF s] obtain ps acc' where 1: "r1 = Inr acc'" "wh_posts db1 = wh_posts db @ ps" "length ps \<le> 1"
    "\<forall>p \<in> set ps. signed_for cr db row p \<and> allowed (fst p) = Inr ()" "wh_endpoints db1 = wh_endpoints db" by blast
  from Cons.prems s 1(1) have "for_each (dispatch_one cr show_err (fetch_post allowed http) now) rows acc' db1 = (r, db')"
    by (simp add: bind_def)
  from Cons.IH [OF this] obtain qs where 2: "wh_posts db' = wh_posts db1 @ qs" "length qs \<le> length rows"
    "\<forall>p \<in> set qs. (\<exists>row \<in> set rows. signed_for cr db1 row p) \<and> allowed (fst p) = Inr ()" by blast
  have "signed_for cr db1 x = signed_for cr db x" for x by (simp add: signed_for_def endpoint_get_def 1(5))
  with 1 2 show ?case by (intro exI [of _ "ps @ qs"]) auto
qed

section \<open>Properties\<close>

text \<open>C31. A claim hands out at most \<open>limit\<close> rows, each pending and due, and none of them can be claimed
  again before the lease it writes runs out: two dispatchers never hold the same delivery
  during a lease.\<close>

theorem claim_is_exclusive:
  assumes "claimDue now limit leaseMs db = (rows, db')" and "hooks_ok db"
    and "claimDue t limit2 lease2 db' = (rows2, db2)" and "t < now + leaseMs"
  shows "length rows \<le> limit \<and> (\<forall>r \<in> set rows. r \<in> set (wh_deliveries db) \<and> due now r)
    \<and> set (map wl_id rows) \<inter> set (map wl_id rows2) = {}"
proof -
  from assms(1) have d: "wh_deliveries db' =
      map (\<lambda>r. if wl_id r \<in> set (map wl_id rows) then r\<lparr>wl_next_attempt := now + leaseMs\<rparr> else r) (wh_deliveries db)"
    and len: "length rows \<le> limit"
    by (auto simp: claimDue_def Let_def)
  from set_claimed [of now limit leaseMs db] assms(1)
  have sub: "\<forall>r \<in> set rows. r \<in> set (wh_deliveries db) \<and> due now r" by auto
  have "wl_id x \<notin> set (map wl_id rows)" if "x \<in> set rows2" for x
  proof -
    from that set_claimed [of t limit2 lease2 db'] assms(3) have "x \<in> set (wh_deliveries db')" "wl_next_attempt x \<le> t"
      by (auto simp: due_def)
    with assms(4) show ?thesis unfolding d by auto
  qed
  then have "set (map wl_id rows) \<inter> set (map wl_id rows2) = {}"
    unfolding set_map [of wl_id rows2] disjoint_iff by blast
  with len sub show ?thesis by blast
qed

definition hook_row :: "string \<Rightarrow> string \<Rightarrow> nat \<Rightarrow> delivery_row" where
  "hook_row i b n = \<lparr>wl_id = i, wl_tenant_id = ''t'', wl_body = b, wl_status = Pending, wl_attempts = n,
     wl_next_attempt = 0, wl_last_error = None\<rparr>"

definition hook_db :: webhook_db where
  "hook_db = \<lparr>wh_endpoints = [(''t'', ''https://m'', ''k'')], wh_deliveries = [hook_row ''a'' ''x'' 0, hook_row ''b'' ''y'' 7],
     wh_posts = []\<rparr>"

definition hook_crypto :: crypto where
  "hook_crypto = \<lparr>cr_sha256 = (\<lambda>x. x), cr_hmac = (\<lambda>k x. k @ x)\<rparr>"

lemma hook_db_ok: "hooks_ok hook_db"
  by code_simp

theorem claim_is_exclusive_witness:
  "set (map wl_id (fst (claimDue 5 1 60000 hook_db)))
     \<inter> set (map wl_id (fst (claimDue 60000 50 60000 (snd (claimDue 5 1 60000 hook_db))))) = {}"
  using claim_is_exclusive [of 5 1 60000 hook_db "fst (claimDue 5 1 60000 hook_db)" "snd (claimDue 5 1 60000 hook_db)" 60000 50 60000
      "fst (claimDue 60000 50 60000 (snd (claimDue 5 1 60000 hook_db)))" "snd (claimDue 60000 50 60000 (snd (claimDue 5 1 60000 hook_db)))"]
    hook_db_ok
  by simp


abbreviation hook_down :: "webhook_db \<Rightarrow> (app_error + nat \<times> nat) \<times> webhook_db" where
  "hook_down \<equiv> dispatchDue hook_crypto err_message (fetch_post (\<lambda>_. Inr ()) (\<lambda>_ _. Inr 500)) 5 50"


text \<open>A dispatcher run makes at most one request per claimed delivery, only to URLs the check of
  webhook URLs admits; each request carries the body of a delivery that was pending and due, goes to the endpoint of
  that delivery's tenant, and has a signature \<open>verifyWebhook\<close> accepts under that tenant's secret.\<close>

theorem dispatch_requests_signed:
  assumes "dispatchDue cr show_err (fetch_post allowed http) now limit db = (r, db')"
  shows "\<exists>ps. wh_posts db' = wh_posts db @ ps \<and> length ps \<le> limit \<and> (\<forall>(url, body, sig) \<in> set ps. allowed url = Inr () \<and>
    (\<exists>row \<in> set (wh_deliveries db). due now row \<and> body = wl_body row \<and>
      (\<exists>secret. endpoint_get (wl_tenant_id row) db = Some (url, secret) \<and> verifyWebhook cr secret body sig)))"
proof -
  obtain rows db1 where c: "claimDue now limit 60000 db = (rows, db1)" by fastforce
  from c have len: "length rows \<le> limit" and ep: "wh_endpoints db1 = wh_endpoints db" and po: "wh_posts db1 = wh_posts db"
    by (auto simp: claimDue_def Let_def)
  from set_claimed [of now limit 60000 db] c have sub: "row \<in> set rows \<Longrightarrow> row \<in> set (wh_deliveries db) \<and> due now row" for row
    by auto
  have "for_each (dispatch_one cr show_err (fetch_post allowed http) now) rows (0, 0) db1 = (r, db')"
    using assms c by (simp add: dispatchDue_def bind_def)
  from dispatch_posts [OF this] obtain ps where ps: "wh_posts db' = wh_posts db1 @ ps" "length ps \<le> length rows"
    "\<forall>p \<in> set ps. (\<exists>row \<in> set rows. signed_for cr db1 row p) \<and> allowed (fst p) = Inr ()" by blast
  then show ?thesis using len po sub
    by (intro exI [of _ ps]) (fastforce simp: signed_for_def endpoint_get_def ep)
qed

theorem dispatch_requests_signed_witness:
  "length (wh_posts (snd (hook_down hook_db))) = 2 \<and> (\<exists>ps. wh_posts (snd (hook_down hook_db)) = wh_posts hook_db @ ps \<and> length ps \<le> 50)"
proof -
  have "length (wh_posts (snd (hook_down hook_db))) = 2" by code_simp
  with dispatch_requests_signed [OF prod.collapse [of "hook_down hook_db", symmetric]] show ?thesis by blast
qed

text \<open>The delay between attempts is at least five seconds and at most an hour, and never shrinks.\<close>

lemma backoff_bounds:
  assumes "1 \<le> n" "n \<le> m"
  shows "now + BACKOFF_BASE_MS \<le> backoffAt now n \<and> backoffAt now n \<le> backoffAt now m \<and> backoffAt now m \<le> now + BACKOFF_MAX_MS"
proof -
  have p: "(1::int) \<le> 2 ^ (n - 1)" by simp
  have "(2::int) ^ (n - 1) \<le> 2 ^ (m - 1)" using assms by (intro power_increasing) auto
  moreover obtain a b :: int where ab: "2 ^ (n - 1) = a" "2 ^ (m - 1) = b" by blast
  ultimately show ?thesis using p
    unfolding backoffAt_def BACKOFF_BASE_MS_def BACKOFF_MAX_MS_def ab by (simp add: min_def)
qed

text \<open>A dispatcher holds up to fifty rows under one lease of a minute while a request may take ten
  seconds. Once the lease has run out, a second dispatcher claims the row too, and a failure it
  records after the first one's success turns the delivered row back to pending.\<close>

lemma late_failure_reopens_delivery:
  "let db = hook_db\<lparr>wh_deliveries := [hook_row ''a'' ''x'' 0]\<rparr>;
       (rows1, db1) = claimDue 0 50 60000 db;
       (rows2, db2) = claimDue 60000 50 60000 db1;
       db3 = recordFailure ''a'' (wl_attempts (hd rows2) + 1) (backoffAt 60000 1) ''Error: timeout'' False (markDelivered ''a'' db2)
   in map wl_id rows1 = [''a''] \<and> map wl_id rows2 = [''a''] \<and> map wl_status (wh_deliveries db3) = [Pending]"
  by code_simp

end
