(* ===== verification/Ingest.thy ===== *)
theory Ingest
  imports World Webhooks
begin

text \<open>
  Deposits (\<open>src/chains/ingest\<close>): \<open>DepositIngestor\<close> turns a confirmed deposit into a ledger entry,
  \<open>DepositWatcher\<close> polls the active addresses of the chains and announces what was booked.

  The state joins the ledger, the pool, the webhook tables and the deposit cursors; the last two
  fields count the calls made to a chain's node and record the block ranges read from it. A
  source of deposits is a parameter that meets the locale \<open>deposit_source\<close>: it touches neither
  ledger, pool nor webhooks.
\<close>

section \<open>Data\<close>

record ChainDeposit =
  cd_chain :: string
  cd_txId :: string
  cd_index :: int
  cd_to :: string
  cd_from :: string
  cd_asset :: string
  cd_tokenContract :: "string option"
  cd_amountBaseUnits :: int
  cd_blockNumber :: "int option"

datatype IngestStatus = Credited | Quarantined | Duplicate | Unmatched

datatype ReverseStatus = Reversed | Not_Found

record ingest_db =
  in_ledger :: SqlLedger
  in_pool :: pool_table
  in_hooks :: webhook_db
  in_cursors :: "(string \<times> string, int) jsmap"
  in_calls :: nat
  in_scans :: "((string \<times> string) \<times> int \<times> int) list"

abbreviation on_books :: "(SqlLedger, 'e, 'a) eff \<Rightarrow> (ingest_db, 'e, 'a) eff" where
  "on_books \<equiv> zoom in_ledger (\<lambda>t. in_ledger_update (\<lambda>_. t))"

abbreviation on_pool :: "(pool_table, 'e, 'a) eff \<Rightarrow> (ingest_db, 'e, 'a) eff" where
  "on_pool \<equiv> zoom in_pool (\<lambda>t. in_pool_update (\<lambda>_. t))"

abbreviation on_hooks :: "(webhook_db, 'e, 'a) eff \<Rightarrow> (ingest_db, 'e, 'a) eff" where
  "on_hooks \<equiv> zoom in_hooks (\<lambda>t. in_hooks_update (\<lambda>_. t))"

section \<open>The ingestor (deposit-ingestor.ts)\<close>

text \<open>Its collaborators: the fee policy of the attribution, the pool's life cycle if one is
  given, and the screener if one is given, whose answer is whether the deposit is blocked.\<close>

record ingestor =
  ig_feePolicy :: "string \<Rightarrow> string \<Rightarrow> int"
  ig_lifecycle :: "pool_table pool_config option"
  ig_screener :: "(ChainDeposit \<Rightarrow> app_error + bool) option"

definition deposit_ref :: "ChainDeposit \<Rightarrow> string" where
  "deposit_ref d = cd_chain d @ '':'' @ cd_txId d @ '':'' @ show_int (cd_index d)"

definition deposit_pool :: "ChainDeposit \<Rightarrow> AttributionEntry \<Rightarrow> string" where
  "deposit_pool d attr = ''pool_addr:'' @ cd_chain d @ '':'' @ ae_merchant attr"

definition quarantine_input :: "int \<Rightarrow> ChainDeposit \<Rightarrow> AttributionEntry \<Rightarrow> DepositQuarantinedInput" where
  "quarantine_input now d attr =
     \<lparr>dq_id = deposit_ref d, dq_idempotencyKey = deposit_ref d, dq_asset = mk_Asset (cd_asset d),
      dq_amount = cd_amountBaseUnits d, dq_poolAddr = deposit_pool d attr,
      dq_complianceSuspense = ''compliance_suspense:'' @ ae_tenant attr, dq_occurredAt = now\<rparr>"

definition finalize_input :: "int \<Rightarrow> ChainDeposit \<Rightarrow> AttributionEntry \<Rightarrow> DepositFinalizedInput" where
  "finalize_input now d attr =
     \<lparr>df_id = deposit_ref d, df_idempotencyKey = deposit_ref d, df_asset = mk_Asset (cd_asset d),
      df_amount = cd_amountBaseUnits d, df_feeBasisPoints = ae_feeBasisPoints attr, df_poolAddr = deposit_pool d attr,
      df_merchantAvailable = ''merchant_available:'' @ ae_tenant attr @ '':'' @ ae_merchant attr,
      df_feeRevenue = ''egofi_fee_revenue:'' @ ae_tenant attr, df_occurredAt = now\<rparr>"

definition screened :: "ingestor \<Rightarrow> ChainDeposit \<Rightarrow> app_error + bool" where
  "screened ig d = (case ig_screener ig of None \<Rightarrow> Inr False | Some screen \<Rightarrow> screen d)"

text \<open>The two uses of the life cycle; a failure of either is swallowed.\<close>

definition detected :: "ingestor \<Rightarrow> ChainDeposit \<Rightarrow> (ingest_db, app_error, unit) eff" where
  "detected ig d =
     (case ig_lifecycle ig of
        None \<Rightarrow> ret ()
      | Some cfg \<Rightarrow> try_catch (bind (on_pool (markInUse SqlPoolStore (cd_chain d) (cd_to d))) (\<lambda>_. ret ())) (\<lambda>_. ret ()))"

definition used_up :: "ingestor \<Rightarrow> int \<Rightarrow> ChainDeposit \<Rightarrow> (ingest_db, app_error, unit) eff" where
  "used_up ig now d =
     (case ig_lifecycle ig of
        None \<Rightarrow> ret ()
      | Some cfg \<Rightarrow> try_catch
          (bind (on_pool (markInUse SqlPoolStore (cd_chain d) (cd_to d))) (\<lambda>_.
           bind (on_pool (pool_cool SqlPoolStore cfg now (cd_chain d) (cd_to d))) (\<lambda>_. ret ())))
          (\<lambda>_. ret ()))"

definition ingestConfirmed ::
  "ingestor \<Rightarrow> int \<Rightarrow> ChainDeposit \<Rightarrow> (ingest_db, app_error, IngestStatus \<times> string) eff" where
  "ingestConfirmed ig now d =
     (let ref = deposit_ref d in
      bind (reads (\<lambda>s. attribution_resolve SqlPoolStore (ig_feePolicy ig) (cd_chain d) (cd_to d) (in_pool s))) (\<lambda>attr.
        case attr of
          None \<Rightarrow> ret (Unmatched, ref)
        | Some attr \<Rightarrow>
            bind (lift (screened ig d)) (\<lambda>blocked.
              if blocked then
                bind (lift (depositQuarantined (quarantine_input now d attr))) (\<lambda>entry.
                bind (on_books (post SqlLedgerStore entry)) (\<lambda>applied.
                bind (if applied then detected ig d else ret ()) (\<lambda>_.
                  ret (if applied then Quarantined else Duplicate, ref))))
              else
                bind (lift (depositFinalized (finalize_input now d attr))) (\<lambda>entry.
                bind (on_books (post SqlLedgerStore entry)) (\<lambda>applied.
                bind (if applied then used_up ig now d else ret ()) (\<lambda>_.
                  ret (if applied then Credited else Duplicate, ref)))))))"

definition reverseCredit :: "int \<Rightarrow> ChainDeposit \<Rightarrow> (ingest_db, app_error, ReverseStatus \<times> string) eff" where
  "reverseCredit now d =
     (let ref = deposit_ref d in
      try_catch
        (bind (on_books (reverseByRef SqlLedgerStore ref (''reverse:'' @ ref) (''reverse:'' @ ref) now)) (\<lambda>_. ret (Reversed, ref)))
        (\<lambda>err. if err_code err = Some LEDGER_UNKNOWN_ENTRY then ret (Not_Found, ref) else throw err))"

section \<open>The watcher (deposit-watcher.ts)\<close>

type_synonym inbound = "string \<Rightarrow> string \<Rightarrow> (ingest_db, app_error, ChainDeposit list) eff"

record DepositWatcher =
  dw_fetchInbound :: inbound
  dw_reorged :: "inbound option"
  dw_ingestor :: ingestor
  dw_uuid :: "nat \<Rightarrow> string"

text \<open>\<open>randomUUID()\<close> is read from the stream \<open>dw_uuid\<close>, one id per row of the outbox.\<close>

definition announce :: "DepositWatcher \<Rightarrow> int \<Rightarrow> string \<Rightarrow> PoolAddressRow \<Rightarrow> string \<Rightarrow> ChainDeposit \<Rightarrow> (ingest_db, app_error, unit) eff" where
  "announce dw now chain addr event d =
     bind (on_hooks (\<lambda>h. outbox_enqueue (dw_uuid dw (length (wh_deliveries h))) now (pa_tenant addr) event
       [(''account'', pa_merchant addr), (''chain'', chain), (''address'', pa_address addr), (''txId'', cd_txId d),
        (''asset'', cd_asset d), (''amount'', show_int (cd_amountBaseUnits d))] h)) (\<lambda>_. ret ())"

definition poll_deposit ::
  "DepositWatcher \<Rightarrow> int \<Rightarrow> string \<Rightarrow> PoolAddressRow \<Rightarrow> ChainDeposit \<Rightarrow> nat \<Rightarrow> (ingest_db, app_error, nat) eff" where
  "poll_deposit dw now chain addr d credited =
     bind (ingestConfirmed (dw_ingestor dw) now d) (\<lambda>(status, ref).
       case status of
         Credited \<Rightarrow> bind (announce dw now chain addr ''deposit.confirmed'' d) (\<lambda>_. ret (credited + 1))
       | Quarantined \<Rightarrow> bind (announce dw now chain addr ''compliance.hold'' d) (\<lambda>_. ret credited)
       | _ \<Rightarrow> ret credited)"

definition poll_gone ::
  "DepositWatcher \<Rightarrow> int \<Rightarrow> string \<Rightarrow> PoolAddressRow \<Rightarrow> ChainDeposit \<Rightarrow> nat \<Rightarrow> (ingest_db, app_error, nat) eff" where
  "poll_gone dw now chain addr gone reversed =
     bind (reverseCredit now gone) (\<lambda>(status, ref).
       if status \<noteq> Reversed then ret reversed
       else bind (announce dw now chain addr ''deposit.reorged'' gone) (\<lambda>_. ret (reversed + 1)))"

definition poll_address ::
  "DepositWatcher \<Rightarrow> int \<Rightarrow> string \<Rightarrow> PoolAddressRow \<Rightarrow> nat \<times> nat \<Rightarrow> (ingest_db, app_error, nat \<times> nat) eff" where
  "poll_address dw now chain addr = (\<lambda>(credited, reversed).
     bind (dw_fetchInbound dw chain (pa_address addr)) (\<lambda>deposits.
     bind (for_each (poll_deposit dw now chain addr) deposits credited) (\<lambda>credited.
       case dw_reorged dw of
         None \<Rightarrow> ret (credited, reversed)
       | Some reorged \<Rightarrow>
           bind (reorged chain (pa_address addr)) (\<lambda>gone.
           bind (for_each (poll_gone dw now chain addr) gone reversed) (\<lambda>reversed.
             ret (credited, reversed))))))"

definition pollOnce :: "DepositWatcher \<Rightarrow> int \<Rightarrow> string \<Rightarrow> (ingest_db, app_error, nat \<times> nat) eff" where
  "pollOnce dw now chain =
     bind (reads (\<lambda>s. activeAddresses chain (in_pool s))) (\<lambda>watched.
       for_each (poll_address dw now chain) watched (0, 0))"

definition poll_chain :: "DepositWatcher \<Rightarrow> int \<Rightarrow> string \<Rightarrow> nat \<times> string list \<Rightarrow> (ingest_db, app_error, nat \<times> string list) eff" where
  "poll_chain dw now chain = (\<lambda>(credited, failures).
     try_catch (bind (pollOnce dw now chain) (\<lambda>(c, _). ret (credited + c, failures)))
       (\<lambda>err. ret (credited, failures @ [chain @ '': '' @ err_message err])))"

definition pollAll :: "DepositWatcher \<Rightarrow> int \<Rightarrow> string list \<Rightarrow> (ingest_db, app_error, nat \<times> string list) eff" where
  "pollAll dw now chs = for_each (poll_chain dw now) chs (0, [])"

section \<open>What a deposit books\<close>

text \<open>The entry for a deposit to an attributed address; \<open>None\<close> where a check refuses it.\<close>

definition deposit_entry :: "ingestor \<Rightarrow> int \<Rightarrow> ChainDeposit \<Rightarrow> AttributionEntry \<Rightarrow> bool \<Rightarrow> app_error + JournalEntry" where
  "deposit_entry ig now d attr blocked =
     (if blocked then depositQuarantined (quarantine_input now d attr) else depositFinalized (finalize_input now d attr))"

definition booked_as :: "bool \<Rightarrow> IngestStatus" where
  "booked_as blocked = (if blocked then Quarantined else Credited)"

abbreviation owner_of :: "ingestor \<Rightarrow> ChainDeposit \<Rightarrow> ingest_db \<Rightarrow> AttributionEntry option" where
  "owner_of ig d s \<equiv> attribution_resolve SqlPoolStore (ig_feePolicy ig) (cd_chain d) (cd_to d) (in_pool s)"

abbreviation book_keys :: "ingest_db \<Rightarrow> string set" where
  "book_keys s \<equiv> jr_idempotency_key ` set (sq_journal_entry (in_ledger s))"

lemma deposit_entry_key:
  assumes "deposit_entry ig now d attr blocked = Inr e"
  shows "je_id e = deposit_ref d \<and> je_idempotencyKey e = deposit_ref d \<and> assertBalanced e = Inr ()
    \<and> (\<forall>p \<in> set (je_postings e). p_account p \<in> {deposit_pool d attr, ''compliance_suspense:'' @ ae_tenant attr,
        ''merchant_available:'' @ ae_tenant attr @ '':'' @ ae_merchant attr, ''egofi_fee_revenue:'' @ ae_tenant attr})"
  using assms
  by (auto simp: deposit_entry_def depositQuarantined_def depositFinalized_def checked_entry_def rbind_Inr_iff
      quarantine_input_def finalize_input_def split: if_splits)

text \<open>The life cycle moves a pool address only to the states \<open>In_use\<close> and \<open>Cooling\<close>, and changes
  nothing but the pool.\<close>

definition pool_moved :: "ingest_db \<Rightarrow> ingest_db \<Rightarrow> bool" where
  "pool_moved s s' \<longleftrightarrow> (\<exists>t. s' = s\<lparr>in_pool := t\<rparr>
     \<and> list_all2 (\<lambda>r r'. same_identity r r' \<and> (pa_state r' = Available \<longrightarrow> pa_state r = Available)) (in_pool s) t)"

lemma pool_moved_refl [simp]: "pool_moved s s"
  unfolding pool_moved_def by (rule exI [of _ "in_pool s"]) (simp add: list_all2_refl)

lemma pool_moved_unique:
  assumes "pool_moved s s'" "pool_unique (in_pool s)"
  shows "pool_unique (in_pool s')"
  using assms
  by (auto simp: pool_moved_def pool_unique_def sorted_wrt_iff_nth_less list_all2_conv_all_nth pool_conflict_def same_identity_def)

lemma pool_moved_trans:
  assumes "pool_moved s s'" "pool_moved s' s''"
  shows "pool_moved s s''"
proof -
  from assms obtain t u where t: "s' = s\<lparr>in_pool := t\<rparr>" "s'' = s'\<lparr>in_pool := u\<rparr>"
    "list_all2 (\<lambda>r r'. same_identity r r' \<and> (pa_state r' = Available \<longrightarrow> pa_state r = Available)) (in_pool s) t"
    "list_all2 (\<lambda>r r'. same_identity r r' \<and> (pa_state r' = Available \<longrightarrow> pa_state r = Available)) t u"
    by (auto simp: pool_moved_def)
  then have "list_all2 (\<lambda>r r'. same_identity r r' \<and> (pa_state r' = Available \<longrightarrow> pa_state r = Available)) (in_pool s) u"
    by (auto simp: list_all2_conv_all_nth same_identity_def)
  with t show ?thesis by (auto simp: pool_moved_def)
qed

lemma lifecycle_moved:
  assumes "act \<in> {detect_action, cool_action}" "pool_unique (in_pool s)"
    and "on_pool (pool_apply SqlPoolStore c a act ch) s = (r, s')"
  shows "pool_moved s s'"
proof -
  obtain r2 t where run: "pool_apply SqlPoolStore c a act ch (in_pool s) = (r2, t)" by fastforce
  with assms(3) have s': "s' = s\<lparr>in_pool := t\<rparr>" by (simp add: zoom_def)
  from sqlpool.pool_apply_cases [OF assms(2), of c a act ch] run
  have "t = in_pool s \<or> (\<exists>q to_state. nextPoolState (pa_state q) act = Inr to_state
      \<and> t = replace_row q (patch_row to_state ch q) (in_pool s))"
    by (auto split: option.splits sum.splits)
  then show ?thesis
  proof
    assume "t = in_pool s"
    then show ?thesis using s' by simp
  next
    assume "\<exists>q to_state. nextPoolState (pa_state q) act = Inr to_state \<and> t = replace_row q (patch_row to_state ch q) (in_pool s)"
    then obtain q to_state where q: "nextPoolState (pa_state q) act = Inr to_state"
      "t = replace_row q (patch_row to_state ch q) (in_pool s)" by blast
    from q(1) assms(1) have "to_state \<noteq> Available" by (auto simp: nextPoolState_def split: if_splits)
    then have "pa_state (patch_row to_state ch q) \<noteq> Available" by (simp add: patch_row_def Let_def split: option.splits)
    with q(2) s' show ?thesis
      unfolding pool_moved_def by (intro exI [of _ t]) (auto simp: replace_row_def list_all2_conv_all_nth)
  qed
qed

lemma detected_moved:
  assumes "pool_unique (in_pool s)" "detected ig d s = (r, s')"
  shows "r = Inr () \<and> pool_moved s s'"
proof (cases "ig_lifecycle ig")
  case None
  with assms(2) show ?thesis by (simp add: detected_def ret_def)
next
  case (Some cfg)
  obtain r1 s1 where run: "on_pool (markInUse SqlPoolStore (cd_chain d) (cd_to d)) s = (r1, s1)" by fastforce
  from lifecycle_moved [OF _ assms(1) run [unfolded markInUse_def]] have "pool_moved s s1" by simp
  with Some assms(2) run show ?thesis by (cases r1) (auto simp: detected_def try_catch_def bind_def ret_def)
qed

lemma used_up_moved:
  assumes "pool_unique (in_pool s)" "used_up ig now d s = (r, s')"
  shows "r = Inr () \<and> pool_moved s s'"
proof (cases "ig_lifecycle ig")
  case None
  with assms(2) show ?thesis by (simp add: used_up_def ret_def)
next
  case (Some cfg)
  obtain r1 s1 where run: "on_pool (markInUse SqlPoolStore (cd_chain d) (cd_to d)) s = (r1, s1)" by fastforce
  from lifecycle_moved [OF _ assms(1) run [unfolded markInUse_def]] have m1: "pool_moved s s1" by simp
  obtain r2 s2 where run2: "on_pool (pool_cool SqlPoolStore cfg now (cd_chain d) (cd_to d)) s1 = (r2, s2)" by fastforce
  from lifecycle_moved [OF _ pool_moved_unique [OF m1 assms(1)] run2 [unfolded pool_cool_def]] have "pool_moved s1 s2" by simp
  with m1 have "pool_moved s s2" by (rule pool_moved_trans)
  with m1 Some assms(2) run run2 show ?thesis
    by (cases r1; cases r2) (auto simp: used_up_def try_catch_def bind_def ret_def)
qed

text \<open>The invariant of the joint state: a sound ledger and a pool with unique addresses whose
  owners' names have no NUL character (Postgres text has none).\<close>

definition ingest_ok :: "ingest_db \<Rightarrow> bool" where
  "ingest_ok s \<longleftrightarrow> sqlst.sound (in_ledger s) \<and> pool_unique (in_pool s)
     \<and> (\<forall>r \<in> set (in_pool s). nul \<notin> set (pa_tenant r) \<and> nul \<notin> set (pa_merchant r))"

lemma owner_nul_free:
  assumes "ingest_ok s" "owner_of ig d s = Some attr" "nul \<notin> set (cd_chain d)"
    and "deposit_entry ig now d attr blocked = Inr e"
  shows "nul_free (je_postings e)"
proof -
  from assms(2) obtain row where "findByAddress (cd_chain d) (cd_to d) (in_pool s) = Some row"
    "ae_tenant attr = pa_tenant row" "ae_merchant attr = pa_merchant row"
    by (auto simp: attribution_resolve_def pool_resolve_def SqlPoolStore_def split: option.splits if_splits)
  with assms(1) have "nul \<notin> set (ae_tenant attr)" "nul \<notin> set (ae_merchant attr)"
    by (auto simp: ingest_ok_def findByAddress_iff)
  with deposit_entry_key [OF assms(4)] assms(3) show ?thesis
    by (auto simp: nul_free_def deposit_pool_def nul_def)
qed

lemma pool_moved_ok:
  assumes "pool_moved s s'" "ingest_ok s"
  shows "ingest_ok s'"
proof -
  from assms(1) obtain t where t: "s' = s\<lparr>in_pool := t\<rparr>" and
    l: "list_all2 (\<lambda>r r'. same_identity r r' \<and> (pa_state r' = Available \<longrightarrow> pa_state r = Available)) (in_pool s) t"
    unfolding pool_moved_def by blast
  have "\<forall>r \<in> set t. nul \<notin> set (pa_tenant r) \<and> nul \<notin> set (pa_merchant r)"
    using assms(2) l unfolding ingest_ok_def
    by (auto simp: list_all2_conv_all_nth all_set_conv_all_nth same_identity_def)
  with t pool_moved_unique [OF assms(1)] assms(2) show ?thesis by (simp add: ingest_ok_def)
qed

lemma ingest_run:
  "ingestConfirmed ig now d s =
    (case owner_of ig d s of
       None \<Rightarrow> (Inr (Unmatched, deposit_ref d), s)
     | Some attr \<Rightarrow> (case screened ig d of
         Inl err \<Rightarrow> (Inl err, s)
       | Inr blocked \<Rightarrow> (case deposit_entry ig now d attr blocked of
           Inl err \<Rightarrow> (Inl err, s)
         | Inr e \<Rightarrow> (case post SqlLedgerStore e (in_ledger s) of
             (Inl err, l) \<Rightarrow> (Inl err, s\<lparr>in_ledger := l\<rparr>)
           | (Inr applied, l) \<Rightarrow>
               bind (if applied then (if blocked then detected ig d else used_up ig now d) else ret ())
                 (\<lambda>_. ret (if applied then booked_as blocked else Duplicate, deposit_ref d)) (s\<lparr>in_ledger := l\<rparr>)))))"
proof (cases "owner_of ig d s")
  case None
  then show ?thesis by (simp add: ingestConfirmed_def Let_def bind_def reads_def ret_def)
next
  case (Some attr)
  show ?thesis
  proof (cases "screened ig d")
    case (Inl err)
    with Some show ?thesis by (simp add: ingestConfirmed_def Let_def bind_def reads_def lift_def)
  next
    case (Inr blocked)
    show ?thesis
    proof (cases blocked)
      case True
      with Some Inr show ?thesis
        by (simp add: ingestConfirmed_def Let_def bind_def reads_def lift_def zoom_def deposit_entry_def booked_as_def
            split: sum.split prod.split)
    next
      case False
      with Some Inr show ?thesis
        by (simp add: ingestConfirmed_def Let_def bind_def reads_def lift_def zoom_def deposit_entry_def booked_as_def
            split: sum.split prod.split)
    qed
  qed
qed

text \<open>Every outcome of \<open>ingestConfirmed\<close>: one entry was booked and at most the life cycle moved, or
  nothing changed.\<close>

lemma ingest_cases:
  assumes "ingest_ok s" "nul \<notin> set (cd_chain d)" "ingestConfirmed ig now d s = (r, s')"
  obtains
    (booked) attr blocked e l where "owner_of ig d s = Some attr" "screened ig d = Inr blocked"
      "deposit_entry ig now d attr blocked = Inr e" "nul_free (je_postings e)"
      "post SqlLedgerStore e (in_ledger s) = (Inr True, l)"
      "r = Inr (booked_as blocked, deposit_ref d)" "pool_moved (s\<lparr>in_ledger := l\<rparr>) s'"
  | (unmatched) "owner_of ig d s = None" "r = Inr (Unmatched, deposit_ref d)" "s' = s"
  | (duplicate) "owner_of ig d s \<noteq> None" "deposit_ref d \<in> book_keys s" "r = Inr (Duplicate, deposit_ref d)" "s' = s"
  | (refused) err where "owner_of ig d s \<noteq> None" "r = Inl err" "s' = s"
proof (cases "owner_of ig d s")
  case None
  with assms(3) show thesis by (intro unmatched) (simp_all add: ingest_run)
next
  case (Some attr)
  then have own: "owner_of ig d s \<noteq> None" by simp
  show thesis
  proof (cases "screened ig d")
    case (Inl err)
    with Some assms(3) show thesis by (intro refused [OF own, of err]) (simp_all add: ingest_run)
  next
    case scr: (Inr blocked)
    show thesis
    proof (cases "deposit_entry ig now d attr blocked")
      case (Inl err)
      with Some scr assms(3) show thesis by (intro refused [OF own, of err]) (simp_all add: ingest_run)
    next
      case e: (Inr e)
      note key = deposit_entry_key [OF e]
      obtain rp l where p: "post SqlLedgerStore e (in_ledger s) = (rp, l)" by fastforce
      from assms(1) have inv: "sql_inv (in_ledger s)" by (simp add: ingest_ok_def sqlst.sound_def)
      note free = owner_nul_free [OF assms(1) Some assms(2) e]
      note cases = sqlst.post_cases [OF inv free p]
      let ?s1 = "s\<lparr>in_ledger := l\<rparr>"
      show thesis
      proof (cases "rp = Inr True")
        case True
        obtain r2 s2 where c: "(if blocked then detected ig d else used_up ig now d) ?s1 = (r2, s2)" by fastforce
        from assms(1) have u: "pool_unique (in_pool ?s1)" by (simp add: ingest_ok_def)
        have m: "r2 = Inr () \<and> pool_moved ?s1 s2"
        proof (cases blocked)
          case True
          with c detected_moved [OF u, of ig d] show ?thesis by auto
        next
          case False
          with c used_up_moved [OF u, of ig now d] show ?thesis by auto
        qed
        with Some scr e p True c assms(3) have "r = Inr (booked_as blocked, deposit_ref d) \<and> s' = s2"
          by (simp add: ingest_run bind_def ret_def)
        with m p True show thesis using booked [OF Some scr e free, of l] by blast
      next
        case False
        with cases have l: "l = in_ledger s" by auto
        show thesis
        proof (cases rp)
          case (Inl err)
          with Some scr e p l assms(3) show thesis by (intro refused [OF own, of err]) (simp_all add: ingest_run)
        next
          case (Inr b)
          with False have b: "\<not> b" by simp
          from post_log [OF p] Inr key l have "deposit_ref d \<in> book_keys s" by auto
          with Some scr e p l b Inr assms(3) show thesis
            by (intro duplicate [OF own]) (simp_all add: ingest_run bind_def ret_def)
        qed
      qed
    qed
  qed
qed

section \<open>Frames of the ingestor and the watcher\<close>

text \<open>\<open>books_grow s s'\<close>: the invariant holds, no entry was dropped, and an owned address stays owned
  by the same merchant.\<close>

definition books_grow :: "ingest_db \<Rightarrow> ingest_db \<Rightarrow> bool" where
  "books_grow s s' \<longleftrightarrow> ingest_ok s' \<and> book_keys s \<subseteq> book_keys s'
     \<and> (\<forall>ig d. owner_of ig d s \<noteq> None \<longrightarrow> owner_of ig d s' = owner_of ig d s)"

lemma books_grow_refl: "ingest_ok s \<Longrightarrow> books_grow s s"
  by (simp add: books_grow_def)

lemma books_grow_trans: "books_grow s s' \<Longrightarrow> books_grow s' s'' \<Longrightarrow> books_grow s s''"
  unfolding books_grow_def by (metis subset_trans)

lemma books_grow_ok: "books_grow s s' \<Longrightarrow> ingest_ok s'"
  by (simp add: books_grow_def)

lemma books_grow_frame:
  assumes "ingest_ok s" "in_ledger s' = in_ledger s" "in_pool s' = in_pool s"
  shows "books_grow s s'"
  using assms by (simp add: books_grow_def ingest_ok_def)

lemma owner_of_row:
  assumes "pool_unique (in_pool s)"
  shows "owner_of ig d s = Some attr \<longleftrightarrow> (\<exists>r \<in> set (in_pool s). pa_chain r = cd_chain d \<and> pa_address r = cd_to d
    \<and> pa_state r \<noteq> Available \<and> attr = \<lparr>ae_tenant = pa_tenant r, ae_merchant = pa_merchant r,
        ae_feeBasisPoints = ig_feePolicy ig (pa_tenant r) (pa_merchant r)\<rparr>)"
proof -
  have "owner_of ig d s = Some attr \<longleftrightarrow> (\<exists>r. findByAddress (cd_chain d) (cd_to d) (in_pool s) = Some r
    \<and> pa_state r \<noteq> Available \<and> attr = \<lparr>ae_tenant = pa_tenant r, ae_merchant = pa_merchant r,
        ae_feeBasisPoints = ig_feePolicy ig (pa_tenant r) (pa_merchant r)\<rparr>)"
    by (auto simp: attribution_resolve_def pool_resolve_def SqlPoolStore_def split: option.splits if_splits)
  then show ?thesis unfolding findByAddress_iff [OF assms] by blast
qed

lemma pool_moved_owner:
  assumes "pool_moved s s'" "pool_unique (in_pool s)" "owner_of ig d s = Some attr"
  shows "owner_of ig d s' = Some attr"
proof -
  from assms(1) obtain t where t: "s' = s\<lparr>in_pool := t\<rparr>" and
    l: "list_all2 (\<lambda>r r'. same_identity r r' \<and> (pa_state r' = Available \<longrightarrow> pa_state r = Available)) (in_pool s) t"
    unfolding pool_moved_def by blast
  from assms(3) owner_of_row [OF assms(2)] obtain r where r: "r \<in> set (in_pool s)" "pa_chain r = cd_chain d"
    "pa_address r = cd_to d" "pa_state r \<noteq> Available" "attr = \<lparr>ae_tenant = pa_tenant r, ae_merchant = pa_merchant r,
        ae_feeBasisPoints = ig_feePolicy ig (pa_tenant r) (pa_merchant r)\<rparr>" by blast
  from l r(1) obtain r' where "r' \<in> set t" "same_identity r r'" "pa_state r' = Available \<longrightarrow> pa_state r = Available"
    by (auto simp: list_all2_conv_all_nth in_set_conv_nth) (metis nth_mem)
  with r t show ?thesis
    using owner_of_row [OF pool_moved_unique [OF assms(1,2)], of ig d attr] by (auto simp: same_identity_def)
qed

lemma pool_moved_grow:
  assumes "pool_moved s s'" "ingest_ok s"
  shows "books_grow s s'"
proof -
  from assms(2) have "pool_unique (in_pool s)" by (simp add: ingest_ok_def)
  from pool_moved_owner [OF assms(1) this] have "\<forall>ig d. owner_of ig d s \<noteq> None \<longrightarrow> owner_of ig d s' = owner_of ig d s"
    by (metis option.exhaust)
  moreover from assms(1) have "in_ledger s' = in_ledger s" by (auto simp: pool_moved_def)
  ultimately show ?thesis using pool_moved_ok [OF assms] by (simp add: books_grow_def)
qed

lemma ledger_grow:
  assumes "ingest_ok s" "sqlst.sound l"
    and "book_keys s \<subseteq> jr_idempotency_key ` set (sq_journal_entry l)"
  shows "books_grow s (s\<lparr>in_ledger := l\<rparr>)"
  using assms by (simp add: books_grow_def ingest_ok_def)

lemma ingest_grow:
  assumes "ingest_ok s" "nul \<notin> set (cd_chain d)" "ingestConfirmed ig now d s = (r, s')"
  shows "books_grow s s'"
  using assms
proof (cases rule: ingest_cases)
  case (booked attr blocked e l)
  from assms(1) have snd: "sqlst.sound (in_ledger s)" by (simp add: ingest_ok_def)
  from ledger_grow [OF assms(1) sqlst.post_sound [OF snd booked(4,5)]] post_log [OF booked(5)]
  have g: "books_grow s (s\<lparr>in_ledger := l\<rparr>)" by blast
  with pool_moved_grow [OF booked(7) books_grow_ok [OF g]] show ?thesis by (blast intro: books_grow_trans)
qed (simp_all add: books_grow_refl assms(1))

lemma reverse_grow:
  assumes "ingest_ok s" "reverseCredit now d s = (r, s')"
  shows "books_grow s s'"
proof -
  obtain rr l where run: "reverseByRef SqlLedgerStore (deposit_ref d) (''reverse:'' @ deposit_ref d) (''reverse:'' @ deposit_ref d) now
    (in_ledger s) = (rr, l)" by fastforce
  with assms(2) have s': "s' = s\<lparr>in_ledger := l\<rparr>"
    by (cases rr) (auto simp: reverseCredit_def Let_def try_catch_def bind_def zoom_def ret_def throw_def split: if_splits)
  from assms(1) have "sqlst.sound (in_ledger s)" by (simp add: ingest_ok_def)
  then have "sqlst.sound l" using sqlst.reverseByRef_sound run by blast
  moreover have "book_keys s \<subseteq> jr_idempotency_key ` set (sq_journal_entry l)"
    using run post_log by (auto simp: reverseByRef_def bind_def reads_def throw_def split: if_splits)
  ultimately show ?thesis using ledger_grow [OF assms(1)] s' by blast
qed

lemma announce_grow:
  assumes "ingest_ok s" "announce dw now c a ev d s = (r, s')"
  shows "books_grow s s'"
  by (rule books_grow_frame [OF assms(1)])
    (use assms(2) in \<open>auto simp: announce_def bind_def zoom_def ret_def split: prod.splits sum.splits\<close>)

section \<open>The contract of a source of deposits\<close>

text \<open>A source reads the chain: it changes neither ledger, pool nor webhooks, and names no chain
  with a NUL character in it.\<close>

locale deposit_source =
  fixes fetch :: inbound
  assumes fetch_frame: "fetch c a s = (r, s') \<Longrightarrow> in_ledger s' = in_ledger s \<and> in_pool s' = in_pool s \<and> in_hooks s' = in_hooks s"
    and fetch_chain: "fetch c a s = (Inr ds, s') \<Longrightarrow> d \<in> set ds \<Longrightarrow> nul \<notin> set (cd_chain d)"
begin

lemma fetch_grow: "ingest_ok s \<Longrightarrow> fetch c a s = (r, s') \<Longrightarrow> books_grow s s'"
  using fetch_frame books_grow_frame by blast

end

lemma poll_deposit_run:
  assumes "ingest_ok s" "nul \<notin> set (cd_chain d)" "poll_deposit dw now c addr d n s = (r, s')"
  shows "books_grow s s'" "r = Inr m \<Longrightarrow> owner_of (dw_ingestor dw) d s \<noteq> None \<Longrightarrow> deposit_ref d \<in> book_keys s'"
proof -
  obtain ri s1 where i: "ingestConfirmed (dw_ingestor dw) now d s = (ri, s1)" by fastforce
  from ingest_grow [OF assms(1,2) i] have g: "books_grow s s1" .
  have t: "books_grow s1 s'"
    using assms(3) i announce_grow [OF books_grow_ok [OF g]] books_grow_refl [OF books_grow_ok [OF g]]
    by (auto simp: poll_deposit_def bind_def ret_def split: sum.splits IngestStatus.splits prod.splits)
  from g t show "books_grow s s'" by (rule books_grow_trans)
  assume r: "r = Inr m" and own: "owner_of (dw_ingestor dw) d s \<noteq> None"
  from assms(1,2) i have "deposit_ref d \<in> book_keys s1"
  proof (cases rule: ingest_cases)
    case (booked attr blocked e l)
    from post_log [OF booked(5)] deposit_entry_key [OF booked(3)] booked(7) show ?thesis
      by (auto simp: pool_moved_def)
  next
    case (refused err)
    with r assms(3) i show ?thesis by (simp add: poll_deposit_def bind_def)
  qed (use own in auto)
  with t show "deposit_ref d \<in> book_keys s'" by (auto simp: books_grow_def)
qed

lemma poll_deposits_run:
  assumes "ingest_ok s" "\<forall>d \<in> set ds. nul \<notin> set (cd_chain d)" "for_each (poll_deposit dw now c addr) ds n s = (r, s')"
  shows "books_grow s s' \<and> (\<forall>m. r = Inr m \<longrightarrow> (\<forall>d \<in> set ds. owner_of (dw_ingestor dw) d s \<noteq> None \<longrightarrow> deposit_ref d \<in> book_keys s'))"
  using assms
proof (induction ds arbitrary: n s)
  case Nil
  then show ?case by (simp add: ret_def books_grow_refl)
next
  case (Cons d ds)
  obtain r1 s1 where 1: "poll_deposit dw now c addr d n s = (r1, s1)" by fastforce
  note p = poll_deposit_run [OF Cons.prems(1) _ 1]
  from Cons.prems(2) have g: "books_grow s s1" by (intro p(1)) simp
  show ?case
  proof (cases r1)
    case (Inl e)
    with Cons.prems(3) 1 g show ?thesis by (auto simp: bind_def)
  next
    case (Inr m)
    with Cons.prems(3) 1 have rest: "for_each (poll_deposit dw now c addr) ds m s1 = (r, s')" by (simp add: bind_def)
    from Cons.IH [OF books_grow_ok [OF g] _ rest] Cons.prems(2) have ih: "books_grow s1 s'"
      "\<forall>m. r = Inr m \<longrightarrow> (\<forall>d \<in> set ds. owner_of (dw_ingestor dw) d s1 \<noteq> None \<longrightarrow> deposit_ref d \<in> book_keys s')" by auto
    have "owner_of (dw_ingestor dw) d s \<noteq> None \<longrightarrow> deposit_ref d \<in> book_keys s'"
      using p(2) [OF _ Inr] Cons.prems(2) ih(1) by (auto simp: books_grow_def)
    moreover have "owner_of (dw_ingestor dw) x s \<noteq> None \<Longrightarrow> owner_of (dw_ingestor dw) x s1 \<noteq> None" for x
      using g by (simp add: books_grow_def)
    ultimately show ?thesis using ih books_grow_trans [OF g ih(1)] by auto
  qed
qed

lemma poll_gone_grow:
  assumes "ingest_ok s" "for_each (poll_gone dw now c addr) ds n s = (r, s')"
  shows "books_grow s s'"
  using assms
proof (induction ds arbitrary: n s)
  case Nil
  then show ?case by (simp add: ret_def books_grow_refl)
next
  case (Cons d ds)
  obtain r1 s1 where 1: "reverseCredit now d s = (r1, s1)" by fastforce
  from reverse_grow [OF Cons.prems(1) 1] have g: "books_grow s s1" .
  obtain r2 s2 where 2: "poll_gone dw now c addr d n s = (r2, s2)" by fastforce
  have "books_grow s1 s2"
    using 1 2 announce_grow [OF books_grow_ok [OF g]] books_grow_refl [OF books_grow_ok [OF g]]
    by (auto simp: poll_gone_def bind_def ret_def split: sum.splits prod.splits if_splits)
  with g have g2: "books_grow s s2" by (rule books_grow_trans)
  show ?case
  proof (cases r2)
    case (Inl e)
    with Cons.prems(2) 2 g2 show ?thesis by (simp add: bind_def)
  next
    case (Inr m)
    with Cons.prems(2) 2 have "for_each (poll_gone dw now c addr) ds m s2 = (r, s')" by (simp add: bind_def)
    from Cons.IH [OF books_grow_ok [OF g2] this] g2 show ?thesis by (blast intro: books_grow_trans)
  qed
qed

text \<open>\<open>watched_in dw c a s s'\<close>: at some point the source was asked for address \<open>a\<close> and answered, and
  every deposit in the answer that goes to an owned address is on the books of \<open>s'\<close>.\<close>

definition watched_in :: "DepositWatcher \<Rightarrow> string \<Rightarrow> string \<Rightarrow> ingest_db \<Rightarrow> ingest_db \<Rightarrow> bool" where
  "watched_in dw c a s s' \<longleftrightarrow> (\<exists>s1 ds s2. dw_fetchInbound dw c a s1 = (Inr ds, s2)
     \<and> (\<forall>d \<in> set ds. owner_of (dw_ingestor dw) d s \<noteq> None \<longrightarrow> deposit_ref d \<in> book_keys s'))"

lemma watched_in_grow:
  assumes "books_grow s0 s" "watched_in dw c a s s'" "books_grow s' s''"
  shows "watched_in dw c a s0 s''"
proof -
  from assms(2) obtain s1 ds s2 where 1: "dw_fetchInbound dw c a s1 = (Inr ds, s2)"
    "\<forall>d \<in> set ds. owner_of (dw_ingestor dw) d s \<noteq> None \<longrightarrow> deposit_ref d \<in> book_keys s'" by (auto simp: watched_in_def)
  have "owner_of (dw_ingestor dw) d s0 \<noteq> None \<Longrightarrow> owner_of (dw_ingestor dw) d s \<noteq> None" for d
    using assms(1) by (simp add: books_grow_def)
  moreover have "book_keys s' \<subseteq> book_keys s''" using assms(3) by (simp add: books_grow_def)
  ultimately have "\<forall>d \<in> set ds. owner_of (dw_ingestor dw) d s0 \<noteq> None \<longrightarrow> deposit_ref d \<in> book_keys s''"
    using 1(2) by (meson subsetD)
  with 1(1) show ?thesis unfolding watched_in_def by (intro exI conjI)
qed

lemma poll_address_run:
  assumes "deposit_source (dw_fetchInbound dw)" "\<forall>f. dw_reorged dw = Some f \<longrightarrow> deposit_source f"
    and "ingest_ok s" "poll_address dw now c addr n s = (r, s')"
  shows "books_grow s s' \<and> (\<forall>m. r = Inr m \<longrightarrow> watched_in dw c (pa_address addr) s s')"
proof -
  obtain cr re where n: "n = (cr, re)" by (cases n)
  obtain rf s1 where f: "dw_fetchInbound dw c (pa_address addr) s = (rf, s1)" by fastforce
  from deposit_source.fetch_grow [OF assms(1,3) f] have g1: "books_grow s s1" .
  show ?thesis
  proof (cases rf)
    case (Inl e)
    with assms(4) n f g1 show ?thesis by (auto simp: poll_address_def bind_def)
  next
    case (Inr ds)
    obtain rd s2 where d: "for_each (poll_deposit dw now c addr) ds cr s1 = (rd, s2)" by fastforce
    have nf: "\<forall>d \<in> set ds. nul \<notin> set (cd_chain d)"
      using deposit_source.fetch_chain [OF assms(1)] f Inr by blast
    from poll_deposits_run [OF books_grow_ok [OF g1] nf d] have g2: "books_grow s1 s2"
      and w: "\<forall>m. rd = Inr m \<longrightarrow> (\<forall>d \<in> set ds. owner_of (dw_ingestor dw) d s1 \<noteq> None \<longrightarrow> deposit_ref d \<in> book_keys s2)" by auto
    note g12 = books_grow_trans [OF g1 g2]
    show ?thesis
    proof (cases rd)
      case e: (Inl e)
      with assms(4) n f Inr d g12 show ?thesis by (auto simp: poll_address_def bind_def)
    next
      case m: (Inr m)
      from w m f Inr have w1: "watched_in dw c (pa_address addr) s1 s2" unfolding watched_in_def by blast
      have g3: "books_grow s2 s'"
      proof (cases "dw_reorged dw")
        case None
        with assms(4) n f Inr d m books_grow_refl [OF books_grow_ok [OF g12]] show ?thesis
          by (simp add: poll_address_def bind_def ret_def)
      next
        case (Some reorged)
        obtain rg s3 where g: "reorged c (pa_address addr) s2 = (rg, s3)" by fastforce
        from assms(2) Some have src: "deposit_source reorged" by blast
        from deposit_source.fetch_grow [OF src books_grow_ok [OF g12] g] have g3: "books_grow s2 s3" .
        show ?thesis
        proof (cases rg)
          case (Inl e)
          with assms(4) n f Inr d m Some g g3 show ?thesis by (simp add: poll_address_def bind_def)
        next
          case gone: (Inr gone)
          obtain rz s4 where z: "for_each (poll_gone dw now c addr) gone re s3 = (rz, s4)" by fastforce
          from poll_gone_grow [OF books_grow_ok [OF g3] z] have g4: "books_grow s3 s4" .
          have "s' = s4" using assms(4) n f Inr d m Some g gone z
            by (cases rz) (simp_all add: poll_address_def bind_def ret_def)
          with g3 g4 show ?thesis by (blast intro: books_grow_trans)
        qed
      qed
      from watched_in_grow [OF g1 w1 g3] books_grow_trans [OF g12 g3] show ?thesis by blast
    qed
  qed
qed

lemma poll_addresses_run:
  assumes "deposit_source (dw_fetchInbound dw)" "\<forall>f. dw_reorged dw = Some f \<longrightarrow> deposit_source f"
    and "ingest_ok s" "for_each (poll_address dw now c) addrs n s = (r, s')"
  shows "books_grow s s' \<and> (\<forall>m. r = Inr m \<longrightarrow> (\<forall>addr \<in> set addrs. watched_in dw c (pa_address addr) s s'))"
  using assms(3,4)
proof (induction addrs arbitrary: n s)
  case Nil
  then show ?case by (simp add: ret_def books_grow_refl)
next
  case (Cons addr addrs)
  obtain r1 s1 where 1: "poll_address dw now c addr n s = (r1, s1)" by fastforce
  from poll_address_run [OF assms(1,2) Cons.prems(1) 1] have g: "books_grow s s1"
    "\<forall>m. r1 = Inr m \<longrightarrow> watched_in dw c (pa_address addr) s s1" by auto
  show ?case
  proof (cases r1)
    case (Inl e)
    with Cons.prems(2) 1 g show ?thesis by (auto simp: bind_def)
  next
    case (Inr m)
    with Cons.prems(2) 1 have rest: "for_each (poll_address dw now c) addrs m s1 = (r, s')" by (simp add: bind_def)
    from Cons.IH [OF books_grow_ok [OF g(1)] rest] have ih: "books_grow s1 s'"
      "\<forall>m. r = Inr m \<longrightarrow> (\<forall>addr \<in> set addrs. watched_in dw c (pa_address addr) s1 s')" by auto
    have "watched_in dw c (pa_address addr) s s'"
      using watched_in_grow [OF books_grow_refl [OF Cons.prems(1)] _ ih(1)] g(2) Inr by blast
    moreover have "watched_in dw c a s1 s' \<Longrightarrow> watched_in dw c a s s'" for a
      using watched_in_grow [OF g(1) _ books_grow_refl [OF books_grow_ok [OF ih(1)]]] .
    ultimately show ?thesis using ih(2) books_grow_trans [OF g(1) ih(1)] by auto
  qed
qed

section \<open>Sequences of deposits\<close>

fun ingest_all :: "ingestor \<Rightarrow> (int \<times> ChainDeposit) list \<Rightarrow> ingest_db \<Rightarrow> (app_error + IngestStatus \<times> string) list \<times> ingest_db" where
  "ingest_all ig [] s = ([], s)"
| "ingest_all ig ((now, d) # ds) s =
     (case ingestConfirmed ig now d s of (r, s1) \<Rightarrow> case ingest_all ig ds s1 of (rs, s2) \<Rightarrow> (r # rs, s2))"

definition booked_refs :: "(app_error + IngestStatus \<times> string) list \<Rightarrow> string list" where
  "booked_refs rs = concat (map (\<lambda>r. case r of Inr (st, ref) \<Rightarrow> if st \<in> {Credited, Quarantined} then [ref] else [] | _ \<Rightarrow> []) rs)"

lemma ingest_keys:
  assumes "ingest_ok s" "nul \<notin> set (cd_chain d)" "ingestConfirmed ig now d s = (r, s')"
  shows "book_keys s' = book_keys s \<union> set (booked_refs [r]) \<and> set (booked_refs [r]) \<inter> book_keys s = {} \<and> distinct (booked_refs [r])"
  using assms
proof (cases rule: ingest_cases)
  case (booked attr blocked e l)
  from assms(1) have "sql_inv (in_ledger s)" by (simp add: ingest_ok_def sqlst.sound_def)
  from sqlst.post_cases [OF this booked(4,5)] deposit_entry_key [OF booked(3)]
  have "jr_idempotency_key ` set (sq_journal_entry l) = insert (deposit_ref d) (book_keys s)" "deposit_ref d \<notin> book_keys s" by auto
  moreover from booked(7) have "in_ledger s' = l" by (auto simp: pool_moved_def)
  ultimately show ?thesis using booked(6) by (simp add: booked_refs_def booked_as_def)
qed (simp_all add: booked_refs_def)

lemma ingest_all_keys:
  assumes "ingest_ok s" "\<forall>x \<in> set ds. nul \<notin> set (cd_chain (snd x))" "ingest_all ig ds s = (rs, s')"
  shows "book_keys s' = book_keys s \<union> set (booked_refs rs) \<and> set (booked_refs rs) \<inter> book_keys s = {} \<and> distinct (booked_refs rs)
    \<and> ingest_ok s'"
  using assms
proof (induction ds arbitrary: s rs s')
  case Nil
  then show ?case by (simp add: booked_refs_def)
next
  case (Cons x ds)
  obtain now d where x: "x = (now, d)" by (cases x)
  obtain r s1 where 1: "ingestConfirmed ig now d s = (r, s1)" by fastforce
  obtain rs1 s2 where 2: "ingest_all ig ds s1 = (rs1, s2)" by fastforce
  from Cons.prems(3) x 1 2 have rs: "rs = r # rs1" "s' = s2" by auto
  from Cons.prems(2) x have n: "nul \<notin> set (cd_chain d)" by simp
  note k = ingest_keys [OF Cons.prems(1) n 1]
  have "ingest_ok s1" using books_grow_ok [OF ingest_grow [OF Cons.prems(1) n 1]] .
  from Cons.IH [OF this _ 2] Cons.prems(2)
  have ih: "book_keys s2 = book_keys s1 \<union> set (booked_refs rs1)" "set (booked_refs rs1) \<inter> book_keys s1 = {}"
    "distinct (booked_refs rs1)" "ingest_ok s2" by auto
  have split: "booked_refs rs = booked_refs [r] @ booked_refs rs1" by (simp add: rs booked_refs_def)
  from k ih show ?case unfolding split rs(2) by auto
qed

text \<open>The change of every balance that a status stands for.\<close>

definition booking_effect :: "IngestStatus \<Rightarrow> ChainDeposit \<Rightarrow> AttributionEntry \<Rightarrow> string \<Rightarrow> string \<Rightarrow> int" where
  "booking_effect st d attr acc a =
     (let amt = cd_amountBaseUnits d; fee = amt * ae_feeBasisPoints attr div 10000 in
      if a \<noteq> mk_Asset (cd_asset d) then 0 else
      case st of
        Credited \<Rightarrow> (if acc = deposit_pool d attr then amt else 0)
          - (if acc = ''merchant_available:'' @ ae_tenant attr @ '':'' @ ae_merchant attr then amt - fee else 0)
          - (if acc = ''egofi_fee_revenue:'' @ ae_tenant attr then fee else 0)
      | Quarantined \<Rightarrow> (if acc = deposit_pool d attr then amt else 0)
          - (if acc = ''compliance_suspense:'' @ ae_tenant attr then amt else 0)
      | _ \<Rightarrow> 0)"

lemma booking_net:
  assumes "deposit_entry ig now d attr blocked = Inr e"
  shows "net_account acc a (je_postings e) = booking_effect (booked_as blocked) d attr acc a"
    "0 < cd_amountBaseUnits d" "\<not> blocked \<Longrightarrow> 0 \<le> ae_feeBasisPoints attr \<and> ae_feeBasisPoints attr < 10000"
proof -
  have *: "net_account acc a (je_postings e) = booking_effect (booked_as blocked) d attr acc a \<and> 0 < cd_amountBaseUnits d
    \<and> (\<not> blocked \<longrightarrow> 0 \<le> ae_feeBasisPoints attr \<and> ae_feeBasisPoints attr < 10000)"
  proof (cases blocked)
    case True
    then have q: "depositQuarantined (quarantine_input now d attr) = Inr e" using assms by (simp add: deposit_entry_def)
    then have pos: "0 < dq_amount (quarantine_input now d attr)" by (auto simp: depositQuarantined_def split: if_splits)
    from depositQuarantined_ok [OF pos] q have "je_postings e =
      [post_debit (deposit_pool d attr) (mk_Asset (cd_asset d)) (cd_amountBaseUnits d),
       post_credit (''compliance_suspense:'' @ ae_tenant attr) (mk_Asset (cd_asset d)) (cd_amountBaseUnits d)]"
      by (auto simp: quarantine_input_def)
    with True pos show ?thesis
      by (auto simp: ledger_simps booking_effect_def booked_as_def Let_def quarantine_input_def)
  next
    case False
    then have f: "depositFinalized (finalize_input now d attr) = Inr e" using assms by (simp add: deposit_entry_def)
    let ?i = "finalize_input now d attr"
    from f obtain fee net where sp: "splitFee (df_amount ?i) (df_feeBasisPoints ?i) = Inr (fee, net)"
      and e: "e = depositFinalized_entry ?i fee"
      by (auto simp: depositFinalized_cases split: sum.splits prod.splits)
    note b = splitFee_bounds [OF sp]
    from sp have fee: "fee = cd_amountBaseUnits d * ae_feeBasisPoints attr div 10000" "0 < cd_amountBaseUnits d"
      "0 \<le> ae_feeBasisPoints attr" "ae_feeBasisPoints attr < 10000"
      by (auto simp: splitFee_Inr_iff finalize_input_def)
    have "net_account acc a (je_postings e) = booking_effect Credited d attr acc a"
      using b(1) unfolding e by (auto simp: depositFinalized_entry_def ledger_simps booking_effect_def Let_def finalize_input_def deposit_pool_def fee(1) [symmetric])
    with False fee show ?thesis by (simp add: booked_as_def)
  qed
  from * show "net_account acc a (je_postings e) = booking_effect (booked_as blocked) d attr acc a"
    "0 < cd_amountBaseUnits d" "\<not> blocked \<Longrightarrow> 0 \<le> ae_feeBasisPoints attr \<and> ae_feeBasisPoints attr < 10000" by auto
qed

lemma booked_balance:
  assumes "ingest_ok s" "deposit_entry ig now d attr blocked = Inr e" "nul_free (je_postings e)"
    and "post SqlLedgerStore e (in_ledger s) = (Inr True, l)"
  shows "sql_balance acc a l = sql_balance acc a (in_ledger s) + booking_effect (booked_as blocked) d attr acc a"
proof -
  from assms(1) have i: "sql_inv (in_ledger s)" by (simp add: ingest_ok_def sqlst.sound_def)
  from sqlst.post_cases [OF i assms(3,4)] have "sql_inv l" "sql_log l = sql_log (in_ledger s) @ je_postings e" by auto
  with sqlst.balance_log [OF i, of acc a] sqlst.balance_log [of l acc a] booking_net(1) [OF assms(2), of acc a]
  show ?thesis by (simp add: SqlLedgerStore_def ledger_simps)
qed

section \<open>Properties\<close>

text \<open>C9. A deposit is booked at most once: however often, in whatever order and with whatever
  duplicates confirmed deposits are offered to the ingestor, each reference is credited or quarantined at most once,
  never when the ledger already has it, and the references booked are exactly the keys the
  ledger gains.\<close>

theorem deposits_booked_once:
  assumes "ingest_ok s" and "\<forall>x \<in> set ds. nul \<notin> set (cd_chain (snd x))" and "ingest_all ig ds s = (rs, s')"
  shows "distinct (booked_refs rs) \<and> set (booked_refs rs) \<inter> book_keys s = {} \<and> book_keys s' = book_keys s \<union> set (booked_refs rs)"
  using ingest_all_keys [OF assms] by blast

definition ex_in :: ingest_db where
  "ex_in = \<lparr>in_ledger = sql_init,
     in_pool = [\<lparr>pa_id = ''p1'', pa_tenant = ''t'', pa_merchant = ''m'', pa_chain = ''ETH'', pa_derivationIndex = 0,
       pa_address = ''0xA'', pa_state = Reserved, pa_invoiceId = Some ''i'', pa_cooldownUntil = None,
       pa_gatherStrategy = EOA_FUND_TRANSFER\<rparr>],
     in_hooks = \<lparr>wh_endpoints = [], wh_deliveries = [], wh_posts = []\<rparr>, in_cursors = [], in_calls = 0, in_scans = []\<rparr>"

definition ex_ig :: ingestor where
  "ex_ig = \<lparr>ig_feePolicy = (\<lambda>_ _. 100), ig_lifecycle = None, ig_screener = None\<rparr>"

definition ex_dep :: "string \<Rightarrow> int \<Rightarrow> ChainDeposit" where
  "ex_dep tx amt = \<lparr>cd_chain = ''ETH'', cd_txId = tx, cd_index = 0, cd_to = ''0xA'', cd_from = ''0xB'', cd_asset = ''USDT'',
     cd_tokenContract = None, cd_amountBaseUnits = amt, cd_blockNumber = None\<rparr>"

lemma ex_in_ok: "ingest_ok ex_in"
  by (simp add: ingest_ok_def ex_in_def pool_unique_def nul_def)

theorem deposits_booked_once_witness:
  "booked_refs (fst (ingest_all ex_ig [(1, ex_dep ''x'' 10), (2, ex_dep ''x'' 99), (3, ex_dep ''y'' 20)] ex_in)) = [''ETH:x:0'', ''ETH:y:0'']
   \<and> distinct (booked_refs (fst (ingest_all ex_ig [(1, ex_dep ''x'' 10), (2, ex_dep ''x'' 99), (3, ex_dep ''y'' 20)] ex_in)))"
proof -
  let ?ds = "[(1, ex_dep ''x'' 10), (2, ex_dep ''x'' 99), (3, ex_dep ''y'' 20)]"
  have "booked_refs (fst (ingest_all ex_ig ?ds ex_in)) = [''ETH:x:0'', ''ETH:y:0'']" by code_simp
  moreover have "\<forall>x \<in> set ?ds. nul \<notin> set (cd_chain (snd x))" by (simp add: ex_dep_def nul_def)
  from deposits_booked_once [OF ex_in_ok this prod.collapse [symmetric], of ex_ig]
  have "distinct (booked_refs (fst (ingest_all ex_ig ?ds ex_in)))" by blast
  ultimately show ?thesis by blast
qed

text \<open>C10. What a deposit books is exact on every branch: when the ingestor answers, it answers with
  the deposit's reference; \<open>unmatched\<close> means that no owned address received it; a credit
  raises the owner's pool account by the amount, the merchant's available balance by the amount
  less the fee and the fee revenue by the fee; a quarantined deposit goes to the tenant's suspense account in full
  and reaches no merchant; a duplicate, an unmatched deposit and an error leave every balance as it was.\<close>

theorem booking_is_exact:
  assumes "ingest_ok s" and "nul \<notin> set (cd_chain d)" and "ingestConfirmed ig now d s = (r, s')"
  shows "case r of
      Inl err \<Rightarrow> in_ledger s' = in_ledger s
    | Inr (st, ref) \<Rightarrow> ref = deposit_ref d \<and> (case owner_of ig d s of
        None \<Rightarrow> st = Unmatched \<and> s' = s
      | Some attr \<Rightarrow> st \<noteq> Unmatched
          \<and> (\<forall>acc a. sql_balance acc a (in_ledger s') = sql_balance acc a (in_ledger s) + booking_effect st d attr acc a))"
  using assms
proof (cases rule: ingest_cases)
  case (booked attr blocked e l)
  from booked(7) have "in_ledger s' = l" by (auto simp: pool_moved_def)
  with booked booked_balance [OF assms(1) booked(3,4,5)] show ?thesis by (simp add: booked_as_def)
next
  case duplicate
  then show ?thesis by (auto simp: booking_effect_def Let_def)
qed auto

theorem booking_is_exact_witness:
  "sql_balance ''merchant_available:t:m'' ''USDT'' (in_ledger (snd (ingestConfirmed ex_ig 1 (ex_dep ''x'' 1050) ex_in))) = - 1040"
proof -
  have st: "fst (ingestConfirmed ex_ig 1 (ex_dep ''x'' 1050) ex_in) = Inr (Credited, ''ETH:x:0'')" by code_simp
  have o1: "owner_of ex_ig (ex_dep ''x'' 1050) ex_in = Some \<lparr>ae_tenant = ''t'', ae_merchant = ''m'', ae_feeBasisPoints = 100\<rparr>"
    by code_simp
  have n: "nul \<notin> set (cd_chain (ex_dep ''x'' 1050))" by (simp add: ex_dep_def nul_def)
  from booking_is_exact [OF ex_in_ok n prod.collapse [symmetric], of ex_ig 1] st o1
  have "sql_balance ''merchant_available:t:m'' ''USDT'' (in_ledger (snd (ingestConfirmed ex_ig 1 (ex_dep ''x'' 1050) ex_in)))
    = sql_balance ''merchant_available:t:m'' ''USDT'' (in_ledger ex_in)
      + booking_effect Credited (ex_dep ''x'' 1050) \<lparr>ae_tenant = ''t'', ae_merchant = ''m'', ae_feeBasisPoints = 100\<rparr> ''merchant_available:t:m'' ''USDT''"
    by auto
  moreover have "sql_balance ''merchant_available:t:m'' ''USDT'' (in_ledger ex_in) = 0" by code_simp
  moreover have "booking_effect Credited (ex_dep ''x'' 1050) \<lparr>ae_tenant = ''t'', ae_merchant = ''m'', ae_feeBasisPoints = 100\<rparr>
    ''merchant_available:t:m'' ''USDT'' = - 1040" by code_simp
  ultimately show ?thesis by simp
qed

text \<open>A reorganised deposit is taken back: reversing a booked deposit, when its reversal is not yet in the ledger,
  answers \<open>reversed\<close> and restores every balance to what it was before the deposit was booked.\<close>

theorem reverse_undoes_booking:
  assumes "ingest_ok s" and "nul \<notin> set (cd_chain d)" and "ingestConfirmed ig now d s = (Inr (st, ref), s1)"
    and "st \<in> {Credited, Quarantined}"
    and "''reverse:'' @ ref \<notin> book_keys s1" and "''reverse:'' @ ref \<notin> jr_id ` set (sq_journal_entry (in_ledger s1))"
  shows "\<exists>s2. reverseCredit t d s1 = (Inr (Reversed, ref), s2)
    \<and> (\<forall>acc a. sql_balance acc a (in_ledger s2) = sql_balance acc a (in_ledger s))"
  using assms(1-3)
proof (cases rule: ingest_cases)
  case (booked attr blocked e l)
  from assms(1) have snd: "sqlst.sound (in_ledger s)" by (simp add: ingest_ok_def)
  from booked(7) have l: "in_ledger s1 = l" by (auto simp: pool_moved_def)
  from booked(6) have ref: "ref = deposit_ref d" by simp
  from sqlst.reverse_cancels [OF snd booked(4,5), of "''reverse:'' @ ref" "''reverse:'' @ ref" t] assms(5,6) l
  obtain l2 where "reverseByRef SqlLedgerStore (je_id e) (''reverse:'' @ ref) (''reverse:'' @ ref) t l = (Inr True, l2)"
    "\<forall>acc a. sql_balance acc a l2 = sql_balance acc a (in_ledger s)" by (auto simp: SqlLedgerStore_def)
  with deposit_entry_key [OF booked(3)] l ref show ?thesis
    by (intro exI [of _ "s1\<lparr>in_ledger := l2\<rparr>"])
      (simp add: reverseCredit_def Let_def try_catch_def bind_def zoom_def ret_def)
qed (use assms(4) in auto)

theorem reverse_undoes_booking_witness:
  "\<exists>s2. reverseCredit 5 (ex_dep ''x'' 1050) (snd (ingestConfirmed ex_ig 1 (ex_dep ''x'' 1050) ex_in)) = (Inr (Reversed, ''ETH:x:0''), s2)
     \<and> (\<forall>acc a. sql_balance acc a (in_ledger s2) = sql_balance acc a (in_ledger ex_in))"
proof -
  let ?s1 = "snd (ingestConfirmed ex_ig 1 (ex_dep ''x'' 1050) ex_in)"
  have "fst (ingestConfirmed ex_ig 1 (ex_dep ''x'' 1050) ex_in) = Inr (Credited, ''ETH:x:0'')" by code_simp
  then have run: "ingestConfirmed ex_ig 1 (ex_dep ''x'' 1050) ex_in = (Inr (Credited, ''ETH:x:0''), ?s1)"
    by (metis prod.collapse)
  have n: "nul \<notin> set (cd_chain (ex_dep ''x'' 1050))" by (simp add: ex_dep_def nul_def)
  have k: "''reverse:'' @ ''ETH:x:0'' \<notin> book_keys ?s1" "''reverse:'' @ ''ETH:x:0'' \<notin> jr_id ` set (sq_journal_entry (in_ledger ?s1))"
    by code_simp+
  show ?thesis by (rule reverse_undoes_booking [OF ex_in_ok n run _ k]) simp
qed


definition ex_dw :: DepositWatcher where
  "ex_dw = \<lparr>dw_fetchInbound = (\<lambda>c a s. (Inr [ex_dep ''x'' 1050, ex_dep ''y'' 7], s)), dw_reorged = None, dw_ingestor = ex_ig, dw_uuid = show_nat\<rparr>"

lemma ex_dw_source: "deposit_source (dw_fetchInbound ex_dw)"
  by unfold_locales (auto simp: ex_dw_def ex_dep_def nul_def)


text \<open>The key of a reversed deposit stays in the ledger: when the transaction is mined again after a
  reorganisation, the deposit is a duplicate and the merchant is not credited.\<close>

lemma redeposit_after_reversal_lost:
  "let s1 = snd (ingestConfirmed ex_ig 1 (ex_dep ''x'' 1050) ex_in); s2 = snd (reverseCredit 2 (ex_dep ''x'' 1050) s1);
       (r, s3) = ingestConfirmed ex_ig 3 (ex_dep ''x'' 1050) s2
   in r = Inr (Duplicate, ''ETH:x:0'') \<and> sql_balance ''merchant_available:t:m'' ''USDT'' (in_ledger s3) = 0"
  by code_simp

text \<open>A second reversal of the same deposit posts nothing and still answers \<open>reversed\<close>, so every poll
  that sees the deposit gone announces it again.\<close>

lemma reversal_announced_again:
  "let s1 = snd (ingestConfirmed ex_ig 1 (ex_dep ''x'' 1050) ex_in); s2 = snd (reverseCredit 2 (ex_dep ''x'' 1050) s1);
       (r, s3) = reverseCredit 3 (ex_dep ''x'' 1050) s2
   in r = Inr (Reversed, ''ETH:x:0'') \<and> sql_log (in_ledger s3) = sql_log (in_ledger s2)"
  by code_simp

end
