(* ===== verification/Hex.thy ===== *)
theory Hex
  imports Prelude "HOL-Library.Word"
begin

text \<open>
  Hexadecimal numerals and byte strings, as the chain adapters use them:
  \<open>n.toString(16)\<close>, \<open>BigInt("0x...")\<close>, \<open>Buffer.toString("hex")\<close> and \<open>Buffer.from(s, "hex")\<close>,
  with their round trips.
\<close>

type_synonym byte = "8 word"

section \<open>Digits\<close>

definition hex_digit :: "nat \<Rightarrow> char" where
  "hex_digit n = char_of (if n < 10 then 48 + n else 87 + n)"

definition hex_val :: "char \<Rightarrow> nat option" where
  "hex_val c = (let n = of_char c in
     if 48 \<le> n \<and> n \<le> 57 then Some (n - 48)
     else if 97 \<le> n \<and> n \<le> 102 then Some (n - 87)
     else if 65 \<le> n \<and> n \<le> 70 then Some (n - 55) else None)"

definition is_hex :: "char \<Rightarrow> bool" where
  "is_hex c \<longleftrightarrow> hex_val c \<noteq> None"

lemma of_char_hex_digit: "n < 16 \<Longrightarrow> of_char (hex_digit n) = (if n < 10 then 48 + n else 87 + n)"
  by (simp add: hex_digit_def)

lemma hex_val_digit [simp]: "n < 16 \<Longrightarrow> hex_val (hex_digit n) = Some n"
  by (auto simp: hex_val_def Let_def of_char_hex_digit)

lemma hex_val_less: "hex_val c = Some n \<Longrightarrow> n < 16"
  by (auto simp: hex_val_def Let_def split: if_splits)

lemma hex_digit_inj: "m < 16 \<Longrightarrow> n < 16 \<Longrightarrow> hex_digit m = hex_digit n \<longleftrightarrow> m = n"
  by (metis hex_val_digit option.inject)

lemma is_hex_digit [simp]: "n < 16 \<Longrightarrow> is_hex (hex_digit n)"
  by (simp add: is_hex_def)

section \<open>Numerals\<close>

fun show_hex :: "nat \<Rightarrow> string" where
  "show_hex n = (if n < 16 then [hex_digit n] else show_hex (n div 16) @ [hex_digit (n mod 16)])"

declare show_hex.simps [simp del]

definition read_digit :: "nat option \<Rightarrow> char \<Rightarrow> nat option" where
  "read_digit acc c = (case (acc, hex_val c) of (Some a, Some d) \<Rightarrow> Some (a * 16 + d) | _ \<Rightarrow> None)"

definition read_hex :: "string \<Rightarrow> nat option" where
  "read_hex s = foldl read_digit (Some 0) s"

lemma read_digit_Some:
  "hex_val c = Some d \<Longrightarrow> read_digit (Some a) c = Some (a * 16 + d)"
  "hex_val c = None \<Longrightarrow> read_digit (Some a) c = None"
  by (simp_all add: read_digit_def)

lemma read_digit_None [simp]: "foldl read_digit None s = None"
  by (induction s) (simp_all add: read_digit_def)

lemma read_hex_snoc: "read_hex (s @ [c]) = read_digit (read_hex s) c"
  by (simp add: read_hex_def)

lemma read_show_hex [simp]: "read_hex (show_hex n) = Some n"
proof (induction n rule: show_hex.induct)
  case (1 n)
  show ?case
  proof (cases "n < 16")
    case True
    then show ?thesis by (subst show_hex.simps) (simp add: read_hex_def read_digit_def)
  next
    case False
    with 1 have "read_hex (show_hex (n div 16)) = Some (n div 16)" by simp
    with False show ?thesis by (subst show_hex.simps) (simp add: read_hex_snoc read_digit_def)
  qed
qed

lemma show_hex_inj [simp]: "show_hex m = show_hex n \<longleftrightarrow> m = n"
  by (metis option.inject read_show_hex)

lemma read_hex_some_iff: "(\<exists>n. read_hex s = Some n) \<longleftrightarrow> list_all is_hex s"
proof -
  have "(\<exists>n. foldl read_digit (Some a) s = Some n) \<longleftrightarrow> list_all is_hex s" for a
  proof (induction s arbitrary: a)
    case (Cons c s)
    then show ?case by (cases "hex_val c") (auto simp: read_digit_Some is_hex_def)
  qed simp
  then show ?thesis by (simp add: read_hex_def)
qed

text \<open>\<open>padStart(w, "0")\<close> does not change the number read.\<close>

lemma read_hex_zeros: "read_hex (replicate k (CHR ''0'') @ s) = read_hex s"
proof -
  have "foldl read_digit (Some 0) (replicate k (CHR ''0'')) = Some 0"
    by (induction k) (simp_all add: read_digit_def hex_val_def)
  then show ?thesis by (simp add: read_hex_def)
qed

section \<open>Byte strings\<close>

definition hex_of_byte :: "byte \<Rightarrow> string" where
  "hex_of_byte b = [hex_digit (unat b div 16), hex_digit (unat b mod 16)]"

definition hex_of_bytes :: "byte list \<Rightarrow> string" where
  "hex_of_bytes bs = concat (map hex_of_byte bs)"

text \<open>\<open>Buffer.from(s, "hex")\<close> decodes pairs of digits up to the first that is none.\<close>

fun bytes_of_hex :: "string \<Rightarrow> byte list" where
  "bytes_of_hex (a # b # s) =
     (case (hex_val a, hex_val b) of (Some x, Some y) \<Rightarrow> word_of_nat (x * 16 + y) # bytes_of_hex s | _ \<Rightarrow> [])"
| "bytes_of_hex _ = []"

lemma unat_byte_less [simp]: "unat b < 256" for b :: byte
  using unsigned_less [of b] by simp

lemma hex_of_bytes_Cons [simp]:
  "hex_of_bytes (b # bs) = hex_digit (unat b div 16) # hex_digit (unat b mod 16) # hex_of_bytes bs"
  by (simp add: hex_of_bytes_def hex_of_byte_def)

lemma hex_of_bytes_Nil [simp]: "hex_of_bytes [] = []"
  by (simp add: hex_of_bytes_def)

lemma length_hex_of_bytes [simp]: "length (hex_of_bytes bs) = 2 * length bs"
  by (induction bs) simp_all

lemma unat_byte_div [simp]: "unat b div 16 < 16" for b :: byte
  using unat_byte_less [of b] by linarith

lemma bytes_of_hex_of_bytes [simp]: "bytes_of_hex (hex_of_bytes bs) = bs"
  by (induction bs) simp_all

lemma hex_of_bytes_inj [simp]: "hex_of_bytes bs = hex_of_bytes cs \<longleftrightarrow> bs = cs"
  by (metis bytes_of_hex_of_bytes)

lemma hex_of_bytes_append [simp]: "hex_of_bytes (bs @ cs) = hex_of_bytes bs @ hex_of_bytes cs"
  by (simp add: hex_of_bytes_def)

lemma list_all_is_hex_bytes [simp]: "list_all is_hex (hex_of_bytes bs)"
  by (induction bs) simp_all

lemma lower_hex_digit [simp]: "n < 16 \<Longrightarrow> lower_char (hex_digit n) = hex_digit n"
  by (auto simp: lower_char_def of_char_hex_digit)

lemma lower_hex_of_bytes [simp]: "toLowerCase (hex_of_bytes bs) = hex_of_bytes bs"
  by (induction bs) (simp_all add: toLowerCase_def)

lemma length_bytes_of_hex: "list_all is_hex s \<Longrightarrow> length (bytes_of_hex s) = length s div 2"
  by (induction s rule: bytes_of_hex.induct) (auto simp: is_hex_def)

lemma hex_digit_val:
  assumes "hex_val c = Some n" "lower_char c = c"
  shows "hex_digit n = c"
proof -
  from assms(1) have r: "(48 \<le> (of_char c :: nat) \<and> (of_char c :: nat) \<le> 57 \<and> n = of_char c - 48)
    \<or> (97 \<le> (of_char c :: nat) \<and> (of_char c :: nat) \<le> 102 \<and> n = of_char c - 87)
    \<or> (65 \<le> (of_char c :: nat) \<and> (of_char c :: nat) \<le> 70)"
    by (auto simp: hex_val_def Let_def split: if_splits)
  have "\<not> (65 \<le> (of_char c :: nat) \<and> (of_char c :: nat) \<le> 70)"
  proof
    assume u: "65 \<le> (of_char c :: nat) \<and> (of_char c :: nat) \<le> 70"
    then have "(of_char (lower_char c) :: nat) = of_char c + 32" by (simp add: lower_char_def)
    with assms(2) show False by simp
  qed
  with r have "(of_char (hex_digit n) :: nat) = of_char c" using hex_val_less [OF assms(1)]
    by (auto simp: of_char_hex_digit)
  then show ?thesis by (metis char_of_char)
qed

text \<open>An even number of lower-case digits is the encoding of what it decodes to.\<close>

lemma hex_of_bytes_of_hex:
  assumes "list_all is_hex s" "even (length s)" "toLowerCase s = s"
  shows "hex_of_bytes (bytes_of_hex s) = s"
  using assms
proof (induction s rule: bytes_of_hex.induct)
  case (1 a b s)
  then obtain x y where v: "hex_val a = Some x" "hex_val b = Some y" by (auto simp: is_hex_def)
  note less = hex_val_less [OF v(1)] hex_val_less [OF v(2)]
  then have n: "unat (word_of_nat (x * 16 + y) :: byte) = x * 16 + y" by (simp only: unsigned_of_nat) (simp add: take_bit_nat_eq_self_iff)
  from 1(4) have low: "lower_char a = a" "lower_char b = b" "toLowerCase s = s" by (simp_all add: toLowerCase_def)
  from less have "(x * 16 + y) div 16 = x" "(x * 16 + y) mod 16 = y" by simp_all
  with 1 v n low hex_digit_val [OF v(1)] hex_digit_val [OF v(2)] show ?case by simp
qed simp_all

section \<open>The prefix\<close>

text \<open>\<open>s.replace(/^0x/, "")\<close>\<close>

definition strip_0x :: "string \<Rightarrow> string" where
  "strip_0x s = (if startsWith s ''0x'' then drop 2 s else s)"

end
