(* ===== verification/Deposit_Sources.thy ===== *)
theory Deposit_Sources
  imports Ingest Hex
begin

text \<open>
  The sources the watcher reads (\<open>src/chains/evm\<close>, \<open>src/chains/tron\<close>, \<open>src/chains/ingest/deposit-cursor.ts\<close>,
  \<open>src/chains/chain-router.ts\<close>): the EVM adapter with its block cursor, the TRON adapter, and the
  routing between them that \<open>buildRouter\<close> wires.

  The nodes are parameters: functions of the number of calls made before. So is Keccak-256, as
  the hexadecimal digest of a string. Parsing of the numbers in a reply is modelled; what JSON
  validation lets through is the type of the reply.
\<close>

section \<open>Quantities (evm-rpc.ts)\<close>

definition toQuantity :: "int \<Rightarrow> string" where
  "toQuantity n = ''0x'' @ (if n < 0 then ''-'' @ show_hex (nat (- n)) else show_hex (nat n))"

text \<open>\<open>BigInt(s)\<close> on hexadecimal and decimal numerals. The \<open>0o\<close> and \<open>0b\<close> prefixes and
  surrounding blanks, which a node does not send, are refused here.\<close>

definition js_BigInt :: "string \<Rightarrow> app_error + int" where
  "js_BigInt s =
     (let err = Inl (ForeignError (''Cannot convert '' @ s @ '' to a BigInt'') False None None) in
      if startsWith (toLowerCase s) ''0x'' \<and> length s > 2
      then (case read_hex (drop 2 s) of Some n \<Rightarrow> Inr (int n) | None \<Rightarrow> err)
      else if s \<noteq> [] \<and> list_all is_digit s then Inr (int (read_nat s))
      else if s \<noteq> [] \<and> hd s = CHR ''-'' \<and> tl s \<noteq> [] \<and> list_all is_digit (tl s) then Inr (- int (read_nat (tl s)))
      else err)"

definition fromQuantity :: "string option \<Rightarrow> app_error + int" where
  "fromQuantity hex =
     (case hex of None \<Rightarrow> Inr 0 | Some h \<Rightarrow> if h \<noteq> [] \<and> h \<noteq> ''0x'' then js_BigInt h else Inr 0)"

section \<open>Addresses (evm/address.ts)\<close>

definition normalizeHexAddress :: "string \<Rightarrow> app_error + string" where
  "normalizeHexAddress address =
     (let clean = strip_0x (toLowerCase address) in
      if length clean = 40 \<and> list_all (\<lambda>c. is_hex c \<and> lower_char c = c) clean then Inr clean
      else Inl (JsError (''not a 20-byte hex address: '' @ address)))"

definition checksum_char :: "string \<Rightarrow> nat \<Rightarrow> char \<Rightarrow> char" where
  "checksum_char hash i c =
     (if i < length hash \<and> (case hex_val (hash ! i) of Some v \<Rightarrow> v \<ge> 8 | None \<Rightarrow> False) then upper_char c else c)"

definition toChecksumAddress :: "(string \<Rightarrow> string) \<Rightarrow> string \<Rightarrow> app_error + string" where
  "toChecksumAddress keccak address =
     rbind (normalizeHexAddress address) (\<lambda>clean.
       Inr (''0x'' @ map2 (checksum_char (keccak clean)) [0..<length clean] clean))"

section \<open>The EVM adapter (evm-adapter.ts)\<close>

record EvmLog =
  el_address :: string
  el_topics :: "string list"
  el_data :: string
  el_blockNumber :: string
  el_transactionHash :: string
  el_logIndex :: string

record EvmAdapterConfig =
  ec_chain :: string
  ec_confirmations :: nat
  ec_tokenContracts :: "(string, string) jsmap"

definition addressTopic :: "string \<Rightarrow> string" where
  "addressTopic address = ''0x'' @ replicate 24 (CHR ''0'') @ strip_0x (toLowerCase address)"

definition addressFromTopic :: "(string \<Rightarrow> string) \<Rightarrow> string \<Rightarrow> app_error + string" where
  "addressFromTopic keccak topic = toChecksumAddress keccak (''0x'' @ drop (length topic - 40) topic)"

definition TRANSFER_EVENT_TOPIC :: "(string \<Rightarrow> string) \<Rightarrow> string" where
  "TRANSFER_EVENT_TOPIC keccak = ''0x'' @ keccak ''Transfer(address,address,uint256)''"

text \<open>The constructor's map from contract to symbol: the last entry for a contract wins.\<close>

definition symbolByContract :: "EvmAdapterConfig \<Rightarrow> string \<Rightarrow> string option" where
  "symbolByContract cfg = map_of (rev (map (\<lambda>(symbol, addr). (toLowerCase addr, symbol)) (ec_tokenContracts cfg)))"

definition log_deposit :: "(string \<Rightarrow> string) \<Rightarrow> EvmAdapterConfig \<Rightarrow> EvmLog \<Rightarrow> string \<Rightarrow> app_error + ChainDeposit" where
  "log_deposit keccak cfg log symbol =
     rbind (fromQuantity (Some (el_logIndex log))) (\<lambda>index.
     rbind (addressFromTopic keccak (el_topics log ! 1)) (\<lambda>from.
     rbind (addressFromTopic keccak (el_topics log ! 2)) (\<lambda>to.
     rbind (toChecksumAddress keccak (el_address log)) (\<lambda>contract.
     rbind (fromQuantity (Some (el_data log))) (\<lambda>amt.
     rbind (fromQuantity (Some (el_blockNumber log))) (\<lambda>block.
       Inr \<lparr>cd_chain = ec_chain cfg, cd_txId = el_transactionHash log, cd_index = index, cd_to = to, cd_from = from,
            cd_asset = symbol, cd_tokenContract = Some contract, cd_amountBaseUnits = amt, cd_blockNumber = Some block\<rparr>))))))"

definition transfer_symbol :: "(string \<Rightarrow> string) \<Rightarrow> EvmAdapterConfig \<Rightarrow> EvmLog \<Rightarrow> string option" where
  "transfer_symbol keccak cfg log =
     (if length (el_topics log) < 3 \<or> toLowerCase (el_topics log ! 0) \<noteq> TRANSFER_EVENT_TOPIC keccak then None
      else case symbolByContract cfg (toLowerCase (el_address log)) of
        None \<Rightarrow> None
      | Some symbol \<Rightarrow> if symbol = [] then None else Some symbol)"

fun parseDeposits :: "(string \<Rightarrow> string) \<Rightarrow> EvmAdapterConfig \<Rightarrow> EvmLog list \<Rightarrow> app_error + ChainDeposit list" where
  "parseDeposits keccak cfg [] = Inr []"
| "parseDeposits keccak cfg (log # logs) =
     (case transfer_symbol keccak cfg log of
        None \<Rightarrow> parseDeposits keccak cfg logs
      | Some symbol \<Rightarrow> rbind (log_deposit keccak cfg log symbol) (\<lambda>d.
          rbind (parseDeposits keccak cfg logs) (\<lambda>ds. Inr (d # ds))))"

text \<open>The node: \<open>eth_blockNumber\<close> and \<open>eth_getLogs\<close>, which gets the range, and the topics.\<close>

record EvmRpc =
  er_blockNumber :: "nat \<Rightarrow> app_error + string"
  er_getLogs :: "nat \<Rightarrow> string \<Rightarrow> string \<Rightarrow> string option list \<Rightarrow> app_error + EvmLog list"

definition rpc_call :: "(nat \<Rightarrow> app_error + 'a) \<Rightarrow> (ingest_db, app_error, 'a) eff" where
  "rpc_call f s = (f (in_calls s), s\<lparr>in_calls := Suc (in_calls s)\<rparr>)"

definition blockNumber :: "EvmRpc \<Rightarrow> (ingest_db, app_error, int) eff" where
  "blockNumber rpc = bind (rpc_call (er_blockNumber rpc)) (\<lambda>hex. lift (fromQuantity (Some hex)))"

text \<open>\<open>key\<close> is the cursor the scan runs for; the range of an answered scan is recorded under it.\<close>

definition scanInboundErc20 ::
  "(string \<Rightarrow> string) \<Rightarrow> EvmRpc \<Rightarrow> EvmAdapterConfig \<Rightarrow> string \<times> string \<Rightarrow> string \<Rightarrow> int \<Rightarrow>
   (ingest_db, app_error, ChainDeposit list \<times> int) eff" where
  "scanInboundErc20 keccak rpc cfg key address fromBlock =
     bind (blockNumber rpc) (\<lambda>head.
       let safe = head - int (ec_confirmations cfg) in
       if safe < fromBlock then ret ([], fromBlock - 1)
       else
         bind (rpc_call (\<lambda>n. er_getLogs rpc n (toQuantity fromBlock) (toQuantity safe)
           [Some (TRANSFER_EVENT_TOPIC keccak), None, Some (addressTopic address)])) (\<lambda>logs.
         bind (lift (parseDeposits keccak cfg logs)) (\<lambda>deposits.
         bind (modify (\<lambda>s. s\<lparr>in_scans := in_scans s @ [(key, fromBlock, safe)]\<rparr>)) (\<lambda>_.
           ret (deposits, safe)))))"

section \<open>The cursor and the EVM source (deposit-cursor.ts, evm-deposit-source.ts)\<close>

definition cursor_get :: "string \<Rightarrow> string \<Rightarrow> ingest_db \<Rightarrow> int option" where
  "cursor_get chain address s = map_of (in_cursors s) (chain, address)"

definition cursor_set :: "string \<Rightarrow> string \<Rightarrow> int \<Rightarrow> ingest_db \<Rightarrow> ingest_db" where
  "cursor_set chain address nextBlock s = s\<lparr>in_cursors := AList.update (chain, address) nextBlock (in_cursors s)\<rparr>"

definition start_block :: "EvmRpc \<Rightarrow> nat \<Rightarrow> string \<Rightarrow> string \<Rightarrow> (ingest_db, app_error, int) eff" where
  "start_block rpc lookback chain address =
     bind (reads (cursor_get chain address)) (\<lambda>cursor.
       case cursor of
         Some c \<Rightarrow> ret c
       | None \<Rightarrow> bind (blockNumber rpc) (\<lambda>head. ret (if head > int lookback then head - int lookback else 0)))"

definition evm_fetchInbound :: "(string \<Rightarrow> string) \<Rightarrow> EvmRpc \<Rightarrow> EvmAdapterConfig \<Rightarrow> nat \<Rightarrow> inbound" where
  "evm_fetchInbound keccak rpc cfg lookback chain address =
     bind (start_block rpc lookback chain address) (\<lambda>cursor.
     bind (scanInboundErc20 keccak rpc cfg (chain, address) address cursor) (\<lambda>(deposits, scannedTo).
     bind (if scannedTo \<ge> cursor then modify (cursor_set chain address (scannedTo + 1)) else ret ()) (\<lambda>_.
       ret deposits)))"

section \<open>The TRON source (trc20.ts, tron-adapter.ts)\<close>

text \<open>A transfer of TronGrid's reply, as the schema describes it.\<close>

record Trc20Tx =
  tt_transaction_id :: string
  tt_from :: string
  tt_to :: string
  tt_type :: string
  tt_value :: string
  tt_symbol :: string
  tt_address :: string

definition trc20_valid :: "Trc20Tx \<Rightarrow> bool" where
  "trc20_valid tx \<longleftrightarrow> tt_transaction_id tx \<noteq> [] \<and> tt_from tx \<noteq> [] \<and> tt_to tx \<noteq> [] \<and> tt_value tx \<noteq> [] \<and> list_all is_digit (tt_value tx)
     \<and> tt_symbol tx \<noteq> [] \<and> tt_address tx \<noteq> []"

definition toDeposit :: "Trc20Tx \<Rightarrow> ChainDeposit option" where
  "toDeposit tx =
     (if tt_type tx \<noteq> ''Transfer'' then None
      else Some \<lparr>cd_chain = ''TRON'', cd_txId = tt_transaction_id tx, cd_index = 0, cd_to = tt_to tx, cd_from = tt_from tx,
        cd_asset = toUpperCase (tt_symbol tx), cd_tokenContract = Some (tt_address tx),
        cd_amountBaseUnits = int (read_nat (tt_value tx)), cd_blockNumber = None\<rparr>)"

definition parseTrc20Response :: "Trc20Tx list \<Rightarrow> app_error + ChainDeposit list" where
  "parseTrc20Response data =
     (if list_all trc20_valid data then Inr (List.map_filter toDeposit data)
      else Inl (ForeignError ''invalid input'' True None None))"

record TronNode =
  tn_trc20 :: "nat \<Rightarrow> string \<Rightarrow> app_error + Trc20Tx list"
  tn_solidified :: "nat \<Rightarrow> app_error + int option"
  tn_transactionBlock :: "nat \<Rightarrow> string \<Rightarrow> app_error + int option"

definition fetchInboundTrc20 :: "TronNode \<Rightarrow> string \<Rightarrow> (ingest_db, app_error, ChainDeposit list) eff" where
  "fetchInboundTrc20 node address =
     bind (rpc_call (\<lambda>n. tn_trc20 node n address)) (\<lambda>raw. lift (parseTrc20Response raw))"

definition solidifiedBlockNumber :: "TronNode \<Rightarrow> (ingest_db, app_error, int) eff" where
  "solidifiedBlockNumber node = bind (rpc_call (tn_solidified node)) (\<lambda>n. ret (case n of Some b \<Rightarrow> b | None \<Rightarrow> 0))"

definition confirm_deposit ::
  "TronNode \<Rightarrow> int \<Rightarrow> ChainDeposit \<Rightarrow> ChainDeposit list \<Rightarrow> (ingest_db, app_error, ChainDeposit list) eff" where
  "confirm_deposit node solidified d confirmed =
     bind (rpc_call (\<lambda>n. tn_transactionBlock node n (cd_txId d))) (\<lambda>block.
       case block of
         Some b \<Rightarrow> ret (if b > 0 \<and> b \<le> solidified then confirmed @ [d\<lparr>cd_blockNumber := Some b\<rparr>] else confirmed)
       | None \<Rightarrow> ret confirmed)"

definition confirmedInboundTrc20 :: "TronNode \<Rightarrow> string \<Rightarrow> (ingest_db, app_error, ChainDeposit list) eff" where
  "confirmedInboundTrc20 node address =
     bind (fetchInboundTrc20 node address) (\<lambda>deposits.
       if deposits = [] then ret []
       else bind (solidifiedBlockNumber node) (\<lambda>solidified.
         for_each (confirm_deposit node solidified) deposits []))"

section \<open>Routing (chain-router.ts, build-router.ts)\<close>

definition EVM_CHAINS :: "string list" where
  "EVM_CHAINS = [''POLYGON'', ''BSC'', ''ARBITRUM'', ''BASE'', ''ETHEREUM'', ''AVALANCHE'', ''OPTIMISM'']"

text \<open>What \<open>buildRouter\<close> is given per chain: the TRON node if its URL is set, and for an EVM chain
  its node, confirmations and token contracts if its URL is set.\<close>

record chain_env =
  ce_keccak :: "string \<Rightarrow> string"
  ce_lookback :: nat
  ce_tron :: "TronNode option"
  ce_evm :: "string \<Rightarrow> (EvmRpc \<times> nat \<times> (string, string) jsmap) option"

text \<open>The plugins in the order they are registered.\<close>

definition chain_sources :: "chain_env \<Rightarrow> (string, inbound) jsmap" where
  "chain_sources env =
     (case ce_tron env of None \<Rightarrow> [] | Some node \<Rightarrow> [(''TRON'', \<lambda>_ address. confirmedInboundTrc20 node address)])
     @ List.map_filter (\<lambda>chain. case ce_evm env chain of
         None \<Rightarrow> None
       | Some (rpc, confirmations, tokens) \<Rightarrow> Some (chain, evm_fetchInbound (ce_keccak env) rpc
           \<lparr>ec_chain = chain, ec_confirmations = confirmations, ec_tokenContracts = tokens\<rparr> (ce_lookback env))) EVM_CHAINS"

definition router_fetchInbound :: "chain_env \<Rightarrow> inbound" where
  "router_fetchInbound env chain address =
     (case map_of (chain_sources env) (toUpperCase chain) of
        None \<Rightarrow> throw (AppError UNSUPPORTED_CHAIN (''Chain not supported: '' @ chain) True)
      | Some fetch \<Rightarrow> fetch chain address)"

section \<open>Sources touch nothing else\<close>

text \<open>\<open>reads_chain s s'\<close>: only the count of calls moved.\<close>

definition reads_chain :: "ingest_db \<Rightarrow> ingest_db \<Rightarrow> bool" where
  "reads_chain s s' \<longleftrightarrow> (\<exists>n. s' = s\<lparr>in_calls := n\<rparr>)"

lemma reads_chain_refl [simp]: "reads_chain s s"
  unfolding reads_chain_def by (rule exI [of _ "in_calls s"]) simp

lemma reads_chain_trans: "reads_chain s s' \<Longrightarrow> reads_chain s' s'' \<Longrightarrow> reads_chain s s''"
  by (auto simp: reads_chain_def)

lemma reads_chain_same:
  assumes "reads_chain s s'"
  shows "in_ledger s' = in_ledger s" "in_pool s' = in_pool s" "in_hooks s' = in_hooks s" "in_cursors s' = in_cursors s"
    "in_scans s' = in_scans s"
  using assms by (auto simp: reads_chain_def)

lemma rpc_call_reads: "rpc_call f s = (r, s') \<Longrightarrow> reads_chain s s'"
  by (auto simp: rpc_call_def reads_chain_def)

lemma blockNumber_reads:
  assumes "blockNumber rpc s = (r, s')"
  shows "reads_chain s s' \<and> (\<forall>head. r = Inr head \<longrightarrow> (\<exists>n hex. er_blockNumber rpc n = Inr hex \<and> fromQuantity (Some hex) = Inr head))"
  using assms by (auto simp: blockNumber_def bind_def rpc_call_def lift_def reads_chain_def split: sum.splits)

lemma bind_case: "bind m f s = (case m s of (Inl e, s1) \<Rightarrow> (Inl e, s1) | (Inr x, s1) \<Rightarrow> f x s1)"
  by (simp add: bind_def)

text \<open>Every outcome of a scan: it failed, found no final block left to read, or read one range up to the last final block.\<close>

lemma scan_cases:
  assumes "scanInboundErc20 keccak rpc cfg key address fb s = (r, s')"
  obtains (failed) e where "r = Inl e" "reads_chain s s'"
  | (idle) "r = Inr ([], fb - 1)" "reads_chain s s'"
  | (scanned) n hex head ds t logs m where "er_blockNumber rpc n = Inr hex" "fromQuantity (Some hex) = Inr head"
      "r = Inr (ds, head - int (ec_confirmations cfg))" "fb \<le> head - int (ec_confirmations cfg)"
      "er_getLogs rpc m (toQuantity fb) (toQuantity (head - int (ec_confirmations cfg)))
         [Some (TRANSFER_EVENT_TOPIC keccak), None, Some (addressTopic address)] = Inr logs"
      "parseDeposits keccak cfg logs = Inr ds"
      "reads_chain s t" "s' = t\<lparr>in_scans := in_scans s @ [(key, fb, head - int (ec_confirmations cfg))]\<rparr>"
proof -
  obtain rb s1 where b: "blockNumber rpc s = (rb, s1)" by fastforce
  note rb = blockNumber_reads [OF b]
  show thesis
  proof (cases rb)
    case (Inl e)
    with assms b rb show thesis by (intro failed [of e]) (simp_all add: scanInboundErc20_def bind_case)
  next
    case head: (Inr head)
    with rb obtain n hex where h: "er_blockNumber rpc n = Inr hex" "fromQuantity (Some hex) = Inr head" by blast
    let ?safe = "head - int (ec_confirmations cfg)"
    show thesis
    proof (cases "?safe < fb")
      case True
      with assms b head rb show thesis by (intro idle) (simp_all add: scanInboundErc20_def bind_case Let_def ret_def)
    next
      case False
      let ?f = "\<lambda>n. er_getLogs rpc n (toQuantity fb) (toQuantity ?safe)
        [Some (TRANSFER_EVENT_TOPIC keccak), None, Some (addressTopic address)]"
      obtain rl s2 where l: "rpc_call ?f s1 = (rl, s2)" by fastforce
      from rb rpc_call_reads [OF l] have r2: "reads_chain s s2" by (blast intro: reads_chain_trans)
      show thesis
      proof (cases rl)
        case (Inl e)
        with assms b head False l r2 show thesis by (intro failed [of e]) (simp_all add: scanInboundErc20_def bind_case Let_def)
      next
        case logs: (Inr logs)
        from l logs have gl: "?f (in_calls s1) = Inr logs" by (simp add: rpc_call_def)
        show thesis
        proof (cases "parseDeposits keccak cfg logs")
          case (Inl e)
          with assms b head False l logs r2 show thesis
            by (intro failed [of e]) (simp_all add: scanInboundErc20_def bind_case Let_def lift_def)
        next
          case (Inr ds)
          with assms b head False l logs have "r = Inr (ds, ?safe)" "s' = s2\<lparr>in_scans := in_scans s2 @ [(key, fb, ?safe)]\<rparr>"
            by (simp_all add: scanInboundErc20_def bind_case Let_def lift_def modify_def ret_def)
          with scanned [OF h _ _ gl Inr r2] False reads_chain_same [OF r2] show thesis by simp
        qed
      qed
    qed
  qed
qed

lemma start_block_run:
  assumes "start_block rpc lookback c a s = (r, s')"
  shows "reads_chain s s' \<and> (\<forall>fb. r = Inr fb \<longrightarrow> (case cursor_get c a s of Some cur \<Rightarrow> fb = cur | None \<Rightarrow> 0 \<le> fb))"
proof (cases "cursor_get c a s")
  case None
  obtain rb s1 where b: "blockNumber rpc s = (rb, s1)" by fastforce
  from blockNumber_reads [OF b] b None assms show ?thesis
    by (cases rb) (auto simp: start_block_def bind_case reads_def ret_def)
next
  case (Some cur)
  with assms show ?thesis by (auto simp: start_block_def bind_case reads_def ret_def)
qed

text \<open>Every outcome of a poll of an EVM address: nothing was read and the cursor stayed, or one range was read
  from the cursor on and the cursor moved behind it.\<close>

lemma evm_fetch_cases:
  assumes "evm_fetchInbound keccak rpc cfg lookback c a s = (r, s')"
  obtains (stayed) "reads_chain s s'" "\<forall>ds. r = Inr ds \<longrightarrow> ds = []"
  | (advanced) fb n hex head m logs ds t where "case cursor_get c a s of Some cur \<Rightarrow> fb = cur | None \<Rightarrow> 0 \<le> fb"
      "er_blockNumber rpc n = Inr hex" "fromQuantity (Some hex) = Inr head"
      "fb \<le> head - int (ec_confirmations cfg)"
      "er_getLogs rpc m (toQuantity fb) (toQuantity (head - int (ec_confirmations cfg)))
         [Some (TRANSFER_EVENT_TOPIC keccak), None, Some (addressTopic a)] = Inr logs"
      "parseDeposits keccak cfg logs = Inr ds" "r = Inr ds" "reads_chain s t"
      "s' = t\<lparr>in_scans := in_scans s @ [((c, a), fb, head - int (ec_confirmations cfg))],
        in_cursors := AList.update (c, a) (head - int (ec_confirmations cfg) + 1) (in_cursors s)\<rparr>"
proof -
  obtain r1 s1 where 1: "start_block rpc lookback c a s = (r1, s1)" by fastforce
  note st = start_block_run [OF 1]
  show thesis
  proof (cases r1)
    case (Inl e)
    with assms 1 st show thesis by (intro stayed) (auto simp: evm_fetchInbound_def bind_case)
  next
    case fb: (Inr fb)
    obtain r2 s2 where 2: "scanInboundErc20 keccak rpc cfg (c, a) a fb s1 = (r2, s2)" by fastforce
    have run: "evm_fetchInbound keccak rpc cfg lookback c a s = (case r2 of Inl e \<Rightarrow> (Inl e, s2) | Inr (ds, to) \<Rightarrow>
      (Inr ds, if to \<ge> fb then cursor_set c a (to + 1) s2 else s2))"
      using 1 fb 2 by (auto simp: evm_fetchInbound_def bind_case modify_def ret_def split: sum.splits)
    from 2 show thesis
    proof (cases rule: scan_cases)
      case (failed e)
      with run assms st show thesis by (intro stayed) (auto intro: reads_chain_trans)
    next
      case idle
      with run assms st show thesis by (intro stayed) (auto intro: reads_chain_trans)
    next
      case (scanned n hex head ds t logs m)
      from st scanned(7) have rt: "reads_chain s t" by (blast intro: reads_chain_trans)
      from st reads_chain_same have same: "in_scans s1 = in_scans s" by blast
      have "s' = t\<lparr>in_scans := in_scans s @ [((c, a), fb, head - int (ec_confirmations cfg))],
        in_cursors := AList.update (c, a) (head - int (ec_confirmations cfg) + 1) (in_cursors s)\<rparr>" "r = Inr ds"
        using run assms scanned(3,4,8) same reads_chain_same(4) [OF rt] by (simp_all add: cursor_set_def)
      with st fb scanned rt show thesis by (intro advanced) auto
    qed
  qed
qed

lemma log_deposit_chain: "log_deposit keccak cfg log symbol = Inr d \<Longrightarrow> cd_chain d = ec_chain cfg"
  by (auto simp: log_deposit_def rbind_Inr_iff)

lemma parseDeposits_chain: "parseDeposits keccak cfg logs = Inr ds \<Longrightarrow> d \<in> set ds \<Longrightarrow> cd_chain d = ec_chain cfg"
  by (induction logs arbitrary: ds) (auto simp: rbind_Inr_iff dest: log_deposit_chain split: option.splits)

lemma evm_source:
  assumes "nul \<notin> set (ec_chain cfg)"
  shows "deposit_source (evm_fetchInbound keccak rpc cfg lookback)"
proof (unfold_locales, goal_cases)
  case (1 c a s r s')
  then show ?case by (cases rule: evm_fetch_cases) (auto dest: reads_chain_same)
next
  case (2 c a s ds s' d)
  from 2(1) show ?case
  proof (cases rule: evm_fetch_cases)
    case stayed
    with 2(2) show ?thesis by auto
  next
    case (advanced fb n hex head m logs ds' t)
    with 2(2) parseDeposits_chain assms show ?thesis by auto
  qed
qed

lemma toDeposit_fields:
  assumes "toDeposit tx = Some d"
  shows "cd_chain d = ''TRON'' \<and> cd_txId d = tt_transaction_id tx \<and> cd_index d = 0"
  using assms by (auto simp: toDeposit_def split: if_splits)

text \<open>Confirming keeps order, drops what is not in a solidified block, and records the block.\<close>

lemma confirm_run:
  assumes "for_each (confirm_deposit node solidified) ds acc s = (r, s')"
  shows "reads_chain s s' \<and> (\<forall>out. r = Inr out \<longrightarrow> (\<exists>new. out = acc @ new
    \<and> (\<forall>x \<in> set new. \<exists>d \<in> set ds. \<exists>b n. x = d\<lparr>cd_blockNumber := Some b\<rparr> \<and> 0 < b \<and> b \<le> solidified
         \<and> tn_transactionBlock node n (cd_txId d) = Inr (Some b))))"
  using assms
proof (induction ds arbitrary: acc s)
  case Nil
  then show ?case by (auto simp: ret_def)
next
  case (Cons d ds)
  obtain rb s1 where b: "rpc_call (\<lambda>n. tn_transactionBlock node n (cd_txId d)) s = (rb, s1)" by fastforce
  from rpc_call_reads [OF b] have rd: "reads_chain s s1" .
  show ?case
  proof (cases rb)
    case (Inl e)
    with b have "confirm_deposit node solidified d acc s = (Inl e, s1)" by (simp add: bind_case confirm_deposit_def)
    with Cons.prems rd show ?thesis by (auto simp: bind_case)
  next
    case (Inr block)
    define acc' where "acc' = (case block of Some b \<Rightarrow> if b > 0 \<and> b \<le> solidified then acc @ [d\<lparr>cd_blockNumber := Some b\<rparr>] else acc
      | None \<Rightarrow> acc)"
    from b Inr have "confirm_deposit node solidified d acc s = (Inr acc', s1)"
      by (auto simp: bind_case confirm_deposit_def ret_def acc'_def split: option.splits)
    with Cons.prems have rest: "for_each (confirm_deposit node solidified) ds acc' s1 = (r, s')" by (simp add: bind_case)
    from b Inr have blk: "tn_transactionBlock node (in_calls s) (cd_txId d) = Inr block" by (simp add: rpc_call_def)
    note ih = Cons.IH [OF rest]
    have acc': "acc' = acc \<or> (\<exists>b. block = Some b \<and> 0 < b \<and> b \<le> solidified \<and> acc' = acc @ [d\<lparr>cd_blockNumber := Some b\<rparr>])"
      by (auto simp: acc'_def split: option.splits)
    have "\<exists>new. out = acc @ new
      \<and> (\<forall>x \<in> set new. \<exists>y \<in> set (d # ds). \<exists>b n. x = y\<lparr>cd_blockNumber := Some b\<rparr> \<and> 0 < b \<and> b \<le> solidified
         \<and> tn_transactionBlock node n (cd_txId y) = Inr (Some b))" if r: "r = Inr out" for out
    proof -
      from ih r obtain new where new: "out = acc' @ new" "\<forall>x \<in> set new. \<exists>y \<in> set ds. \<exists>b n. x = y\<lparr>cd_blockNumber := Some b\<rparr>
        \<and> 0 < b \<and> b \<le> solidified \<and> tn_transactionBlock node n (cd_txId y) = Inr (Some b)" by blast
      from acc' show ?thesis
      proof
        assume "acc' = acc"
        with new show ?thesis by (intro exI [of _ new]) auto
      next
        assume "\<exists>b. block = Some b \<and> 0 < b \<and> b \<le> solidified \<and> acc' = acc @ [d\<lparr>cd_blockNumber := Some b\<rparr>]"
        then obtain b where bb: "block = Some b" "0 < b" "b \<le> solidified" "acc' = acc @ [d\<lparr>cd_blockNumber := Some b\<rparr>]" by blast
        with new blk show ?thesis by (intro exI [of _ "d\<lparr>cd_blockNumber := Some b\<rparr> # new"]) fastforce
      qed
    qed
    with ih rd show ?thesis by (blast intro: reads_chain_trans)
  qed
qed

lemma tron_fetch_run:
  assumes "confirmedInboundTrc20 node a s = (r, s')"
  shows "reads_chain s s' \<and> (\<forall>out x. r = Inr out \<longrightarrow> x \<in> set out \<longrightarrow>
    (\<exists>m n k tx raw solid d b. tn_trc20 node m a = Inr raw \<and> tx \<in> set raw \<and> toDeposit tx = Some d \<and> x = d\<lparr>cd_blockNumber := Some b\<rparr>
      \<and> tn_solidified node k = Inr (Some solid) \<and> tn_transactionBlock node n (cd_txId d) = Inr (Some b) \<and> 0 < b \<and> b \<le> solid))"
proof -
  obtain rl s1 where l: "rpc_call (\<lambda>n. tn_trc20 node n a) s = (rl, s1)" by fastforce
  from rpc_call_reads [OF l] have r1: "reads_chain s s1" .
  show ?thesis
  proof (cases rl)
    case (Inl e)
    with assms l r1 show ?thesis by (auto simp: confirmedInboundTrc20_def fetchInboundTrc20_def bind_case)
  next
    case raw: (Inr raw)
    then have gl: "tn_trc20 node (in_calls s) a = Inr raw" using l by (simp add: rpc_call_def)
    show ?thesis
    proof (cases "parseTrc20Response raw")
      case (Inl e)
      with assms l raw r1 show ?thesis by (auto simp: confirmedInboundTrc20_def fetchInboundTrc20_def bind_case lift_def)
    next
      case ds: (Inr ds)
      then have from_raw: "\<exists>tx \<in> set raw. toDeposit tx = Some d" if "d \<in> set ds" for d
        using that by (fastforce simp: parseTrc20Response_def List.map_filter_def split: if_splits)
      show ?thesis
      proof (cases "ds = []")
        case True
        with assms l raw ds r1 show ?thesis
          by (auto simp: confirmedInboundTrc20_def fetchInboundTrc20_def bind_case lift_def ret_def)
      next
        case False
        obtain rs s2 where so: "rpc_call (tn_solidified node) s1 = (rs, s2)" by fastforce
        from r1 rpc_call_reads [OF so] have r2: "reads_chain s s2" by (blast intro: reads_chain_trans)
        show ?thesis
        proof (cases rs)
          case (Inl e)
          with assms l raw ds False so r2 show ?thesis
            by (auto simp: confirmedInboundTrc20_def fetchInboundTrc20_def solidifiedBlockNumber_def bind_case lift_def)
        next
          case solid: (Inr solid)
          then have sol: "tn_solidified node (in_calls s1) = Inr solid" using so by (simp add: rpc_call_def)
          from assms l raw ds False so solid
          have run: "for_each (confirm_deposit node (case solid of Some b \<Rightarrow> b | None \<Rightarrow> 0)) ds [] s2 = (r, s')"
            by (simp add: confirmedInboundTrc20_def fetchInboundTrc20_def solidifiedBlockNumber_def bind_case lift_def ret_def)
          note c = confirm_run [OF run]
          have "\<exists>m n k tx raw solid d b. tn_trc20 node m a = Inr raw \<and> tx \<in> set raw \<and> toDeposit tx = Some d \<and> x = d\<lparr>cd_blockNumber := Some b\<rparr>
            \<and> tn_solidified node k = Inr (Some solid) \<and> tn_transactionBlock node n (cd_txId d) = Inr (Some b) \<and> 0 < b \<and> b \<le> solid"
            if "r = Inr out" "x \<in> set out" for out x
          proof -
            from c that obtain d b n where x: "d \<in> set ds" "x = d\<lparr>cd_blockNumber := Some b\<rparr>" "0 < b"
              "b \<le> (case solid of Some b \<Rightarrow> b | None \<Rightarrow> 0)" "tn_transactionBlock node n (cd_txId d) = Inr (Some b)" by fastforce
            from x(3,4) obtain sb where sb: "solid = Some sb" "b \<le> sb" by (auto split: option.splits)
            from from_raw [OF x(1)] obtain tx where "tx \<in> set raw" "toDeposit tx = Some d" by blast
            with gl x sb sol show ?thesis by blast
          qed
          with c r2 show ?thesis by (blast intro: reads_chain_trans)
        qed
      qed
    qed
  qed
qed

lemma tron_source: "deposit_source (\<lambda>_ address. confirmedInboundTrc20 node address)"
proof (unfold_locales, goal_cases)
  case (1 c a s r s')
  then show ?case using tron_fetch_run reads_chain_same by blast
next
  case (2 c a s ds s' x)
  with tron_fetch_run [OF 2(1)] obtain tx d b where "toDeposit tx = Some d" "x = d\<lparr>cd_blockNumber := Some b\<rparr>" by blast
  then show ?case using toDeposit_fields by (simp add: nul_def)
qed

lemma chain_sources_ok:
  assumes "(c, fetch) \<in> set (chain_sources env)"
  shows "deposit_source fetch"
proof -
  have nul: "chain \<in> set EVM_CHAINS \<Longrightarrow> nul \<notin> set chain" for chain by (auto simp: EVM_CHAINS_def nul_def)
  from assms consider node where "fetch = (\<lambda>_ address. confirmedInboundTrc20 node address)"
    | rpc n ts where "c \<in> set EVM_CHAINS" "fetch = evm_fetchInbound (ce_keccak env) rpc
        \<lparr>ec_chain = c, ec_confirmations = n, ec_tokenContracts = ts\<rparr> (ce_lookback env)"
    by (auto simp: chain_sources_def List.map_filter_def split: option.splits)
  then show ?thesis
  proof cases
    case 1
    then show ?thesis using tron_source by simp
  next
    case 2
    then show ?thesis using evm_source nul by simp
  qed
qed

interpretation router: deposit_source "router_fetchInbound env" for env
proof (unfold_locales, goal_cases)
  case (1 c a s r s')
  then show ?case
    using deposit_source.fetch_frame [OF chain_sources_ok [OF map_of_SomeD]]
    by (auto simp: router_fetchInbound_def throw_def split: option.splits)
next
  case (2 c a s ds s' d)
  from 2(1) obtain fetch where f: "map_of (chain_sources env) (toUpperCase c) = Some fetch" "fetch c a s = (Inr ds, s')"
    by (auto simp: router_fetchInbound_def throw_def split: option.splits)
  from deposit_source.fetch_chain [OF chain_sources_ok [OF map_of_SomeD [OF f(1)]] f(2) 2(2)] show ?case .
qed

section \<open>Ranges read\<close>

text \<open>The ranges read for one cursor, and what it means that they follow each other.\<close>

definition ranges_of :: "string \<times> string \<Rightarrow> ingest_db \<Rightarrow> (int \<times> int) list" where
  "ranges_of key s = map snd (filter (\<lambda>x. fst x = key) (in_scans s))"

definition blocks_of :: "(int \<times> int) list \<Rightarrow> int list" where
  "blocks_of rs = concat (map (\<lambda>(a, b). [a..b]) rs)"

fun contiguous :: "(int \<times> int) list \<Rightarrow> bool" where
  "contiguous [] \<longleftrightarrow> True"
| "contiguous [(a, b)] \<longleftrightarrow> a \<le> b"
| "contiguous ((a, b) # (c, d) # rs) \<longleftrightarrow> a \<le> b \<and> c = b + 1 \<and> contiguous ((c, d) # rs)"

lemma contiguous_snoc:
  "contiguous (rs @ [(a, b)]) \<longleftrightarrow> a \<le> b \<and> contiguous rs \<and> (rs = [] \<or> a = snd (last rs) + 1)"
  by (induction rs rule: contiguous.induct) auto

lemma contiguous_le: "contiguous rs \<Longrightarrow> rs \<noteq> [] \<Longrightarrow> fst (hd rs) \<le> snd (last rs)"
  by (induction rs rule: contiguous.induct) fastforce+

lemma upto_join: "a \<le> b \<Longrightarrow> b \<le> c \<Longrightarrow> [a..b] @ [b + 1..c] = [a..c]"
  by (metis upto_split2 order_trans add.commute)

lemma contiguous_blocks: "contiguous rs \<Longrightarrow> rs \<noteq> [] \<Longrightarrow> blocks_of rs = [fst (hd rs)..snd (last rs)]"
proof (induction rs rule: contiguous.induct)
  case (3 a b c d rs)
  have "a \<le> b \<and> c = b + 1 \<and> contiguous ((c, d) # rs)" using 3(2) contiguous.simps(3) [of a b c d rs] by blast
  then have r: "a \<le> b" "c = b + 1" "contiguous ((c, d) # rs)" by blast+
  from 3(1) [OF r(3)] have "blocks_of ((a, b) # (c, d) # rs) = [a..b] @ [b + 1..snd (last ((c, d) # rs))]"
    by (simp add: blocks_of_def r(2))
  moreover have "b \<le> snd (last ((c, d) # rs))" using contiguous_le [OF r(3)] r(2) by simp
  ultimately have "blocks_of ((a, b) # (c, d) # rs) = [a..snd (last ((c, d) # rs))]" using upto_join [OF r(1)] by metis
  then show ?case by simp
qed (simp_all add: blocks_of_def)

text \<open>The cursor of a key is the block behind the last range read for it.\<close>

definition scans_ok :: "ingest_db \<Rightarrow> bool" where
  "scans_ok s \<longleftrightarrow> (\<forall>key. contiguous (ranges_of key s)
     \<and> map_of (in_cursors s) key = (if ranges_of key s = [] then None else Some (snd (last (ranges_of key s)) + 1)))"

lemma evm_fetch_scans_ok:
  assumes "evm_fetchInbound keccak rpc cfg lookback c a s = (r, s')" "scans_ok s"
  shows "scans_ok s'"
  using assms(1)
proof (cases rule: evm_fetch_cases)
  case stayed
  with assms(2) show ?thesis using reads_chain_same [OF stayed(1)] by (simp add: scans_ok_def ranges_of_def)
next
  case (advanced fb n hex head m logs ds t)
  let ?safe = "head - int (ec_confirmations cfg)"
  have rng: "ranges_of key s' = ranges_of key s @ (if key = (c, a) then [(fb, ?safe)] else [])" for key
    using advanced(9) by (simp add: ranges_of_def)
  have cur: "map_of (in_cursors s') key = (if key = (c, a) then Some (?safe + 1) else map_of (in_cursors s) key)" for key
    using advanced(9) by (simp add: update_conv')
  from assms(2) have ok: "contiguous (ranges_of (c, a) s)"
    "cursor_get c a s = (if ranges_of (c, a) s = [] then None else Some (snd (last (ranges_of (c, a) s)) + 1))"
    by (simp_all add: scans_ok_def cursor_get_def)
  from advanced(1) ok(2) have "ranges_of (c, a) s = [] \<or> fb = snd (last (ranges_of (c, a) s)) + 1" by (auto split: if_splits)
  with ok(1) advanced(4) have "contiguous (ranges_of (c, a) s @ [(fb, ?safe)])" by (simp add: contiguous_snoc)
  with assms(2) show ?thesis by (simp add: scans_ok_def rng cur)
qed

text \<open>Polls of any EVM chain and address, with whatever the nodes answer, in any order.\<close>

inductive polled :: "ingest_db \<Rightarrow> ingest_db \<Rightarrow> bool" where
  start: "polled s s"
| poll: "polled s s1 \<Longrightarrow> evm_fetchInbound keccak rpc cfg lookback c a s1 = (r, s2) \<Longrightarrow> polled s s2"

lemma polled_scans_ok: "polled s s' \<Longrightarrow> scans_ok s \<Longrightarrow> scans_ok s'"
  by (induction rule: polled.induct) (auto intro: evm_fetch_scans_ok)

section \<open>Properties\<close>

text \<open>C29. No block is skipped and none read twice: after any polls of EVM addresses, with failures of
  the nodes in between, the ranges read for an address list the blocks from the first one read
  to the one before its cursor, each exactly once and in order.\<close>

theorem scans_read_every_block_once:
  assumes "polled s s'" and "in_scans s = []" and "in_cursors s = []"
  shows "case cursor_get c a s' of
      None \<Rightarrow> ranges_of (c, a) s' = []
    | Some next_block \<Rightarrow> ranges_of (c, a) s' \<noteq> [] \<and> blocks_of (ranges_of (c, a) s') = [fst (hd (ranges_of (c, a) s'))..next_block - 1]"
proof -
  from assms(2,3) have "scans_ok s" by (simp add: scans_ok_def ranges_of_def)
  with polled_scans_ok [OF assms(1)] have ok: "contiguous (ranges_of (c, a) s')"
    "cursor_get c a s' = (if ranges_of (c, a) s' = [] then None else Some (snd (last (ranges_of (c, a) s')) + 1))"
    by (simp_all add: scans_ok_def cursor_get_def)
  with contiguous_blocks [OF ok(1)] show ?thesis by simp
qed

definition ex_kc :: "string \<Rightarrow> string" where
  "ex_kc x = replicate 64 (CHR ''0'')"

definition ex_head :: "string \<Rightarrow> EvmLog list \<Rightarrow> EvmRpc" where
  "ex_head h logs = \<lparr>er_blockNumber = (\<lambda>_. Inr h), er_getLogs = (\<lambda>_ _ _ _. Inr logs)\<rparr>"

definition ex_ecfg :: EvmAdapterConfig where
  "ex_ecfg = \<lparr>ec_chain = ''BASE'', ec_confirmations = 4, ec_tokenContracts = [(''USDT'', ''0x'' @ replicate 40 (CHR ''A''))]\<rparr>"

definition ex_poll :: "string \<Rightarrow> ingest_db \<Rightarrow> ingest_db" where
  "ex_poll h s = snd (evm_fetchInbound ex_kc (ex_head h []) ex_ecfg 20 ''BASE'' ''0xA'' s)"

lemma ex_poll_polled: "polled ex_in s \<Longrightarrow> polled ex_in (ex_poll h s)"
  unfolding ex_poll_def by (rule polled.poll [OF _ prod.collapse [symmetric]])

theorem scans_read_every_block_once_witness:
  "ranges_of (''BASE'', ''0xA'') (ex_poll ''0x14'' (ex_poll ''0x10'' (ex_poll ''0x4'' ex_in))) = [(0, 0), (1, 12), (13, 16)]
   \<and> blocks_of (ranges_of (''BASE'', ''0xA'') (ex_poll ''0x14'' (ex_poll ''0x10'' (ex_poll ''0x4'' ex_in)))) = [0..16]"
proof -
  let ?s = "ex_poll ''0x14'' (ex_poll ''0x10'' (ex_poll ''0x4'' ex_in))"
  have "polled ex_in ?s" by (intro ex_poll_polled polled.start)
  from scans_read_every_block_once [OF this, of "''BASE''" "''0xA''"]
  have 1: "case cursor_get ''BASE'' ''0xA'' ?s of None \<Rightarrow> ranges_of (''BASE'', ''0xA'') ?s = []
    | Some n \<Rightarrow> ranges_of (''BASE'', ''0xA'') ?s \<noteq> [] \<and> blocks_of (ranges_of (''BASE'', ''0xA'') ?s) = [fst (hd (ranges_of (''BASE'', ''0xA'') ?s))..n - 1]"
    by (simp add: ex_in_def)
  have 2: "ranges_of (''BASE'', ''0xA'') ?s = [(0, 0), (1, 12), (13, 16)]" by code_simp
  have 3: "cursor_get ''BASE'' ''0xA'' ?s = Some 17" by code_simp
  from 1 have "blocks_of (ranges_of (''BASE'', ''0xA'') ?s) = [0..16]" unfolding 3 2 by simp
  with 2 show ?thesis by blast
qed

text \<open>Only final blocks are read, and only what the node logged for them: when a poll of an EVM
  address returns deposits, they are the transfers in the node's answer to one query, whose
  range starts at the cursor (or at a block from 0 on, when there is none) and ends exactly
  the configured number of confirmations below the head the node reported.\<close>

theorem deposits_only_from_final_blocks:
  assumes "evm_fetchInbound keccak rpc cfg lookback c a s = (Inr ds, s')" and "ds \<noteq> []"
  shows "\<exists>fb head n hex m logs. er_blockNumber rpc n = Inr hex \<and> fromQuantity (Some hex) = Inr head
    \<and> (case cursor_get c a s of Some cur \<Rightarrow> fb = cur | None \<Rightarrow> 0 \<le> fb) \<and> fb \<le> head - int (ec_confirmations cfg)
    \<and> er_getLogs rpc m (toQuantity fb) (toQuantity (head - int (ec_confirmations cfg)))
        [Some (TRANSFER_EVENT_TOPIC keccak), None, Some (addressTopic a)] = Inr logs
    \<and> parseDeposits keccak cfg logs = Inr ds \<and> cursor_get c a s' = Some (head - int (ec_confirmations cfg) + 1)"
  using assms(1)
proof (cases rule: evm_fetch_cases)
  case stayed
  with assms(2) show ?thesis by simp
next
  case (advanced fb n hex head m logs ds' t)
  have "cursor_get c a s' = Some (head - int (ec_confirmations cfg) + 1)"
    using advanced(9) by (simp add: cursor_get_def update_conv')
  with advanced show ?thesis by blast
qed

definition ex_log :: EvmLog where
  "ex_log = \<lparr>el_address = ''0x'' @ replicate 40 (CHR ''a''), el_topics = [''0x'' @ replicate 64 (CHR ''0''),
     replicate 40 (CHR ''1''), replicate 40 (CHR ''2'')], el_data = ''0xff'', el_blockNumber = ''0x3'', el_transactionHash = ''0x9'',
     el_logIndex = ''0x1''\<rparr>"

theorem deposits_only_from_final_blocks_witness:
  "\<exists>head n hex. er_blockNumber (ex_head ''0x10'' [ex_log]) n = Inr hex \<and> fromQuantity (Some hex) = Inr head
     \<and> cursor_get ''BASE'' ''0xA'' (snd (evm_fetchInbound ex_kc (ex_head ''0x10'' [ex_log]) ex_ecfg 20 ''BASE'' ''0xA'' ex_in)) = Some (head - 4 + 1)"
proof -
  let ?run = "evm_fetchInbound ex_kc (ex_head ''0x10'' [ex_log]) ex_ecfg 20 ''BASE'' ''0xA'' ex_in"
  have "map_sum (\<lambda>_. ()) (map cd_amountBaseUnits) (fst ?run) = Inr [255]" by code_simp
  then obtain ds where ds: "fst ?run = Inr ds" "ds \<noteq> []" by (cases "fst ?run") auto
  then have "?run = (Inr ds, snd ?run)" by (metis prod.collapse)
  from deposits_only_from_final_blocks [OF this ds(2)]
  have "\<exists>head n hex. er_blockNumber (ex_head ''0x10'' [ex_log]) n = Inr hex \<and> fromQuantity (Some hex) = Inr head
     \<and> cursor_get ''BASE'' ''0xA'' (snd ?run) = Some (head - int (ec_confirmations ex_ecfg) + 1)" by blast
  then show ?thesis by (simp add: ex_ecfg_def)
qed

text \<open>A TRON deposit is taken only from a solidified block: every deposit the TRON source returns
  is a transfer of the node's list for the address, and the block the node names for its
  transaction is positive and not above the solidified one it reported.\<close>

theorem tron_deposits_solidified:
  assumes "confirmedInboundTrc20 node a s = (Inr out, s')" and "x \<in> set out"
  shows "\<exists>m n k tx raw solid d b. tn_trc20 node m a = Inr raw \<and> tx \<in> set raw \<and> toDeposit tx = Some d \<and> x = d\<lparr>cd_blockNumber := Some b\<rparr>
    \<and> tn_solidified node k = Inr (Some solid) \<and> tn_transactionBlock node n (cd_txId d) = Inr (Some b) \<and> 0 < b \<and> b \<le> solid"
  using tron_fetch_run [OF assms(1)] assms(2) by blast

definition ex_tt :: "string \<Rightarrow> string \<Rightarrow> string \<Rightarrow> Trc20Tx" where
  "ex_tt i to v = \<lparr>tt_transaction_id = i, tt_from = ''TX'', tt_to = to, tt_type = ''Transfer'', tt_value = v, tt_symbol = ''usdt'', tt_address = ''TC''\<rparr>"

definition ex_node :: "Trc20Tx list \<Rightarrow> TronNode" where
  "ex_node txs = \<lparr>tn_trc20 = (\<lambda>_ _. Inr txs), tn_solidified = (\<lambda>_. Inr (Some 50)),
     tn_transactionBlock = (\<lambda>_ i. Inr (if i = ''late'' then Some 60 else Some 40))\<rparr>"

theorem tron_deposits_solidified_witness:
  "map_sum (\<lambda>_. ()) (map cd_txId) (fst (confirmedInboundTrc20 (ex_node [ex_tt ''late'' ''A'' ''5'', ex_tt ''x'' ''A'' ''7'']) ''A'' ex_in)) = Inr [''x'']
   \<and> (\<exists>k solid. tn_solidified (ex_node [ex_tt ''late'' ''A'' ''5'', ex_tt ''x'' ''A'' ''7'']) k = Inr (Some solid) \<and> 0 < solid)"
proof -
  let ?node = "ex_node [ex_tt ''late'' ''A'' ''5'', ex_tt ''x'' ''A'' ''7'']"
  let ?run = "confirmedInboundTrc20 ?node ''A'' ex_in"
  have m: "map_sum (\<lambda>_. ()) (map cd_txId) (fst ?run) = Inr [''x'']" by code_simp
  then obtain x xs where "fst ?run = Inr (x # xs)" by (cases "fst ?run") auto
  then have "?run = (Inr (x # xs), snd ?run)" by (metis prod.collapse)
  from tron_deposits_solidified [OF this list.set_intros(1)]
  have "\<exists>k solid. tn_solidified ?node k = Inr (Some solid) \<and> 0 < solid" by (meson less_le_trans)
  with m show ?thesis by blast
qed

text \<open>Every deposit of a TRON transaction gets index 0: a second transfer of the same transaction
  to a pool address is taken for a duplicate of the first, and is not credited.\<close>

lemma tron_second_transfer_lost:
  "let d1 = the (toDeposit (ex_tt ''x'' ''0xA'' ''7'')); d2 = the (toDeposit (ex_tt ''x'' ''0xA'' ''9''));
       s = ex_in\<lparr>in_pool := map (pa_chain_update (\<lambda>_. ''TRON'')) (in_pool ex_in)\<rparr>;
       (rs, s') = ingest_all ex_ig [(1, d1), (1, d2)] s
   in rs = [Inr (Credited, ''TRON:x:0''), Inr (Duplicate, ''TRON:x:0'')]
      \<and> sql_balance ''pool_addr:TRON:m'' ''USDT'' (in_ledger s') = 7"
  by code_simp

end
