(* ===== verification/Shamir.thy ===== *)
theory Shamir
  imports App_Errors
begin

text \<open>
  Secret sharing (\<open>src/mpc/shamir.ts\<close>): arithmetic modulo the group order, polynomial evaluation,
  splitting, combining and refreshing shares.

  The order \<open>n\<close> of secp256k1 comes from \<open>@noble/curves\<close> and is a parameter; where it matters that
  it is prime, this is the hypothesis \<open>group_order n\<close>. Random scalars are a parameter too, as
  the list of the values drawn.
\<close>

section \<open>Arithmetic\<close>

text \<open>\<open>/\<close> and \<open>%\<close> on \<open>bigint\<close> truncate towards zero.\<close>

definition js_quot :: "int \<Rightarrow> int \<Rightarrow> int" where
  "js_quot a b = sgn a * sgn b * (\<bar>a\<bar> div \<bar>b\<bar>)"

definition js_rem :: "int \<Rightarrow> int \<Rightarrow> int" where
  "js_rem a b = sgn a * (\<bar>a\<bar> mod \<bar>b\<bar>)"

definition mod_n :: "int \<Rightarrow> int \<Rightarrow> int" where
  "mod_n a n = (let r = js_rem a n in if r \<ge> 0 then r else r + n)"

text \<open>The loop of \<open>invMod\<close>; \<open>None\<close> is that it does not end.\<close>

partial_function (option) euclid_loop :: "int \<Rightarrow> int \<Rightarrow> int \<Rightarrow> int \<Rightarrow> (int \<times> int) option" where
  "euclid_loop oldR r oldS s =
     (if r = 0 then Some (oldR, oldS)
      else let q = js_quot oldR r in euclid_loop r (oldR - q * r) s (oldS - q * s))"

declare euclid_loop.simps [code]

definition invMod :: "int \<Rightarrow> int \<Rightarrow> (app_error + int) option" where
  "invMod a n =
     map_option (\<lambda>(oldR, oldS). if oldR \<noteq> 1 then Inl (JsError ''value is not invertible mod n'') else Inr (mod_n oldS n))
       (euclid_loop (mod_n a n) n 1 0)"

section \<open>Shares\<close>

record Share =
  sh_x :: int
  sh_y :: int

text \<open>From the last coefficient to the first.\<close>

definition evalPoly :: "int \<Rightarrow> int list \<Rightarrow> int \<Rightarrow> int" where
  "evalPoly n coeffs x = foldr (\<lambda>c acc. mod_n (acc * x + c) n) coeffs 0"

text \<open>\<open>rnd\<close> are the \<open>t - 1\<close> values of \<open>randomScalar\<close>.\<close>

definition split_secret :: "int \<Rightarrow> int list \<Rightarrow> int \<Rightarrow> int \<Rightarrow> int \<Rightarrow> app_error + Share list" where
  "split_secret n rnd secret t m =
     (if t < 1 \<or> t > m then Inl (JsError (''invalid threshold '' @ show_int t @ '' of '' @ show_int m))
      else let coeffs = mod_n secret n # rnd
        in Inr (map (\<lambda>i. \<lparr>sh_x = int i + 1, sh_y = evalPoly n coeffs (int i + 1)\<rparr>) [0..<nat m]))"

fun lagrange_loop :: "int \<Rightarrow> int \<Rightarrow> int \<times> int \<Rightarrow> Share list \<Rightarrow> int \<times> int" where
  "lagrange_loop n xi (num, den) [] = (num, den)"
| "lagrange_loop n xi (num, den) (s # shares) =
     (if sh_x s = xi then lagrange_loop n xi (num, den) shares
      else lagrange_loop n xi (mod_n (num * mod_n (- sh_x s) n) n, mod_n (den * mod_n (xi - sh_x s) n) n) shares)"

fun combine_loop :: "int \<Rightarrow> Share list \<Rightarrow> int \<Rightarrow> Share list \<Rightarrow> (app_error + int) option" where
  "combine_loop n shares secret [] = Some (Inr secret)"
| "combine_loop n shares secret (s # rest) =
     (case lagrange_loop n (sh_x s) (1, 1) shares of (num, den) \<Rightarrow>
        case invMod den n of
          None \<Rightarrow> None
        | Some (Inl e) \<Rightarrow> Some (Inl e)
        | Some (Inr iv) \<Rightarrow> let lagrange = mod_n (num * iv) n in
            combine_loop n shares (mod_n (secret + mod_n (sh_y s * lagrange) n) n) rest)"

definition combine :: "int \<Rightarrow> Share list \<Rightarrow> (app_error + int) option" where
  "combine n shares = combine_loop n shares 0 shares"

definition refresh_shares :: "int \<Rightarrow> int list \<Rightarrow> Share list \<Rightarrow> Share list" where
  "refresh_shares n rnd shares =
     (let zeroPoly = 0 # rnd in map (\<lambda>s. \<lparr>sh_x = sh_x s, sh_y = mod_n (sh_y s + evalPoly n zeroPoly (sh_x s)) n\<rparr>) shares)"

section \<open>The arithmetic is that of the integers modulo n\<close>

lemma js_quot_pos: "0 \<le> a \<Longrightarrow> 0 < b \<Longrightarrow> js_quot a b = a div b"
  by (auto simp: js_quot_def sgn_if)

lemma mod_n_mod [simp]:
  assumes "0 < n"
  shows "mod_n a n = a mod n"
proof -
  obtain m where m: "\<bar>a\<bar> mod n = m" "0 \<le> m" "m < n" using assms by simp
  then have "js_rem a n = sgn a * m" using assms by (simp add: js_rem_def)
  with m assms have range: "js_rem a n \<ge> 0 \<or> (js_rem a n > - n \<and> js_rem a n < 0)" and lt: "js_rem a n < n"
    by (auto simp: sgn_if)
  have "js_rem a n mod n = a mod n"
  proof (cases "0 \<le> a")
    case True
    with assms show ?thesis by (auto simp: js_rem_def sgn_if)
  next
    case False
    with assms have "js_rem a n = - ((- a) mod n)" by (simp add: js_rem_def)
    then show ?thesis by (simp add: mod_minus_eq)
  qed
  then have "mod_n a n mod n = a mod n" by (auto simp: mod_n_def Let_def)
  moreover have "mod_n a n mod n = mod_n a n" using range lt by (intro mod_pos_pos_trivial) (auto simp: mod_n_def Let_def)
  ultimately show ?thesis by simp
qed

section \<open>The extended Euclidean loop ends, with the greatest common divisor\<close>

lemma euclid_loop_ends:
  assumes "0 \<le> r" "0 \<le> oldR" "n dvd oldS * a - oldR" "n dvd s * a - r"
  shows "\<exists>x. euclid_loop oldR r oldS s = Some (gcd oldR r, x) \<and> n dvd x * a - gcd oldR r"
  using assms
proof (induction "nat r" arbitrary: oldR r oldS s rule: less_induct)
  case less
  show ?case
  proof (cases "r = 0")
    case True
    with less.prems show ?thesis by (subst euclid_loop.simps) simp
  next
    case False
    with less.prems(1) have r: "0 < r" by simp
    let ?q = "oldR div r"
    have m: "oldR - ?q * r = oldR mod r" by (simp add: minus_div_mult_eq_mod)
    have lt: "nat (oldR mod r) < nat r" using r by simp
    have d: "n dvd (oldS - ?q * s) * a - oldR mod r"
    proof -
      have "(oldS - ?q * s) * a - oldR mod r = (oldS * a - oldR) - ?q * (s * a - r)"
        unfolding m [symmetric] by (simp add: algebra_simps)
      with less.prems(3,4) show ?thesis by simp
    qed
    from less.hyps [OF lt _ _ less.prems(4) d] r
    obtain x where x: "euclid_loop r (oldR mod r) s (oldS - ?q * s) = Some (gcd r (oldR mod r), x)"
      "n dvd x * a - gcd r (oldR mod r)" by auto
    have "gcd r (oldR mod r) = gcd oldR r" by (metis gcd.commute gcd_red_int)
    with x r show ?thesis
      by (subst euclid_loop.simps) (simp add: js_quot_pos [OF less.prems(2) r] m Let_def)
  qed
qed

text \<open>\<open>invMod\<close> always returns: the inverse when there is one, and the error otherwise.\<close>

lemma invMod_spec:
  assumes "0 < n"
  shows "if gcd a n = 1 then \<exists>x. invMod a n = Some (Inr x) \<and> 0 \<le> x \<and> x < n \<and> n dvd a * x - 1
    else invMod a n = Some (Inl (JsError ''value is not invertible mod n''))"
proof -
  have "n dvd 1 * a - a mod n" by (simp add: mod_eq_dvd_iff [symmetric])
  moreover have "n dvd 0 * a - n" by simp
  ultimately obtain x where x: "euclid_loop (a mod n) n 1 0 = Some (gcd (a mod n) n, x)" "n dvd x * a - gcd (a mod n) n"
    using euclid_loop_ends [of n "a mod n" n 1 a 0] assms by auto
  have g: "gcd (a mod n) n = gcd a n" by (metis gcd.commute gcd_red_int)
  have "n dvd a * (x mod n) - 1" if "gcd a n = 1"
  proof -
    have "n dvd x * a - 1" using x(2) g that by simp
    moreover have "n dvd a * (x - x mod n)" by (simp add: minus_mod_eq_mult_div)
    moreover have "a * (x mod n) - 1 = (x * a - 1) - a * (x - x mod n)" by (simp add: algebra_simps)
    ultimately show ?thesis by (metis dvd_diff)
  qed
  with x(1) g assms show ?thesis by (simp add: invMod_def)
qed

section \<open>Congruences\<close>

definition ceq :: "int \<Rightarrow> int \<Rightarrow> int \<Rightarrow> bool" where
  "ceq n a b \<longleftrightarrow> n dvd a - b"

lemma ceq_refl [simp]: "ceq n a a"
  by (simp add: ceq_def)

lemma ceq_sym: "ceq n a b \<Longrightarrow> ceq n b a"
  by (simp add: ceq_def dvd_diff_commute)

lemma ceq_trans [trans]:
  assumes "ceq n a b" "ceq n b c"
  shows "ceq n a c"
proof -
  have "a - c = (a - b) + (b - c)" by simp
  with assms show ?thesis unfolding ceq_def by (metis dvd_add)
qed

lemma ceq_add: "ceq n a b \<Longrightarrow> ceq n c d \<Longrightarrow> ceq n (a + c) (b + d)"
  unfolding ceq_def using dvd_add [of n "a - b" "c - d"] by (simp add: algebra_simps)

lemma ceq_diff: "ceq n a b \<Longrightarrow> ceq n c d \<Longrightarrow> ceq n (a - c) (b - d)"
  unfolding ceq_def using dvd_diff [of n "a - b" "c - d"] by (simp add: algebra_simps)

lemma ceq_mult:
  assumes "ceq n a b" "ceq n c d"
  shows "ceq n (a * c) (b * d)"
proof -
  have "a * c - b * d = (a - b) * c + b * (c - d)" by (simp add: algebra_simps)
  with assms show ?thesis unfolding ceq_def by (metis dvd_add dvd_mult dvd_mult2)
qed

lemma ceq_sum: "(\<And>x. x \<in> A \<Longrightarrow> ceq n (f x) (g x)) \<Longrightarrow> ceq n (sum f A) (sum g A)"
  by (simp add: ceq_def sum_subtractf [symmetric] dvd_sum)

lemma ceq_prod: "(\<And>x. x \<in> A \<Longrightarrow> ceq n (f x) (g x)) \<Longrightarrow> ceq n (prod f A) (prod g A)"
  by (induction A rule: infinite_finite_induct) (auto intro: ceq_mult)

lemma ceq_mod [simp]: "ceq n (a mod n) b \<longleftrightarrow> ceq n a b" "ceq n a (b mod n) \<longleftrightarrow> ceq n a b"
  by (simp_all add: ceq_def mod_eq_dvd_iff [symmetric])

lemma ceq_mod_eq: "ceq n a b \<longleftrightarrow> a mod n = b mod n"
  by (simp add: ceq_def mod_eq_dvd_iff)

lemma ceq_mulmod: "ceq n (a * (b mod n) mod n) (a * b)"
  by (simp add: ceq_mult)

text \<open>Every number below a prime order is invertible; this is all that is used of its primality.\<close>

definition group_order :: "int \<Rightarrow> bool" where
  "group_order n \<longleftrightarrow> 1 < n \<and> (\<forall>a. 0 < a \<longrightarrow> a < n \<longrightarrow> gcd a n = 1)"

lemma group_order_pos: "group_order n \<Longrightarrow> 0 < n"
  by (simp add: group_order_def)

lemma group_order_gcd:
  assumes "group_order n" "\<not> ceq n d 0"
  shows "gcd d n = 1"
proof -
  have n: "0 < n" using assms(1) by (rule group_order_pos)
  from assms(2) have "d mod n \<noteq> 0" by (simp add: ceq_mod_eq)
  with pos_mod_sign [OF n, of d] have "0 < d mod n" by linarith
  moreover have "d mod n < n" using n by simp
  ultimately have "gcd (d mod n) n = 1" using assms(1) by (simp add: group_order_def)
  then show ?thesis by (metis gcd.commute gcd_red_int)
qed

lemma group_order_inverse:
  assumes "group_order n" "\<not> ceq n d 0"
  obtains i where "invMod d n = Some (Inr i)" "ceq n (d * i) 1"
  using invMod_spec [OF group_order_pos [OF assms(1)], of d] group_order_gcd [OF assms] by (auto simp: ceq_def)

lemma ceq_cancel:
  assumes "group_order n" "\<not> ceq n d 0" "ceq n (d * a) (d * b)"
  shows "ceq n a b"
proof -
  from group_order_inverse [OF assms(1,2)] obtain i where i: "ceq n (d * i) 1" .
  have "ceq n a (d * i * a)" using ceq_sym [OF ceq_mult [OF i ceq_refl, of a]] by simp
  also have "ceq n (d * i * a) (d * i * b)"
    using ceq_mult [OF ceq_refl assms(3), of i] by (simp add: algebra_simps)
  also have "ceq n (d * i * b) b" using ceq_mult [OF i ceq_refl, of b] by simp
  finally show ?thesis .
qed

lemma ceq_prod_nonzero:
  assumes "group_order n" "finite A" "\<And>x. x \<in> A \<Longrightarrow> \<not> ceq n (f x) 0"
  shows "\<not> ceq n (prod f A) 0"
  using assms(2,3)
proof (induction A)
  case empty
  from assms(1) have "1 mod n = 1" "0 mod n = 0" by (simp_all add: group_order_def)
  then show ?case by (simp add: ceq_mod_eq)
next
  case (insert x A)
  show ?case
  proof
    assume "ceq n (prod f (insert x A)) 0"
    then have "ceq n (f x * prod f A) (f x * 0)" using insert.hyps by simp
    with ceq_cancel [OF assms(1)] insert show False by blast
  qed
qed

section \<open>Interpolation at zero\<close>

text \<open>\<open>lagrange_of n X L\<close>: \<open>L\<close> are the Lagrange coefficients at zero of the points \<open>X\<close>, which are distinct modulo \<open>n\<close>.\<close>

definition lagrange_of :: "int \<Rightarrow> int set \<Rightarrow> (int \<Rightarrow> int) \<Rightarrow> bool" where
  "lagrange_of n X L \<longleftrightarrow> (\<forall>x \<in> X. ceq n (L x * (\<Prod>y \<in> X - {x}. x - y)) (\<Prod>y \<in> X - {x}. - y))"

definition apart :: "int \<Rightarrow> int set \<Rightarrow> bool" where
  "apart n X \<longleftrightarrow> finite X \<and> (\<forall>x \<in> X. \<forall>y \<in> X. x \<noteq> y \<longrightarrow> \<not> ceq n (x - y) 0)"

lemma apart_Diff: "apart n X \<Longrightarrow> apart n (X - {a})"
  by (auto simp: apart_def)

lemma lagrange_exists:
  assumes "group_order n" "apart n X"
  shows "\<exists>L. lagrange_of n X L"
proof -
  have "\<exists>l. ceq n (l * (\<Prod>y \<in> X - {x}. x - y)) (\<Prod>y \<in> X - {x}. - y)" if x: "x \<in> X" for x
  proof -
    have "\<not> ceq n (\<Prod>y \<in> X - {x}. x - y) 0"
      using assms x by (intro ceq_prod_nonzero) (auto simp: apart_def)
    from group_order_inverse [OF assms(1) this] obtain i where i: "ceq n ((\<Prod>y \<in> X - {x}. x - y) * i) 1" .
    have "ceq n ((\<Prod>y \<in> X - {x}. - y) * i * (\<Prod>y \<in> X - {x}. x - y)) (\<Prod>y \<in> X - {x}. - y)"
      using ceq_mult [OF ceq_refl i, of "\<Prod>y \<in> X - {x}. - y"] by (simp add: algebra_simps)
    then show ?thesis by blast
  qed
  then show ?thesis unfolding lagrange_of_def by metis
qed

text \<open>Leaving a point out of the set.\<close>

lemma lagrange_drop:
  assumes "group_order n" "apart n X" "a \<in> X" "x \<in> X" "x \<noteq> a"
    and "lagrange_of n X L" "lagrange_of n (X - {a}) M"
  shows "ceq n ((a - x) * L x) (a * M x)"
proof -
  let ?Y = "X - {x} - {a}"
  let ?d = "\<Prod>y \<in> ?Y. x - y" and ?m = "\<Prod>y \<in> ?Y. - y"
  have fin: "finite X" using assms(2) by (simp add: apart_def)
  have ins: "X - {a} - {x} = ?Y" by auto
  have rem: "prod f (X - {x}) = f a * prod f ?Y" for f :: "int \<Rightarrow> int"
    using prod.remove [of "X - {x}" a f] fin assms(3,5) by simp
  from assms(6,4) have "ceq n (L x * (\<Prod>y \<in> X - {x}. x - y)) (\<Prod>y \<in> X - {x}. - y)" by (simp add: lagrange_of_def)
  then have 1: "ceq n (L x * ((x - a) * ?d)) ((- a) * ?m)" unfolding rem .
  from assms(7,4,5) have "ceq n (M x * (\<Prod>y \<in> X - {a} - {x}. x - y)) (\<Prod>y \<in> X - {a} - {x}. - y)" by (simp add: lagrange_of_def)
  then have 2: "ceq n (M x * ?d) ?m" unfolding ins .
  have nz: "\<not> ceq n ?d 0" using assms fin by (intro ceq_prod_nonzero) (auto simp: apart_def)
  have "?d * ((a - x) * L x) = - (L x * ((x - a) * ?d))" by (simp add: algebra_simps)
  also have "ceq n (- (L x * ((x - a) * ?d))) (- ((- a) * ?m))"
    using ceq_mult [OF ceq_refl 1, of "- 1"] by simp
  also have "ceq n (- ((- a) * ?m)) (a * (M x * ?d))" using ceq_mult [OF ceq_refl ceq_sym [OF 2], of a] by simp
  also have "a * (M x * ?d) = ?d * (a * M x)" by (simp add: algebra_simps)
  finally show ?thesis by (rule ceq_cancel [OF assms(1) nz])
qed

lemma lagrange_step:
  assumes "group_order n" "apart n X" "a \<in> X" "lagrange_of n X L" "lagrange_of n (X - {a}) M"
  shows "ceq n (\<Sum>x \<in> X. x ^ Suc k * L x) (a * ((\<Sum>x \<in> X. x ^ k * L x) - (\<Sum>x \<in> X - {a}. x ^ k * M x)))"
proof -
  have fin: "finite X" using assms(2) by (simp add: apart_def)
  have "ceq n (\<Sum>x \<in> X - {a}. x ^ k * ((a - x) * L x)) (\<Sum>x \<in> X - {a}. x ^ k * (a * M x))"
    by (rule ceq_sum, rule ceq_mult [OF ceq_refl]) (use lagrange_drop [OF assms(1-3) _ _ assms(4,5)] in auto)
  moreover have "(\<Sum>x \<in> X. x ^ k * ((a - x) * L x)) = (\<Sum>x \<in> X - {a}. x ^ k * ((a - x) * L x))"
    using sum.remove [OF fin assms(3), of "\<lambda>x. x ^ k * ((a - x) * L x)"] by simp
  moreover have "(\<Sum>x \<in> X. x ^ k * ((a - x) * L x)) = a * (\<Sum>x \<in> X. x ^ k * L x) - (\<Sum>x \<in> X. x ^ Suc k * L x)"
    by (simp add: sum_distrib_left sum_subtractf [symmetric] algebra_simps)
  moreover have "(\<Sum>x \<in> X - {a}. x ^ k * (a * M x)) = a * (\<Sum>x \<in> X - {a}. x ^ k * M x)"
    by (simp add: sum_distrib_left algebra_simps)
  ultimately have "ceq n (a * (\<Sum>x \<in> X. x ^ k * L x) - (\<Sum>x \<in> X. x ^ Suc k * L x)) (a * (\<Sum>x \<in> X - {a}. x ^ k * M x))"
    by simp
  from ceq_diff [OF ceq_refl this, of "a * (\<Sum>x \<in> X. x ^ k * L x)"] show ?thesis by (simp add: right_diff_distrib)
qed

lemma lagrange_zero:
  assumes "group_order n" "apart n X" "X \<noteq> {}" "lagrange_of n X L"
  shows "ceq n (\<Sum>x \<in> X. L x) 1"
  using assms(2-4)
proof (induction "card X" arbitrary: X L rule: less_induct)
  case less
  have fin: "finite X" using less.prems(1) by (simp add: apart_def)
  obtain a where a: "a \<in> X" using less.prems(2) by blast
  show ?case
  proof (cases "X = {a}")
    case True
    with less.prems(3) show ?thesis by (simp add: lagrange_of_def)
  next
    case False
    with a obtain b where b: "b \<in> X" "b \<noteq> a" by blast
    have drop: "ceq n (\<Sum>x \<in> X. x * L x) (c * ((\<Sum>x \<in> X. L x) - 1))" if c: "c \<in> X" "X - {c} \<noteq> {}" for c
    proof -
      obtain M where M: "lagrange_of n (X - {c}) M" using lagrange_exists [OF assms(1) apart_Diff [OF less.prems(1)]] by blast
      have "card (X - {c}) < card X" using card_Diff1_less [OF fin c(1)] .
      from less.hyps [OF this apart_Diff [OF less.prems(1)] c(2) M] have "ceq n (\<Sum>x \<in> X - {c}. M x) 1" .
      then have "ceq n (c * ((\<Sum>x \<in> X. L x) - (\<Sum>x \<in> X - {c}. M x))) (c * ((\<Sum>x \<in> X. L x) - 1))"
        by (intro ceq_mult ceq_diff ceq_refl)
      with lagrange_step [OF assms(1) less.prems(1) c(1) less.prems(3) M, of 0] show ?thesis by (auto intro: ceq_trans)
    qed
    let ?S = "\<Sum>x \<in> X. L x"
    have "ceq n (a * (?S - 1)) (b * (?S - 1))"
      using drop [OF a] drop [OF b(1)] a b by (blast intro: ceq_trans ceq_sym)
    then have "ceq n ((a - b) * ?S) ((a - b) * 1)"
      by (simp add: ceq_def algebra_simps)
    moreover have "\<not> ceq n (a - b) 0" using less.prems(1) a b by (auto simp: apart_def)
    ultimately show ?thesis using ceq_cancel [OF assms(1)] by blast
  qed
qed

lemma lagrange_power:
  assumes "group_order n" "apart n X" "Suc k < card X" "lagrange_of n X L"
  shows "ceq n (\<Sum>x \<in> X. x ^ Suc k * L x) 0"
  using assms(2-4)
proof (induction k arbitrary: X L)
  case 0
  then obtain a where a: "a \<in> X" by fastforce
  have fin: "finite X" using 0(1) by (simp add: apart_def)
  obtain M where M: "lagrange_of n (X - {a}) M" using lagrange_exists [OF assms(1) apart_Diff [OF 0(1)]] by blast
  have ne: "X - {a} \<noteq> {}" using 0(2) a fin by (metis card.empty card_Suc_Diff1 less_irrefl One_nat_def)
  have "ceq n (\<Sum>x \<in> X. L x) 1" using lagrange_zero [OF assms(1) 0(1) _ 0(3)] a by blast
  moreover have "ceq n (\<Sum>x \<in> X - {a}. M x) 1" using lagrange_zero [OF assms(1) apart_Diff [OF 0(1)] ne M] .
  ultimately have "ceq n (a * ((\<Sum>x \<in> X. L x) - (\<Sum>x \<in> X - {a}. M x))) (a * (1 - 1))"
    by (intro ceq_mult ceq_diff ceq_refl)
  with lagrange_step [OF assms(1) 0(1) a 0(3) M, of 0] show ?case by (auto intro: ceq_trans)
next
  case (Suc k)
  then obtain a where a: "a \<in> X" by fastforce
  have fin: "finite X" using Suc.prems(1) by (simp add: apart_def)
  obtain M where M: "lagrange_of n (X - {a}) M" using lagrange_exists [OF assms(1) apart_Diff [OF Suc.prems(1)]] by blast
  have "Suc k < card (X - {a})" using Suc.prems(2) a fin by simp
  from Suc.IH [OF apart_Diff [OF Suc.prems(1)] this M] have 2: "ceq n (\<Sum>x \<in> X - {a}. x ^ Suc k * M x) 0" .
  from Suc.IH [OF Suc.prems(1) _ Suc.prems(3)] Suc.prems(2) have 1: "ceq n (\<Sum>x \<in> X. x ^ Suc k * L x) 0" by simp
  from ceq_mult [OF ceq_refl ceq_diff [OF 1 2], of a]
  have "ceq n (a * ((\<Sum>x \<in> X. x ^ Suc k * L x) - (\<Sum>x \<in> X - {a}. x ^ Suc k * M x))) 0" by simp
  with lagrange_step [OF assms(1) Suc.prems(1) a Suc.prems(3) M, of "Suc k"] show ?case by (rule ceq_trans)
qed

section \<open>Polynomials\<close>

definition poly_at :: "int list \<Rightarrow> int \<Rightarrow> int" where
  "poly_at cs x = (\<Sum>k < length cs. cs ! k * x ^ k)"

lemma poly_at_Nil [simp]: "poly_at [] x = 0"
  by (simp add: poly_at_def)

lemma poly_at_Cons [simp]: "poly_at (c # cs) x = c + x * poly_at cs x"
  by (simp add: poly_at_def sum.lessThan_Suc_shift sum_distrib_left algebra_simps del: sum.lessThan_Suc)

lemma evalPoly_poly_at: "0 < n \<Longrightarrow> ceq n (evalPoly n cs x) (poly_at cs x)"
proof (induction cs)
  case (Cons c cs)
  from Cons have "ceq n (evalPoly n cs x * x + c) (poly_at cs x * x + c)" by (intro ceq_add ceq_mult ceq_refl) simp
  with Cons.prems show ?case by (simp add: evalPoly_def algebra_simps)
qed (simp add: evalPoly_def)

lemma interpolate:
  assumes "group_order n" "apart n X" "lagrange_of n X L" "cs \<noteq> []" "length cs \<le> card X"
  shows "ceq n (\<Sum>x \<in> X. poly_at cs x * L x) (hd cs)"
proof -
  have "(\<Sum>x \<in> X. poly_at cs x * L x) = (\<Sum>x \<in> X. \<Sum>k < length cs. cs ! k * (x ^ k * L x))"
    by (simp add: poly_at_def sum_distrib_right mult.assoc)
  also have "\<dots> = (\<Sum>k < length cs. cs ! k * (\<Sum>x \<in> X. x ^ k * L x))"
    by (subst sum.swap) (simp add: sum_distrib_left)
  also have "ceq n \<dots> (\<Sum>k < length cs. if k = 0 then cs ! 0 else 0)"
  proof (rule ceq_sum)
    fix k assume k: "k \<in> {..<length cs}"
    show "ceq n (cs ! k * (\<Sum>x \<in> X. x ^ k * L x)) (if k = 0 then cs ! 0 else 0)"
    proof (cases k)
      case 0
      have "X \<noteq> {}" using assms(4,5) by auto
      from ceq_mult [OF ceq_refl lagrange_zero [OF assms(1,2) this assms(3)], of "cs ! 0"] 0 show ?thesis by simp
    next
      case (Suc j)
      with k assms(5) have "Suc j < card X" by simp
      from ceq_mult [OF ceq_refl lagrange_power [OF assms(1,2) this assms(3)], of "cs ! k"] Suc show ?thesis by simp
    qed
  qed
  also have "(\<Sum>k < length cs. if k = 0 then cs ! 0 else 0) = hd cs" using assms(4) by (simp add: hd_conv_nth)
  finally show ?thesis .
qed

section \<open>Combining\<close>

lemma lagrange_loop_prod:
  assumes "0 < n" "distinct (map sh_x shares)" "lagrange_loop n xi (num, den) shares = (num', den')"
  shows "ceq n num' (num * (\<Prod>y \<in> sh_x ` set shares - {xi}. - y)) \<and> ceq n den' (den * (\<Prod>y \<in> sh_x ` set shares - {xi}. xi - y))"
  using assms(2,3)
proof (induction shares arbitrary: num den)
  case (Cons s shares)
  show ?case
  proof (cases "sh_x s = xi")
    case True
    with Cons.prems have "sh_x ` set (s # shares) - {xi} = sh_x ` set shares - {xi}" by auto
    with Cons True show ?thesis by simp
  next
    case False
    let ?Y = "sh_x ` set shares - {xi}"
    have ins: "sh_x ` set (s # shares) - {xi} = insert (sh_x s) ?Y" "sh_x s \<notin> ?Y" "finite ?Y" using False Cons.prems by auto
    from Cons.prems False assms(1)
    have "lagrange_loop n xi (num * (- sh_x s mod n) mod n, den * ((xi - sh_x s) mod n) mod n) shares = (num', den')" by simp
    from Cons.IH [OF _ this] Cons.prems(1)
    have ih: "ceq n num' (num * (- sh_x s mod n) mod n * (\<Prod>y \<in> ?Y. - y))"
      "ceq n den' (den * ((xi - sh_x s) mod n) mod n * (\<Prod>y \<in> ?Y. xi - y))" by simp_all
    have "ceq n (num * (- sh_x s mod n) mod n * (\<Prod>y \<in> ?Y. - y)) (num * (- sh_x s) * (\<Prod>y \<in> ?Y. - y))"
      by (intro ceq_mult [OF ceq_mulmod] ceq_refl)
    moreover have "ceq n (den * ((xi - sh_x s) mod n) mod n * (\<Prod>y \<in> ?Y. xi - y)) (den * (xi - sh_x s) * (\<Prod>y \<in> ?Y. xi - y))"
      by (intro ceq_mult [OF ceq_mulmod] ceq_refl)
    ultimately show ?thesis unfolding ins(1) using ih ins(2,3) by (simp add: mult.assoc) (blast intro: ceq_trans)
  qed
qed simp

text \<open>The coefficient \<open>combine\<close> computes for the point \<open>x\<close>.\<close>

definition coeff_at :: "int \<Rightarrow> Share list \<Rightarrow> int \<Rightarrow> int" where
  "coeff_at n shares x = (case lagrange_loop n x (1, 1) shares of (num, den) \<Rightarrow>
     case invMod den n of Some (Inr iv) \<Rightarrow> (num * iv) mod n | _ \<Rightarrow> 0)"

lemma coeff_at_run:
  assumes "group_order n" "distinct (map sh_x shares)" "apart n (sh_x ` set shares)" "x \<in> sh_x ` set shares"
  obtains num den iv where "lagrange_loop n x (1, 1) shares = (num, den)" "invMod den n = Some (Inr iv)"
    "coeff_at n shares x = (num * iv) mod n"
    "ceq n (coeff_at n shares x * (\<Prod>y \<in> sh_x ` set shares - {x}. x - y)) (\<Prod>y \<in> sh_x ` set shares - {x}. - y)"
proof -
  let ?X = "sh_x ` set shares"
  note n = group_order_pos [OF assms(1)]
  obtain num den where l: "lagrange_loop n x (1, 1) shares = (num, den)" by fastforce
  from lagrange_loop_prod [OF n assms(2) l] have nd: "ceq n num (\<Prod>y \<in> ?X - {x}. - y)" "ceq n den (\<Prod>y \<in> ?X - {x}. x - y)" by simp_all
  have "\<not> ceq n (\<Prod>y \<in> ?X - {x}. x - y) 0" using assms by (intro ceq_prod_nonzero) (auto simp: apart_def)
  then have "\<not> ceq n den 0" using nd(2) by (blast intro: ceq_trans ceq_sym)
  from group_order_inverse [OF assms(1) this] obtain iv where iv: "invMod den n = Some (Inr iv)" "ceq n (den * iv) 1" .
  have c: "coeff_at n shares x = (num * iv) mod n" by (simp add: coeff_at_def l iv)
  have "ceq n (coeff_at n shares x * (\<Prod>y \<in> ?X - {x}. x - y)) (num * iv * den)"
    unfolding c by (intro ceq_mult ceq_sym [OF nd(2)]) simp
  also have "ceq n (num * iv * den) (num * 1)" using ceq_mult [OF ceq_refl iv(2), of num] by (simp add: algebra_simps)
  also have "ceq n (num * 1) (\<Prod>y \<in> ?X - {x}. - y)" using nd(1) by simp
  finally show thesis using that l iv(1) c by blast
qed

lemma combine_loop_run:
  assumes "group_order n" "distinct (map sh_x shares)" "apart n (sh_x ` set shares)" "set rest \<subseteq> set shares"
  shows "\<exists>v. combine_loop n shares secret rest = Some (Inr v)
    \<and> ceq n v (secret + (\<Sum>s \<leftarrow> rest. sh_y s * coeff_at n shares (sh_x s))) \<and> (rest \<noteq> [] \<longrightarrow> v mod n = v)"
  using assms(4)
proof (induction rest arbitrary: secret)
  case (Cons s rest)
  note n = group_order_pos [OF assms(1)]
  from Cons.prems have "sh_x s \<in> sh_x ` set shares" by simp
  from coeff_at_run [OF assms(1-3) this] obtain num den iv where
    c: "lagrange_loop n (sh_x s) (1, 1) shares = (num, den)" "invMod den n = Some (Inr iv)"
      "coeff_at n shares (sh_x s) = (num * iv) mod n" .
  let ?secret = "(secret + sh_y s * coeff_at n shares (sh_x s) mod n) mod n"
  have step: "combine_loop n shares secret (s # rest) = combine_loop n shares ?secret rest" using c n by simp
  from Cons.IH [of ?secret] Cons.prems obtain v where v: "combine_loop n shares ?secret rest = Some (Inr v)"
    "ceq n v (?secret + (\<Sum>s \<leftarrow> rest. sh_y s * coeff_at n shares (sh_x s)))" "rest \<noteq> [] \<longrightarrow> v mod n = v" by auto
  have "ceq n ?secret (secret + sh_y s * coeff_at n shares (sh_x s))" by (simp add: ceq_add)
  from ceq_trans [OF v(2) ceq_add [OF this ceq_refl]]
  have "ceq n v (secret + (\<Sum>s \<leftarrow> s # rest. sh_y s * coeff_at n shares (sh_x s)))" by (simp add: add.assoc)
  moreover have "v mod n = v" using v(1,3) by (cases "rest = []") auto
  ultimately show ?case using step v(1) by auto
qed simp

definition on_poly :: "int \<Rightarrow> int list \<Rightarrow> Share list \<Rightarrow> bool" where
  "on_poly n cs shares \<longleftrightarrow> (\<forall>s \<in> set shares. ceq n (sh_y s) (poly_at cs (sh_x s)))"

lemma combine_on_poly:
  assumes "group_order n" "distinct (map sh_x shares)" "apart n (sh_x ` set shares)"
    and "on_poly n cs shares" "cs \<noteq> []" "length cs \<le> length shares"
  shows "combine n shares = Some (Inr (hd cs mod n))"
proof -
  let ?X = "sh_x ` set shares" and ?L = "coeff_at n shares"
  from combine_loop_run [OF assms(1-3) subset_refl, of 0] assms(5,6) obtain v where
    v: "combine n shares = Some (Inr v)" "ceq n v (\<Sum>s \<leftarrow> shares. sh_y s * ?L (sh_x s))" "v mod n = v"
    by (auto simp: combine_def)
  have lag: "lagrange_of n ?X ?L"
    unfolding lagrange_of_def using coeff_at_run [OF assms(1-3)] by blast
  have "(\<Sum>s \<leftarrow> shares. sh_y s * ?L (sh_x s)) = (\<Sum>s \<in> set shares. sh_y s * ?L (sh_x s))"
    using assms(2) by (simp add: sum_list_distinct_conv_sum_set distinct_map)
  also have "ceq n \<dots> (\<Sum>s \<in> set shares. poly_at cs (sh_x s) * ?L (sh_x s))"
    using assms(4) by (intro ceq_sum ceq_mult ceq_refl) (simp add: on_poly_def)
  also have "(\<Sum>s \<in> set shares. poly_at cs (sh_x s) * ?L (sh_x s)) = (\<Sum>x \<in> ?X. poly_at cs x * ?L x)"
    using assms(2) by (simp add: sum.reindex distinct_map)
  also have "ceq n \<dots> (hd cs)"
    using interpolate [OF assms(1,3) lag assms(5)] distinct_card [OF assms(2)] assms(6) by simp
  finally have "ceq n v (hd cs)" using v(2) ceq_trans by blast
  with v(1,3) show ?thesis by (simp add: ceq_mod_eq)
qed

section \<open>Splitting and refreshing\<close>

lemma split_secret_run:
  assumes "0 < n" "split_secret n rnd secret t m = Inr shares"
  shows "on_poly n (secret # rnd) shares \<and> sh_x ` set shares \<subseteq> {1..m} \<and> distinct (map sh_x shares) \<and> 1 \<le> t \<and> t \<le> m"
proof -
  let ?cs = "mod_n secret n # rnd"
  from assms(2) have t: "1 \<le> t" "t \<le> m" and
    sh: "shares = map (\<lambda>i. \<lparr>sh_x = int i + 1, sh_y = evalPoly n ?cs (int i + 1)\<rparr>) [0..<nat m]"
    by (auto simp: split_secret_def Let_def split: if_splits)
  have "ceq n (evalPoly n ?cs x) (poly_at (secret # rnd) x)" for x
  proof -
    have "ceq n (poly_at ?cs x) (poly_at (secret # rnd) x)" using assms(1) by (simp add: ceq_add)
    with evalPoly_poly_at [OF assms(1), of ?cs x] show ?thesis by (rule ceq_trans)
  qed
  then have "on_poly n (secret # rnd) shares" by (auto simp: on_poly_def sh)
  moreover have "distinct (map sh_x shares)" by (simp add: sh distinct_map inj_on_def)
  ultimately show ?thesis using t by (auto simp: sh)
qed

lemma poly_at_add:
  "length cs = length ds \<Longrightarrow> poly_at (map2 (+) cs ds) x = poly_at cs x + poly_at ds x"
  by (induction cs ds rule: list_induct2) (simp_all add: algebra_simps)

lemma refresh_on_poly:
  assumes "0 < n" "on_poly n cs shares" "length cs = Suc (length rnd)"
  shows "on_poly n (map2 (+) cs (0 # rnd)) (refresh_shares n rnd shares)"
proof -
  have "ceq n (sh_y s + evalPoly n (0 # rnd) (sh_x s)) (poly_at (map2 (+) cs (0 # rnd)) (sh_x s))" if "s \<in> set shares" for s
    using that assms evalPoly_poly_at [OF assms(1), of "0 # rnd" "sh_x s"] poly_at_add [of cs "0 # rnd" "sh_x s"]
    by (auto simp: on_poly_def intro: ceq_add)
  then show ?thesis using assms(1) by (auto simp: on_poly_def refresh_shares_def Let_def)
qed

lemma refresh_xs: "map sh_x (refresh_shares n rnd shares) = map sh_x shares"
  by (simp add: refresh_shares_def Let_def)

definition refresh_rounds :: "int \<Rightarrow> int list list \<Rightarrow> Share list \<Rightarrow> Share list" where
  "refresh_rounds n rs shares = fold (refresh_shares n) rs shares"

lemma refresh_rounds_on_poly:
  assumes "0 < n" "on_poly n cs shares" "cs \<noteq> []" "\<forall>rnd \<in> set rs. Suc (length rnd) = length cs"
  shows "\<exists>ds. on_poly n ds (refresh_rounds n rs shares) \<and> hd ds = hd cs \<and> length ds = length cs \<and> ds \<noteq> []
    \<and> map sh_x (refresh_rounds n rs shares) = map sh_x shares"
  using assms(2-4)
proof (induction rs arbitrary: shares cs)
  case Nil
  then show ?case by (auto simp: refresh_rounds_def)
next
  case (Cons rnd rs)
  let ?ds = "map2 (+) cs (0 # rnd)"
  from Cons.prems have len: "length cs = Suc (length rnd)" by simp
  have "hd ?ds = hd cs" "length ?ds = length cs" "?ds \<noteq> []" using len Cons.prems(2) by (cases cs; simp)+
  with Cons.IH [OF refresh_on_poly [OF assms(1) Cons.prems(1) len]] Cons.prems(3) refresh_xs [of n rnd shares]
  show ?case by (auto simp: refresh_rounds_def)
qed

lemma apart_small:
  assumes "A \<subseteq> {1..m}" "m < n"
  shows "apart n A"
proof -
  have "\<not> n dvd x - y" if "x \<in> A" "y \<in> A" "x \<noteq> y" for x y
  proof
    assume "n dvd x - y"
    then have "n \<le> \<bar>x - y\<bar>" using that by (intro zdvd_imp_le) (auto simp: abs_dvd_iff)
    moreover have "x \<in> {1..m}" "y \<in> {1..m}" using assms(1) that by blast+
    ultimately show False using assms(2) by (auto simp: abs_if split: if_splits)
  qed
  moreover have "finite A" using assms(1) finite_subset by blast
  ultimately show ?thesis by (simp add: apart_def ceq_def)
qed

lemma chosen_recover:
  assumes "group_order n" "on_poly n cs shares" "distinct (map sh_x shares)" "sh_x ` set shares \<subseteq> {1..m}" "m < n"
    and "set chosen \<subseteq> set shares" "distinct chosen" "cs \<noteq> []" "length cs \<le> length chosen"
  shows "combine n chosen = Some (Inr (hd cs mod n))"
proof -
  have "distinct (map sh_x chosen)" using assms(3,6,7) by (auto simp: distinct_map inj_on_def)
  moreover have "apart n (sh_x ` set chosen)" using assms(4-6) by (intro apart_small [of _ m]) auto
  moreover have "on_poly n cs chosen" using assms(2,6) by (auto simp: on_poly_def)
  ultimately show ?thesis using combine_on_poly assms(1,8,9) by blast
qed

section \<open>Properties\<close>

text \<open>C25. Inversion always returns, for any argument and any positive modulus: its loop ends, the
  result is an inverse in the range \<open>[0, n)\<close> when the argument is coprime to the modulus, and
  the error that it is not invertible otherwise.\<close>

theorem invMod_total:
  assumes "0 < n"
  shows "\<exists>r. invMod a n = Some r \<and> (case r of
      Inr x \<Rightarrow> gcd a n = 1 \<and> 0 \<le> x \<and> x < n \<and> (a * x) mod n = 1 mod n
    | Inl e \<Rightarrow> gcd a n \<noteq> 1 \<and> e = JsError ''value is not invertible mod n'')"
  using invMod_spec [OF assms, of a] by (auto simp: mod_eq_dvd_iff split: if_splits)

theorem invMod_total_witness:
  "invMod (- 4) 7 = Some (Inr 5) \<and> (\<exists>r. invMod (- 4) 7 = Some r \<and> (case r of Inr x \<Rightarrow> (- 4 * x) mod 7 = 1 mod 7 | Inl e \<Rightarrow> gcd (- 4) 7 \<noteq> (1 :: int)))"
proof -
  have "invMod (- 4) 7 = Some (Inr 5)" by code_simp
  moreover obtain r where "invMod (- 4) 7 = Some r" "case r of Inr x \<Rightarrow> gcd (- 4) 7 = (1 :: int) \<and> 0 \<le> x \<and> x < 7 \<and> (- 4 * x) mod 7 = 1 mod 7
    | Inl e \<Rightarrow> gcd (- 4) 7 \<noteq> (1 :: int) \<and> e = JsError ''value is not invertible mod n''"
    using invMod_total [of 7 "- 4"] by auto
  ultimately show ?thesis by auto
qed

text \<open>C24. Any \<open>t\<close> shares recover the secret: split a secret with threshold \<open>t\<close>, refresh the shares any number of
  times, and combine any \<open>t\<close> or more of them; the result is the secret modulo the group order,
  whatever random coefficients were drawn.\<close>

theorem shares_recover_secret:
  assumes "group_order n" and "split_secret n rnd secret t m = Inr shares" and "int (length rnd) = t - 1" and "m < n"
    and "\<forall>r \<in> set rounds. length r = length rnd"
    and "set chosen \<subseteq> set (refresh_rounds n rounds shares)" and "distinct chosen" and "t \<le> int (length chosen)"
  shows "combine n chosen = Some (Inr (secret mod n))"
proof -
  note n = group_order_pos [OF assms(1)]
  note sp = split_secret_run [OF n assms(2)]
  from refresh_rounds_on_poly [OF n _ _, of "secret # rnd" shares rounds] sp assms(5) obtain ds where
    ds: "on_poly n ds (refresh_rounds n rounds shares)" "hd ds = secret" "length ds = Suc (length rnd)" "ds \<noteq> []"
      "map sh_x (refresh_rounds n rounds shares) = map sh_x shares" by auto
  from ds(5) have xs: "sh_x ` set (refresh_rounds n rounds shares) = sh_x ` set shares" by (metis set_map)
  from chosen_recover [OF assms(1) ds(1) _ _ assms(4,6,7) ds(4)] sp ds xs assms(3,8) show ?thesis by simp
qed

lemma group_order_7: "group_order 7"
proof -
  have "\<forall>a \<in> set [1, 2, 3, 4, 5, 6 :: int]. gcd a 7 = 1" by code_simp
  moreover have "a \<in> set [1, 2, 3, 4, 5, 6]" if "0 < a" "a < 7" for a :: int using that by auto
  ultimately have "gcd a 7 = 1" if "0 < a" "a < 7" for a :: int using that by blast
  then show ?thesis by (simp add: group_order_def)
qed

theorem shares_recover_secret_witness:
  "combine 7 [\<lparr>sh_x = 3, sh_y = 4\<rparr>, \<lparr>sh_x = 1, sh_y = 2\<rparr>] = Some (Inr (8 mod 7))"
proof -
  have split: "split_secret 7 [5] 8 2 3 = Inr [\<lparr>sh_x = 1, sh_y = 6\<rparr>, \<lparr>sh_x = 2, sh_y = 4\<rparr>, \<lparr>sh_x = 3, sh_y = 2\<rparr>]" by code_simp
  have "refresh_rounds 7 [[3]] [\<lparr>sh_x = 1, sh_y = 6\<rparr>, \<lparr>sh_x = 2, sh_y = 4\<rparr>, \<lparr>sh_x = 3, sh_y = 2\<rparr>]
    = [\<lparr>sh_x = 1, sh_y = 2\<rparr>, \<lparr>sh_x = 2, sh_y = 3\<rparr>, \<lparr>sh_x = 3, sh_y = 4\<rparr>]" by code_simp
  then have sub: "set [\<lparr>sh_x = 3, sh_y = 4\<rparr>, \<lparr>sh_x = 1, sh_y = 2\<rparr>]
    \<subseteq> set (refresh_rounds 7 [[3]] [\<lparr>sh_x = 1, sh_y = 6\<rparr>, \<lparr>sh_x = 2, sh_y = 4\<rparr>, \<lparr>sh_x = 3, sh_y = 2\<rparr>])" by simp
  show ?thesis by (rule shares_recover_secret [OF group_order_7 split _ _ _ sub]) simp_all
qed

end
