(* ===== verification/Mpc.thy ===== *)
theory Mpc
  imports Shamir Hex
begin

text \<open>
  Threshold keys (\<open>src/mpc/dealerless-dkg.ts\<close>, \<open>src/mpc/threshold-signer.ts\<close>): distributed key
  generation with Feldman commitments, the check of a share, refresh of key shares, and the
  interim signer that reconstructs the key.

  The curve of \<open>@noble/curves\<close> is a parameter, a record of the operations the code calls; \<open>curve_ok\<close>
  states what is used of it: multiples of the base point add up like their scalars modulo the order,
  \<open>multiply\<close> takes scalars from 1 to the order, and encodings decode.
\<close>

section \<open>The curve\<close>

record 'p curve =
  cv_base :: 'p
  cv_zero :: 'p
  cv_add :: "'p \<Rightarrow> 'p \<Rightarrow> 'p"
  cv_multiply :: "'p \<Rightarrow> int \<Rightarrow> app_error + 'p"
  cv_toBytes :: "'p \<Rightarrow> app_error + byte list"
  cv_fromBytes :: "byte list \<Rightarrow> app_error + 'p"
  cv_getPublicKey :: "int \<Rightarrow> app_error + byte list"
  cv_sign :: "byte list \<Rightarrow> int \<Rightarrow> byte list \<times> byte"
  cv_verify :: "byte list \<Rightarrow> byte list \<Rightarrow> byte list \<Rightarrow> bool"

section \<open>Verifying a share (verifyShare)\<close>

fun verify_loop :: "int \<Rightarrow> 'p curve \<Rightarrow> int \<Rightarrow> byte list list \<Rightarrow> 'p \<Rightarrow> int \<Rightarrow> app_error + 'p" where
  "verify_loop n cv x [] rhs xk = Inr rhs"
| "verify_loop n cv x (c # cs) rhs xk =
     rbind (cv_fromBytes cv c) (\<lambda>p.
     rbind (cv_multiply cv p xk) (\<lambda>q.
       verify_loop n cv x cs (cv_add cv rhs q) (mod_n (xk * x) n)))"

definition verifyShare :: "int \<Rightarrow> 'p curve \<Rightarrow> int \<Rightarrow> int \<Rightarrow> byte list list \<Rightarrow> app_error + bool" where
  "verifyShare n cv x y commitments =
     rbind (verify_loop n cv x commitments (cv_zero cv) 1) (\<lambda>rhs.
     rbind (cv_multiply cv (cv_base cv) (mod_n y n)) (\<lambda>lhs. Inr (lhs = rhs)))"

section \<open>Key generation without a dealer (dealerlessDkg)\<close>

record KeyShare =
  ks_nodeId :: int
  ks_share :: Share
  ks_publicKey :: "byte list"
  ks_threshold :: int
  ks_epoch :: int

fun map_result :: "('a \<Rightarrow> 'e + 'b) \<Rightarrow> 'a list \<Rightarrow> 'e + 'b list" where
  "map_result f [] = Inr []"
| "map_result f (x # xs) = rbind (f x) (\<lambda>y. rbind (map_result f xs) (\<lambda>ys. Inr (y # ys)))"

text \<open>\<open>coeffs\<close> are the coefficients each participant drew.\<close>

definition participant_commitments :: "'p curve \<Rightarrow> int list \<Rightarrow> app_error + 'p list" where
  "participant_commitments cv coeffs = map_result (cv_multiply cv (cv_base cv)) coeffs"

definition aggregate_commitments :: "'p curve \<Rightarrow> int \<Rightarrow> 'p list list \<Rightarrow> 'p list" where
  "aggregate_commitments cv threshold parts =
     map (\<lambda>k. fold (\<lambda>p acc. cv_add cv acc (p ! k)) parts (cv_zero cv)) [0..<nat threshold]"

definition node_share :: "int \<Rightarrow> int list list \<Rightarrow> int \<Rightarrow> Share" where
  "node_share n coeffs j =
     \<lparr>sh_x = j, sh_y = fold (\<lambda>p y. mod_n (y + evalPoly n p j) n) coeffs 0\<rparr>"

definition dealerlessDkg ::
  "int \<Rightarrow> 'p curve \<Rightarrow> int list list \<Rightarrow> int \<Rightarrow> int \<Rightarrow> app_error + (KeyShare list \<times> byte list \<times> byte list list)" where
  "dealerlessDkg n cv coeffs threshold m =
     (if threshold < 1 \<or> threshold > m
      then Inl (JsError (''invalid threshold '' @ show_int threshold @ '' of '' @ show_int m))
      else
        rbind (map_result (participant_commitments cv) coeffs) (\<lambda>parts.
        let agg = aggregate_commitments cv threshold parts in
        rbind (cv_toBytes cv (agg ! 0)) (\<lambda>publicKey.
        rbind (map_result (cv_toBytes cv) agg) (\<lambda>commitments.
          Inr (map (\<lambda>j. \<lparr>ks_nodeId = int j, ks_share = node_share n coeffs (int j), ks_publicKey = publicKey,
                 ks_threshold = threshold, ks_epoch = 0\<rparr>) [1..<Suc (nat m)], publicKey, commitments)))))"

section \<open>Key generation with a dealer, refresh (threshold-signer.ts)\<close>

definition dkg :: "int \<Rightarrow> 'p curve \<Rightarrow> int \<Rightarrow> int list \<Rightarrow> int \<Rightarrow> int \<Rightarrow> app_error + (KeyShare list \<times> byte list)" where
  "dkg n cv secret rnd threshold m =
     rbind (cv_getPublicKey cv (mod_n secret n)) (\<lambda>publicKey.
     rbind (split_secret n rnd secret threshold m) (\<lambda>shares.
       Inr (map (\<lambda>i. \<lparr>ks_nodeId = int i + 1, ks_share = shares ! i, ks_publicKey = publicKey, ks_threshold = threshold, ks_epoch = 0\<rparr>)
         [0..<length shares], publicKey)))"

definition refreshKeyShares :: "int \<Rightarrow> int list \<Rightarrow> KeyShare list \<Rightarrow> KeyShare list" where
  "refreshKeyShares n rnd keyShares =
     map2 (\<lambda>k s. k\<lparr>ks_share := s, ks_epoch := ks_epoch k + 1\<rparr>) keyShares (refresh_shares n rnd (map ks_share keyShares))"

section \<open>The signer\<close>

record SigningContext =
  sg_index :: int
  sg_hash :: "byte list"

record SignerNode =
  nd_keyShare :: KeyShare
  nd_verify :: "SigningContext \<Rightarrow> bool"

definition contribute :: "SignerNode \<Rightarrow> SigningContext \<Rightarrow> app_error + Share" where
  "contribute node ctx =
     (if \<not> nd_verify node ctx
      then Inl (AppError MPC_NODE_REJECTED (''Node '' @ show_int (ks_nodeId (nd_keyShare node)) @ '' rejected the signing request'') True)
      else Inr (ks_share (nd_keyShare node)))"

record ThresholdSigner =
  ts_nodes :: "SignerNode list"
  ts_threshold :: nat
  ts_publicKey :: "byte list"
  ts_commitments :: "byte list list option"

definition epochs_of :: "SignerNode list \<Rightarrow> int list" where
  "epochs_of nodes = remdups (map (\<lambda>nd. ks_epoch (nd_keyShare nd)) nodes)"

text \<open>The constructor; \<open>production\<close> and \<open>acknowledgeInterim\<close> are the options given.\<close>

definition new_ThresholdSigner ::
  "SignerNode list \<Rightarrow> nat \<Rightarrow> byte list \<Rightarrow> byte list list option \<Rightarrow> bool \<Rightarrow> bool \<Rightarrow> app_error + ThresholdSigner" where
  "new_ThresholdSigner nodes threshold publicKey commitments production acknowledgeInterim =
     (if length nodes < threshold
      then Inl (AppError MPC_THRESHOLD_NOT_MET (''need '' @ show_nat threshold @ '' nodes, have '' @ show_nat (length nodes)) True)
      else if production
      then Inl (AppError MPC_INTERIM_FORBIDDEN ''Interim reconstruct-to-sign is forbidden in production; wire an audited threshold-ECDSA protocol first'' True)
      else if \<not> acknowledgeInterim
      then Inl (AppError MPC_INTERIM_FORBIDDEN ''ThresholdSigner uses interim key reconstruction; pass acknowledgeInterim to opt in'' True)
      else if length (epochs_of nodes) > 1
      then Inl (AppError MPC_BAD_CONTRIBUTION ''nodes span multiple refresh epochs'' True)
      else Inr \<lparr>ts_nodes = nodes, ts_threshold = threshold, ts_publicKey = publicKey, ts_commitments = commitments\<rparr>)"

fun check_shares :: "int \<Rightarrow> 'p curve \<Rightarrow> byte list list \<Rightarrow> Share list \<Rightarrow> app_error + unit" where
  "check_shares n cv commitments [] = Inr ()"
| "check_shares n cv commitments (s # shares) =
     rbind (verifyShare n cv (sh_x s) (sh_y s) commitments) (\<lambda>ok.
       if \<not> ok then Inl (AppError MPC_BAD_CONTRIBUTION ''a contributed share failed its Feldman check'' True)
       else check_shares n cv commitments shares)"

definition signHash :: "int \<Rightarrow> 'p curve \<Rightarrow> ThresholdSigner \<Rightarrow> int \<Rightarrow> byte list \<Rightarrow> (app_error + byte list) option" where
  "signHash n cv ts index hash =
     (if length hash \<noteq> 32 then Some (Inl (JsError ''hash must be 32 bytes''))
      else
        let ctx = \<lparr>sg_index = index, sg_hash = hash\<rparr>; quorum = take (ts_threshold ts) (ts_nodes ts) in
        case map_result (\<lambda>node. contribute node ctx) quorum of
          Inl e \<Rightarrow> Some (Inl e)
        | Inr contributions \<Rightarrow>
            (case (case ts_commitments ts of None \<Rightarrow> Inr () | Some cs \<Rightarrow> check_shares n cv cs contributions) of
               Inl e \<Rightarrow> Some (Inl e)
             | Inr _ \<Rightarrow>
                 (case combine n contributions of
                    None \<Rightarrow> None
                  | Some (Inl e) \<Rightarrow> Some (Inl e)
                  | Some (Inr d) \<Rightarrow> Some (
                      rbind (cv_getPublicKey cv (mod_n d n)) (\<lambda>recoveredPub.
                      if recoveredPub \<noteq> ts_publicKey ts
                      then Inl (AppError MPC_BAD_CONTRIBUTION ''reconstructed key does not match the group public key'' True)
                      else case cv_sign cv hash (mod_n d n) of (compact, recovery) \<Rightarrow>
                        if \<not> cv_verify cv compact hash (ts_publicKey ts)
                        then Inl (AppError MPC_BAD_CONTRIBUTION ''produced signature does not verify under the group key'' True)
                        else Inr (compact @ [recovery]))))))"

section \<open>What is used of the curve\<close>

text \<open>\<open>gmul k\<close> is the \<open>k\<close>-th multiple of the base point.\<close>

definition curve_ok :: "int \<Rightarrow> 'p curve \<Rightarrow> (int \<Rightarrow> 'p) \<Rightarrow> bool" where
  "curve_ok n cv gmul \<longleftrightarrow> group_order n \<and> cv_base cv = gmul 1 \<and> cv_zero cv = gmul 0
     \<and> (\<forall>a b. cv_add cv (gmul a) (gmul b) = gmul (a + b))
     \<and> (\<forall>a k. 1 \<le> k \<longrightarrow> k < n \<longrightarrow> cv_multiply cv (gmul a) k = Inr (gmul (a * k)))
     \<and> (\<forall>a k. \<not> (1 \<le> k \<and> k < n) \<longrightarrow> (\<exists>e. cv_multiply cv (gmul a) k = Inl e))
     \<and> (\<forall>a b. gmul a = gmul b \<longleftrightarrow> ceq n a b)
     \<and> (\<forall>a bs. cv_toBytes cv (gmul a) = Inr bs \<longrightarrow> cv_fromBytes cv bs = Inr (gmul a))
     \<and> (\<forall>d. 1 \<le> d \<longrightarrow> d < n \<longrightarrow> cv_getPublicKey cv d = cv_toBytes cv (gmul d))"

lemma curve_okD:
  assumes "curve_ok n cv gmul"
  shows "group_order n" "0 < n" "cv_base cv = gmul 1" "cv_zero cv = gmul 0" "cv_add cv (gmul a) (gmul b) = gmul (a + b)"
    "1 \<le> k \<Longrightarrow> k < n \<Longrightarrow> cv_multiply cv (gmul a) k = Inr (gmul (a * k))" "gmul a = gmul b \<longleftrightarrow> ceq n a b"
    "cv_toBytes cv (gmul a) = Inr bs \<Longrightarrow> cv_fromBytes cv bs = Inr (gmul a)"
    "1 \<le> d \<Longrightarrow> d < n \<Longrightarrow> cv_getPublicKey cv d = cv_toBytes cv (gmul d)"
    "cv_multiply cv (gmul a) k = Inr q \<Longrightarrow> 1 \<le> k \<and> k < n \<and> q = gmul (a * k)"
proof -
  show "group_order n" "0 < n" "cv_base cv = gmul 1" "cv_zero cv = gmul 0" "cv_add cv (gmul a) (gmul b) = gmul (a + b)"
    "1 \<le> k \<Longrightarrow> k < n \<Longrightarrow> cv_multiply cv (gmul a) k = Inr (gmul (a * k))" "gmul a = gmul b \<longleftrightarrow> ceq n a b"
    "cv_toBytes cv (gmul a) = Inr bs \<Longrightarrow> cv_fromBytes cv bs = Inr (gmul a)"
    "1 \<le> d \<Longrightarrow> d < n \<Longrightarrow> cv_getPublicKey cv d = cv_toBytes cv (gmul d)"
    using assms group_order_pos by (auto simp: curve_ok_def)
  assume q: "cv_multiply cv (gmul a) k = Inr q"
  have "1 \<le> k \<and> k < n"
  proof (rule ccontr)
    assume "\<not> (1 \<le> k \<and> k < n)"
    with assms obtain e where "cv_multiply cv (gmul a) k = Inl e" unfolding curve_ok_def by blast
    with q show False by simp
  qed
  with q assms show "1 \<le> k \<and> k < n \<and> q = gmul (a * k)" by (auto simp: curve_ok_def)
qed

lemma nonzero_range:
  assumes "0 < n" "\<not> ceq n a 0"
  shows "1 \<le> a mod n" "a mod n < n"
proof -
  from assms(2) have "a mod n \<noteq> 0" by (simp add: ceq_mod_eq)
  with pos_mod_sign [OF assms(1), of a] show "1 \<le> a mod n" by linarith
  show "a mod n < n" using assms(1) by simp
qed

lemma nonzero_mult:
  assumes "group_order n" "\<not> ceq n a 0" "\<not> ceq n b 0"
  shows "\<not> ceq n (a * b) 0"
  using ceq_cancel [OF assms(1,2), of b 0] assms(3) by auto

text \<open>\<open>commits cv gmul cs bs\<close>: the byte strings are the encoded multiples for the coefficients.\<close>

definition commits :: "'p curve \<Rightarrow> (int \<Rightarrow> 'p) \<Rightarrow> int list \<Rightarrow> byte list list \<Rightarrow> bool" where
  "commits cv gmul cs bs \<longleftrightarrow> list_all2 (\<lambda>c b. cv_toBytes cv (gmul c) = Inr b) cs bs"

lemma verify_loop_run:
  assumes "curve_ok n cv gmul" "\<not> ceq n x 0"
  shows "commits cv gmul cs bs \<Longrightarrow> 1 \<le> xk \<Longrightarrow> xk < n \<Longrightarrow>
    \<exists>v. verify_loop n cv x bs (gmul r) xk = Inr (gmul v) \<and> ceq n v (r + xk * poly_at cs x)"
proof (induction bs arbitrary: cs r xk)
  case Nil
  then show ?case by (auto simp: commits_def)
next
  case (Cons b bs)
  then obtain c cs' where cs: "cs = c # cs'" "cv_toBytes cv (gmul c) = Inr b" "commits cv gmul cs' bs"
    by (auto simp: commits_def list_all2_Cons2)
  note ok = curve_okD [OF assms(1)]
  have "\<not> ceq n (xk * x) 0"
  proof (rule nonzero_mult [OF ok(1) _ assms(2)])
    show "\<not> ceq n xk 0" using Cons.prems(2,3) by (simp add: ceq_mod_eq)
  qed
  note rng = nonzero_range [OF ok(2) this]
  from Cons.IH [OF cs(3) rng, of "r + c * xk"] obtain v where
    v: "verify_loop n cv x bs (gmul (r + c * xk)) (xk * x mod n) = Inr (gmul v)"
      "ceq n v (r + c * xk + xk * x mod n * poly_at cs' x)" by blast
  have "verify_loop n cv x (b # bs) (gmul r) xk = Inr (gmul v)"
    using v(1) ok(8) [OF cs(2)] ok(6) [OF Cons.prems(2,3), of c] ok(2,5) by simp
  moreover have "ceq n (r + c * xk + xk * x mod n * poly_at cs' x) (r + c * xk + xk * x * poly_at cs' x)"
    by (intro ceq_add ceq_mult ceq_refl) simp
  then have "ceq n v (r + xk * poly_at cs x)" using ceq_trans [OF v(2)] cs(1) by (simp add: algebra_simps)
  ultimately show ?case by blast
qed

lemma verifyShare_run:
  assumes "curve_ok n cv gmul" "commits cv gmul cs bs" "\<not> ceq n x 0" "\<not> ceq n y 0"
  shows "verifyShare n cv x y bs = Inr (ceq n y (poly_at cs x))"
proof -
  note ok = curve_okD [OF assms(1)]
  have "1 < n" using ok(1) by (simp add: group_order_def)
  with verify_loop_run [OF assms(1,3,2), of 1 0] obtain v where
    v: "verify_loop n cv x bs (gmul 0) 1 = Inr (gmul v)" "ceq n v (poly_at cs x)" by auto
  have l: "cv_multiply cv (gmul 1) (y mod n) = Inr (gmul (y mod n))"
    using ok(6) [OF nonzero_range [OF ok(2) assms(4)], of 1] by simp
  have "verifyShare n cv x y bs = Inr (ceq n (y mod n) v)" using v(1) l ok by (simp add: verifyShare_def)
  moreover have "ceq n (y mod n) v \<longleftrightarrow> ceq n y (poly_at cs x)" using v(2) by (auto intro: ceq_trans ceq_sym)
  ultimately show ?thesis by simp
qed

lemma list_all2_mono_set:
  assumes "list_all2 P xs ys" "\<And>x y. x \<in> set xs \<Longrightarrow> P x y \<Longrightarrow> Q x y"
  shows "list_all2 Q xs ys"
  using assms by (auto simp: list_all2_conv_all_nth)

section \<open>What the participants hold\<close>

definition sum_poly :: "nat \<Rightarrow> int list list \<Rightarrow> int list" where
  "sum_poly t coeffs = map (\<lambda>k. \<Sum>p \<leftarrow> coeffs. p ! k) [0..<t]"

lemma poly_at_sum:
  "\<forall>p \<in> set coeffs. length p = t \<Longrightarrow> poly_at (sum_poly t coeffs) x = (\<Sum>p \<leftarrow> coeffs. poly_at p x)"
proof (induction coeffs)
  case Nil
  then show ?case by (simp add: sum_poly_def poly_at_def)
next
  case (Cons p coeffs)
  have "poly_at (sum_poly t (p # coeffs)) x = (\<Sum>k < t. (p ! k + (\<Sum>q \<leftarrow> coeffs. q ! k)) * x ^ k)"
    by (simp add: sum_poly_def poly_at_def)
  also have "\<dots> = poly_at p x + poly_at (sum_poly t coeffs) x"
    using Cons.prems by (simp add: sum_poly_def poly_at_def distrib_right sum.distrib)
  finally show ?case using Cons by simp
qed

lemma node_share_fold:
  assumes "0 < n"
  shows "ceq n (fold (\<lambda>p y. mod_n (y + evalPoly n p j) n) coeffs y) (y + (\<Sum>p \<leftarrow> coeffs. poly_at p j))"
proof (induction coeffs arbitrary: y)
  case (Cons p coeffs)
  have "ceq n ((y + evalPoly n p j) mod n) (y + poly_at p j)"
    using evalPoly_poly_at [OF assms] by (simp add: ceq_add)
  from ceq_trans [OF Cons.IH ceq_add [OF this ceq_refl]] show ?case using assms by (simp add: add.assoc)
qed simp

lemma node_share_on:
  assumes "0 < n" "\<forall>p \<in> set coeffs. length p = t"
  shows "ceq n (sh_y (node_share n coeffs j)) (poly_at (sum_poly t coeffs) j)"
  using node_share_fold [OF assms(1), of j coeffs 0] poly_at_sum [OF assms(2)] by (simp add: node_share_def)

lemma map_result_Inr: "map_result f xs = Inr ys \<longleftrightarrow> list_all2 (\<lambda>x y. f x = Inr y) xs ys"
  by (induction xs arbitrary: ys) (auto simp: rbind_Inr_iff list_all2_Cons1)

lemma aggregate_sum:
  assumes "curve_ok n cv gmul" "list_all2 (\<lambda>p q. length p = t \<and> q = map gmul p) coeffs parts" "k < t"
  shows "fold (\<lambda>p acc. cv_add cv acc (p ! k)) parts (gmul r) = gmul (r + (\<Sum>p \<leftarrow> coeffs. p ! k))"
  using assms(2)
proof (induction arbitrary: r rule: list_all2_induct)
  case Nil
  then show ?case by simp
next
  case (Cons p coeffs q parts)
  with assms(3) curve_okD(5) [OF assms(1)] show ?case by (simp add: add.assoc)
qed

lemma participant_commitments_run:
  assumes "curve_ok n cv gmul" "participant_commitments cv p = Inr q"
  shows "q = map gmul p"
proof -
  note ok = curve_okD [OF assms(1)]
  from assms(2) have "list_all2 (\<lambda>c b. cv_multiply cv (gmul 1) c = Inr b) p q"
    by (simp add: participant_commitments_def map_result_Inr ok(3))
  then show ?thesis by (induction rule: list_all2_induct) (auto dest: ok(10))
qed

lemma dealerlessDkg_run:
  assumes "curve_ok n cv gmul" "\<forall>p \<in> set coeffs. int (length p) = t" "dealerlessDkg n cv coeffs t m = Inr (keys, pk, cms)"
  shows "1 \<le> t" "t \<le> m" "cv_toBytes cv (gmul (\<Sum>p \<leftarrow> coeffs. p ! 0)) = Inr pk" "commits cv gmul (sum_poly (nat t) coeffs) cms"
    "map ks_share keys = map (\<lambda>j. node_share n coeffs (int j)) [1..<Suc (nat m)]"
proof -
  from assms(3) obtain parts where t: "1 \<le> t" "t \<le> m" and parts: "map_result (participant_commitments cv) coeffs = Inr parts"
    and pk: "cv_toBytes cv (aggregate_commitments cv t parts ! 0) = Inr pk"
    and cms: "map_result (cv_toBytes cv) (aggregate_commitments cv t parts) = Inr cms"
    and keys: "keys = map (\<lambda>j. \<lparr>ks_nodeId = int j, ks_share = node_share n coeffs (int j), ks_publicKey = pk,
      ks_threshold = t, ks_epoch = 0\<rparr>) [1..<Suc (nat m)]"
    by (auto simp: dealerlessDkg_def rbind_Inr_iff Let_def split: if_splits)
  from parts have "list_all2 (\<lambda>p q. participant_commitments cv p = Inr q) coeffs parts" by (simp add: map_result_Inr)
  then have "list_all2 (\<lambda>p q. length p = nat t \<and> q = map gmul p) coeffs parts"
  proof (rule list_all2_mono_set)
    fix p q assume p: "p \<in> set coeffs" "participant_commitments cv p = Inr q"
    with assms(2) have "int (length p) = t" by blast
    then show "length p = nat t \<and> q = map gmul p" using participant_commitments_run [OF assms(1) p(2)] by auto
  qed
  note agg = aggregate_sum [OF assms(1) this, of _ 0]
  have a: "aggregate_commitments cv t parts = map gmul (sum_poly (nat t) coeffs)"
    using agg curve_okD(4) [OF assms(1)] by (simp add: aggregate_commitments_def sum_poly_def)
  show "1 \<le> t" "t \<le> m" by fact+
  show "cv_toBytes cv (gmul (\<Sum>p \<leftarrow> coeffs. p ! 0)) = Inr pk" using pk t(1) by (simp add: a sum_poly_def)
  show "commits cv gmul (sum_poly (nat t) coeffs) cms" using cms by (simp add: a map_result_Inr commits_def list_all2_map1)
  show "map ks_share keys = map (\<lambda>j. node_share n coeffs (int j)) [1..<Suc (nat m)]" by (simp add: keys)
qed

section \<open>Properties\<close>

text \<open>C30. Key generation without a dealer shares one key: when it returns, the public key is that of
  the sum of the participants' secrets, any \<open>t\<close> or more of the shares combine to that sum
  modulo the order, and the Feldman check accepts a non-zero value for a node exactly when it
  is that node's share.\<close>

theorem dkg_shares_one_key:
  assumes "curve_ok n cv gmul" and "\<forall>p \<in> set coeffs. int (length p) = t" and "m < n"
    and "dealerlessDkg n cv coeffs t m = Inr (keys, pk, cms)"
    and "set chosen \<subseteq> set (map ks_share keys)" and "distinct chosen" and "t \<le> int (length chosen)"
    and "s \<in> set (map ks_share keys)" and "\<not> ceq n y 0"
  shows "cv_toBytes cv (gmul (\<Sum>p \<leftarrow> coeffs. p ! 0)) = Inr pk
    \<and> combine n chosen = Some (Inr ((\<Sum>p \<leftarrow> coeffs. p ! 0) mod n))
    \<and> verifyShare n cv (sh_x s) y cms = Inr (ceq n y (sh_y s))"
proof -
  note ok = curve_okD [OF assms(1)]
  note run = dealerlessDkg_run [OF assms(1,2,4)]
  let ?cs = "sum_poly (nat t) coeffs" and ?shares = "map ks_share keys"
  from assms(2) have len: "\<forall>p \<in> set coeffs. length p = nat t" by auto
  have on: "on_poly n ?cs ?shares" using node_share_on [OF ok(2) len] by (auto simp: run(5) on_poly_def node_share_def)
  have xs: "sh_x ` set ?shares \<subseteq> {1..m}" by (auto simp: run(5) node_share_def)
  have dist: "distinct (map sh_x ?shares)" by (simp add: run(5) node_share_def distinct_map inj_on_def del: upt_Suc)
  have cs: "?cs \<noteq> []" "hd ?cs = (\<Sum>p \<leftarrow> coeffs. p ! 0)" "length ?cs = nat t"
    using run(1) by (simp_all add: sum_poly_def hd_conv_nth)
  have c: "combine n chosen = Some (Inr (hd ?cs mod n))"
    using chosen_recover [OF ok(1) on dist xs assms(3,5,6) cs(1)] cs(3) assms(7) by simp
  from assms(8) xs have "sh_x s \<in> {1..m}" by blast
  then have "\<not> ceq n (sh_x s) 0" using assms(3) by (simp add: ceq_mod_eq)
  from verifyShare_run [OF assms(1) run(4) this assms(9)] have "verifyShare n cv (sh_x s) y cms = Inr (ceq n y (poly_at ?cs (sh_x s)))" .
  moreover have "ceq n (sh_y s) (poly_at ?cs (sh_x s))" using on assms(8) unfolding on_poly_def by blast
  then have "ceq n y (poly_at ?cs (sh_x s)) \<longleftrightarrow> ceq n y (sh_y s)" by (blast intro: ceq_trans ceq_sym)
  ultimately show ?thesis using run(3) c cs(2) by simp
qed

text \<open>The integers modulo 7 as a curve: points are residues, encoded in one byte.\<close>

definition ex_curve :: "int curve" where
  "ex_curve = \<lparr>cv_base = 1, cv_zero = 0, cv_add = (\<lambda>a b. (a + b) mod 7),
     cv_multiply = (\<lambda>p k. if 1 \<le> k \<and> k < 7 then Inr (p * k mod 7) else Inl (JsError ''invalid scalar'')),
     cv_toBytes = (\<lambda>p. Inr [word_of_int p]), cv_fromBytes = (\<lambda>bs. Inr (uint (hd bs))),
     cv_getPublicKey = (\<lambda>d. Inr [word_of_int d]),
     cv_sign = (\<lambda>h d. (h @ [word_of_int d], 0)), cv_verify = (\<lambda>sig h pk. sig = h @ pk)\<rparr>"

lemma ex_curve_ok: "curve_ok 7 ex_curve (\<lambda>k. k mod 7)"
proof -
  have "uint (word_of_int (a mod 7) :: byte) = a mod 7" for a :: int
  proof -
    have "0 \<le> a mod 7" "a mod 7 < 7" by simp_all
    then show ?thesis by (simp add: unsigned_of_int take_bit_int_eq_self_iff)
  qed
  then show ?thesis
    by (auto simp: curve_ok_def ex_curve_def group_order_7 ceq_mod_eq mod_simps)
qed

theorem dkg_shares_one_key_witness:
  "combine 7 [\<lparr>sh_x = 3, sh_y = 3\<rparr>, \<lparr>sh_x = 1, sh_y = 6\<rparr>] = Some (Inr (11 mod 7))
   \<and> verifyShare 7 ex_curve 1 5 [[4], [2]] = Inr False"
proof -
  let ?keys = "map (\<lambda>(j, y). \<lparr>ks_nodeId = j, ks_share = \<lparr>sh_x = j, sh_y = y\<rparr>, ks_publicKey = [4], ks_threshold = 2, ks_epoch = 0\<rparr>)
    [(1, 6), (2, 1), (3, 3)]"
  have run: "dealerlessDkg 7 ex_curve [[5, 3], [6, 6]] 2 3 = Inr (?keys, [4], [[4], [2]])" by code_simp
  have "combine 7 [\<lparr>sh_x = 3, sh_y = 3\<rparr>, \<lparr>sh_x = 1, sh_y = 6\<rparr>] = Some (Inr ((\<Sum>p \<leftarrow> [[5, 3], [6, 6]]. p ! 0) mod 7))
    \<and> verifyShare 7 ex_curve (sh_x \<lparr>sh_x = 1, sh_y = 6\<rparr>) 5 [[4], [2]] = Inr (ceq 7 5 (sh_y \<lparr>sh_x = 1, sh_y = 6\<rparr>))"
    using dkg_shares_one_key [OF ex_curve_ok _ _ run, of "[\<lparr>sh_x = 3, sh_y = 3\<rparr>, \<lparr>sh_x = 1, sh_y = 6\<rparr>]" "\<lparr>sh_x = 1, sh_y = 6\<rparr>" 5]
    by (simp add: ceq_mod_eq)
  then show ?thesis by (simp add: ceq_mod_eq)
qed

text \<open>No signature without the quorum: a signature is returned only for a 32-byte hash that every
  node of the quorum approved, from shares that passed the Feldman check where commitments
  are configured, and it verifies under the group key.\<close>

theorem signature_needs_quorum:
  assumes "signHash n cv ts index hash = Some (Inr sig)"
  shows "length hash = 32
    \<and> (\<forall>node \<in> set (take (ts_threshold ts) (ts_nodes ts)). nd_verify node \<lparr>sg_index = index, sg_hash = hash\<rparr>)
    \<and> (\<forall>cs. ts_commitments ts = Some cs \<longrightarrow>
        check_shares n cv cs (map (\<lambda>node. ks_share (nd_keyShare node)) (take (ts_threshold ts) (ts_nodes ts))) = Inr ())
    \<and> cv_verify cv (butlast sig) hash (ts_publicKey ts)"
proof -
  let ?ctx = "\<lparr>sg_index = index, sg_hash = hash\<rparr>" and ?q = "take (ts_threshold ts) (ts_nodes ts)"
  from assms obtain shares where len: "length hash = 32" and sh: "map_result (\<lambda>node. contribute node ?ctx) ?q = Inr shares"
    and ck: "(case ts_commitments ts of None \<Rightarrow> Inr () | Some cs \<Rightarrow> check_shares n cv cs shares) = Inr ()"
    and v: "cv_verify cv (butlast sig) hash (ts_publicKey ts)"
    by (auto simp: signHash_def Let_def rbind_Inr_iff split: if_splits sum.splits option.splits prod.splits)
  from sh have "list_all2 (\<lambda>node s. nd_verify node ?ctx \<and> s = ks_share (nd_keyShare node)) ?q shares"
    unfolding map_result_Inr by (rule list_all2_mono) (auto simp: contribute_def split: if_splits)
  then have "(\<forall>node \<in> set ?q. nd_verify node ?ctx) \<and> shares = map (\<lambda>node. ks_share (nd_keyShare node)) ?q"
    by (induction rule: list_all2_induct) auto
  with len ck v show ?thesis by auto
qed

definition ex_signer :: ThresholdSigner where
  "ex_signer = \<lparr>ts_nodes = map (\<lambda>(j, y). \<lparr>nd_keyShare = \<lparr>ks_nodeId = j, ks_share = \<lparr>sh_x = j, sh_y = y\<rparr>, ks_publicKey = [4], ks_threshold = 2,
     ks_epoch = 0\<rparr>, nd_verify = (\<lambda>c. sg_index c = j - j)\<rparr>) [(1, 6), (2, 1), (3, 3)], ts_threshold = 2, ts_publicKey = [4], ts_commitments = Some [[4], [2]]\<rparr>"

theorem signature_needs_quorum_witness:
  "signHash 7 ex_curve ex_signer 0 (replicate 32 1) = Some (Inr (replicate 32 1 @ [4, 0]))
   \<and> cv_verify ex_curve (butlast (replicate 32 1 @ [4, 0])) (replicate 32 1) (ts_publicKey ex_signer)"
proof -
  have "signHash 7 ex_curve ex_signer 0 (replicate 32 1) = Some (Inr (replicate 32 1 @ [4, 0]))" by code_simp
  with signature_needs_quorum [OF this] show ?thesis by blast
qed

end
