(* ===== verification/Tron_Verify.thy ===== *)
theory Tron_Verify
  imports App_Errors Hex
begin

unbundle bit_operations_syntax

text \<open>
  The check of a TRON transaction before it is signed (\<open>src/chains/tron/tron-tx-verify.ts\<close>): the node
  builds the transaction body, a protocol buffer; the engine decodes it, compares it with the
  transfer it authorized and signs the hash of the body.

  SHA-256 is a parameter. The specification \<open>tron_effect\<close> reads the body the way the
  protocol-buffer encoding defines it, where the last occurrence of a field counts.
\<close>

section \<open>Reading protocol buffers\<close>

abbreviation TronTxMismatchError :: "string \<Rightarrow> app_error" where
  "TronTxMismatchError m \<equiv> AppError TRON_TX_MISMATCH m True"

record Field =
  fd_no :: nat
  fd_wire :: nat
  fd_bytes :: "byte list option"
  fd_value :: "nat option"

fun varint_loop :: "nat \<Rightarrow> nat \<Rightarrow> byte list \<Rightarrow> app_error + (nat \<times> byte list)" where
  "varint_loop shift result [] = Inl (TronTxMismatchError ''Truncated protobuf varint'')"
| "varint_loop shift result (b # buf) =
     (let result' = result OR push_bit shift (unat (b AND 0x7F)) in
      if b AND 0x80 = 0 then Inr (result', buf)
      else if shift + 7 > 70 then Inl (TronTxMismatchError ''Overlong protobuf varint'')
      else varint_loop (shift + 7) result' buf)"

definition varint :: "byte list \<Rightarrow> app_error + (nat \<times> byte list)" where
  "varint buf = varint_loop 0 0 buf"

lemma varint_loop_shorter: "varint_loop sh r buf = Inr (v, rest) \<Longrightarrow> length rest < length buf"
  by (induction sh r buf rule: varint_loop.induct) (fastforce simp: Let_def split: if_splits)+

lemma varint_shorter: "varint buf = Inr (v, rest) \<Longrightarrow> length rest < length buf"
  unfolding varint_def by (rule varint_loop_shorter)

definition cons_field :: "Field \<Rightarrow> app_error + Field list \<Rightarrow> app_error + Field list" where
  "cons_field f r = rbind r (\<lambda>fs. Inr (f # fs))"

function readFields :: "byte list \<Rightarrow> app_error + Field list" where
  "readFields buf =
     (if buf = [] then Inr []
      else case varint buf of
        Inl e \<Rightarrow> Inl e
      | Inr (key, r1) \<Rightarrow>
          if key mod 8 = 0 then
            (case varint r1 of
               Inl e \<Rightarrow> Inl e
             | Inr (v, r2) \<Rightarrow> cons_field \<lparr>fd_no = key div 8, fd_wire = 0, fd_bytes = None, fd_value = Some v\<rparr> (readFields r2))
          else if key mod 8 = 2 then
            (case varint r1 of
               Inl e \<Rightarrow> Inl e
             | Inr (len, r2) \<Rightarrow>
                 if len > length r2 then Inl (TronTxMismatchError ''Truncated protobuf length-delimited field'')
                 else cons_field \<lparr>fd_no = key div 8, fd_wire = 2, fd_bytes = Some (take len r2), fd_value = None\<rparr> (readFields (drop len r2)))
          else if key mod 8 = 5 then
            cons_field \<lparr>fd_no = key div 8, fd_wire = 5, fd_bytes = None, fd_value = None\<rparr> (readFields (drop 4 r1))
          else if key mod 8 = 1 then
            cons_field \<lparr>fd_no = key div 8, fd_wire = 1, fd_bytes = None, fd_value = None\<rparr> (readFields (drop 8 r1))
          else Inl (TronTxMismatchError (''Unsupported protobuf wire type '' @ show_nat (key mod 8))))"
  by pat_completeness auto
termination
  by (relation "measure length") (auto dest!: varint_shorter)

declare readFields.simps [simp del]

definition field :: "Field list \<Rightarrow> nat \<Rightarrow> Field option" where
  "field fs no = find (\<lambda>f. fd_no f = no) fs"

definition bytes_at :: "Field list \<Rightarrow> nat \<Rightarrow> byte list option" where
  "bytes_at fs no = Option.bind (field fs no) fd_bytes"

definition value_at :: "Field list \<Rightarrow> nat \<Rightarrow> nat" where
  "value_at fs no = (case Option.bind (field fs no) fd_value of Some v \<Rightarrow> v | None \<Rightarrow> 0)"

definition bytes_or_empty :: "byte list option \<Rightarrow> byte list" where
  "bytes_or_empty b = (case b of Some bs \<Rightarrow> bs | None \<Rightarrow> [])"

definition hex_opt :: "byte list option \<Rightarrow> string" where
  "hex_opt b = (case b of Some bs \<Rightarrow> toLowerCase (hex_of_bytes bs) | None \<Rightarrow> [])"

section \<open>Decoding a transfer\<close>

definition CONTRACT_TYPE_TRANSFER :: nat where
  "CONTRACT_TYPE_TRANSFER = 1"

definition CONTRACT_TYPE_TRIGGER_SMART_CONTRACT :: nat where
  "CONTRACT_TYPE_TRIGGER_SMART_CONTRACT = 31"

definition TRANSFER_SELECTOR :: string where
  "TRANSFER_SELECTOR = ''a9059cbb''"

record DecodedTransfer =
  dt_type :: nat
  dt_ownerHex :: string
  dt_toHex :: string
  dt_amount :: int
  dt_contractHex :: "string option"

definition transfer_of :: "Field list \<Rightarrow> DecodedTransfer" where
  "transfer_of f = \<lparr>dt_type = CONTRACT_TYPE_TRANSFER, dt_ownerHex = hex_opt (bytes_at f 1), dt_toHex = hex_opt (bytes_at f 2),
     dt_amount = int (value_at f 3), dt_contractHex = None\<rparr>"

definition decodeTransferContract :: "byte list \<Rightarrow> app_error + DecodedTransfer" where
  "decodeTransferContract value = rbind (readFields value) (\<lambda>f. Inr (transfer_of f))"

definition address_word :: "string \<Rightarrow> bool" where
  "address_word w \<longleftrightarrow> length w = 64 \<and> take 24 w = replicate 24 (CHR ''0'') \<and> list_all (\<lambda>c. is_hex c \<and> lower_char c = c) (drop 24 w)"

definition trigger_of :: "Field list \<Rightarrow> app_error + DecodedTransfer" where
  "trigger_of f =
     (let data = hex_opt (bytes_at f 4) in
      if length data \<noteq> 136 \<or> \<not> startsWith data TRANSFER_SELECTOR
      then Inl (TronTxMismatchError ''Node returned a contract call that is not a plain TRC20 transfer(address,uint256)'')
      else if value_at f 3 \<noteq> 0
      then Inl (TronTxMismatchError ''Node returned a TRC20 transfer carrying non-zero call_value'')
      else let addrWord = take 64 (drop 8 data) in
        if \<not> address_word addrWord
        then Inl (TronTxMismatchError ''TRC20 recipient word is not a right-aligned 20-byte address'')
        else Inr \<lparr>dt_type = CONTRACT_TYPE_TRIGGER_SMART_CONTRACT, dt_ownerHex = hex_opt (bytes_at f 1), dt_toHex = ''41'' @ drop 24 addrWord,
          dt_amount = (case read_hex (drop 72 data) of Some v \<Rightarrow> int v | None \<Rightarrow> 0), dt_contractHex = Some (hex_opt (bytes_at f 2))\<rparr>)"

definition decodeTriggerSmartContract :: "byte list \<Rightarrow> app_error + DecodedTransfer" where
  "decodeTriggerSmartContract value = rbind (readFields value) trigger_of"

definition decode_contract :: "nat \<Rightarrow> byte list \<Rightarrow> app_error + DecodedTransfer" where
  "decode_contract type value =
     (if type = CONTRACT_TYPE_TRANSFER then decodeTransferContract value
      else if type = CONTRACT_TYPE_TRIGGER_SMART_CONTRACT then decodeTriggerSmartContract value
      else Inl (TronTxMismatchError (''Refusing to sign Tron contract type '' @ show_nat type)))"

definition contracts_of :: "Field list \<Rightarrow> byte list list" where
  "contracts_of fs = List.map_filter (\<lambda>f. if fd_no f = 11 then fd_bytes f else None) fs"

definition decodeTronRawData :: "string \<Rightarrow> app_error + DecodedTransfer" where
  "decodeTronRawData rawDataHex =
     (let clean = strip_0x rawDataHex in
      if clean = [] \<or> \<not> list_all is_hex clean \<or> length clean mod 2 \<noteq> 0
      then Inl (TronTxMismatchError ''Node returned no usable raw_data_hex to verify'')
      else
        rbind (readFields (bytes_of_hex clean)) (\<lambda>fs.
        if length (contracts_of fs) \<noteq> 1
        then Inl (TronTxMismatchError (''A payout transaction must carry exactly one contract, got '' @ show_nat (length (contracts_of fs))))
        else
          rbind (readFields (hd (contracts_of fs))) (\<lambda>c.
          rbind (readFields (bytes_or_empty (bytes_at c 2))) (\<lambda>anyFields.
          case bytes_at anyFields 2 of
            None \<Rightarrow> Inl (TronTxMismatchError ''Contract parameter carries no value'')
          | Some value \<Rightarrow> decode_contract (value_at c 1) value))))"

section \<open>The digest to sign\<close>

record TronTransferIntent =
  ti_ownerHex :: string
  ti_toHex :: string
  ti_amountBaseUnits :: int
  ti_contractHex :: "string option"

definition norm_hex :: "string \<Rightarrow> string" where
  "norm_hex s = toLowerCase (strip_0x s)"

definition mismatch :: "string \<Rightarrow> app_error" where
  "mismatch what = TronTxMismatchError (''Node built a transaction with a different '' @ what @ '' than the payout authorized'')"

definition verifiedTronSigningHash ::
  "(byte list \<Rightarrow> byte list) \<Rightarrow> string option \<Rightarrow> string option \<Rightarrow> TronTransferIntent \<Rightarrow> app_error + byte list" where
  "verifiedTronSigningHash sha256 txID raw_data_hex intent =
     (let rawHex = norm_hex (case raw_data_hex of Some r \<Rightarrow> r | None \<Rightarrow> []);
          txId = norm_hex (case txID of Some t \<Rightarrow> t | None \<Rightarrow> []) in
      if txId = [] then Inl (TronTxMismatchError ''Node returned no txID'')
      else let digest = sha256 (bytes_of_hex rawHex) in
        if rawHex = [] \<or> hex_of_bytes digest \<noteq> txId
        then Inl (TronTxMismatchError ''Tron txID is not the hash of the transaction body the node returned'')
        else
          rbind (decodeTronRawData rawHex) (\<lambda>got.
          if dt_ownerHex got \<noteq> norm_hex (ti_ownerHex intent) then Inl (mismatch ''from-address'')
          else if dt_toHex got \<noteq> norm_hex (ti_toHex intent) then Inl (mismatch ''destination'')
          else if dt_amount got \<noteq> ti_amountBaseUnits intent then Inl (mismatch ''amount'')
          else case map_option norm_hex (ti_contractHex intent) of
            None \<Rightarrow> if dt_type got \<noteq> CONTRACT_TYPE_TRANSFER then Inl (mismatch ''contract type'') else Inr digest
          | Some c \<Rightarrow> if dt_contractHex got \<noteq> Some c then Inl (mismatch ''token contract'') else Inr digest))"

section \<open>What the network executes\<close>

text \<open>The effect of a body, by the encoding's rule that the last occurrence of a field counts.\<close>

datatype tron_transfer =
    is_TrxTransfer: TrxTransfer (tx_owner: "byte list") (tx_to: "byte list") (tx_amount: nat)
  | is_Trc20Transfer: Trc20Transfer (tx_owner: "byte list") (tx_contract: "byte list") (tx_to: "byte list") (tx_amount: nat)

definition last_bytes :: "Field list \<Rightarrow> nat \<Rightarrow> byte list option" where
  "last_bytes fs no = Option.bind (find (\<lambda>f. fd_no f = no) (rev fs)) fd_bytes"

definition last_value :: "Field list \<Rightarrow> nat \<Rightarrow> nat" where
  "last_value fs no = (case Option.bind (find (\<lambda>f. fd_no f = no) (rev fs)) fd_value of Some v \<Rightarrow> v | None \<Rightarrow> 0)"

definition be_value :: "byte list \<Rightarrow> nat" where
  "be_value bs = foldl (\<lambda>a b. a * 256 + unat b) 0 bs"

definition call_effect :: "Field list \<Rightarrow> tron_transfer option" where
  "call_effect f =
     (let d = bytes_or_empty (last_bytes f 4) in
      if length d = 68 \<and> take 4 d = [0xA9, 0x05, 0x9C, 0xBB] \<and> take 12 (drop 4 d) = replicate 12 0 \<and> last_value f 3 = 0
      then Some (Trc20Transfer (bytes_or_empty (last_bytes f 1)) (bytes_or_empty (last_bytes f 2)) (0x41 # take 20 (drop 16 d)) (be_value (drop 36 d)))
      else None)"

definition tron_effect :: "Field list \<Rightarrow> Field list \<Rightarrow> tron_transfer option" where
  "tron_effect c f =
     (if last_value c 1 = 1
      then Some (TrxTransfer (bytes_or_empty (last_bytes f 1)) (bytes_or_empty (last_bytes f 2)) (last_value f 3))
      else if last_value c 1 = 31 then call_effect f else None)"

text \<open>A message without repeated fields reads the same from either end.\<close>

definition singular :: "Field list \<Rightarrow> bool" where
  "singular fs \<longleftrightarrow> distinct (map fd_no fs)"

lemma find_rev_singular: "singular fs \<Longrightarrow> find (\<lambda>f. fd_no f = no) (rev fs) = find (\<lambda>f. fd_no f = no) fs"
proof (induction fs)
  case (Cons f fs)
  have app: "find P (xs @ ys) = (case find P xs of None \<Rightarrow> find P ys | r \<Rightarrow> r)" for P and xs ys :: "Field list"
    by (induction xs) auto
  show ?case
  proof (cases "fd_no f = no")
    case True
    with Cons.prems have "\<forall>g \<in> set fs. fd_no g \<noteq> no" by (auto simp: singular_def image_iff)
    then have "find (\<lambda>f. fd_no f = no) (rev fs) = None" by (simp add: find_None_iff)
    with True show ?thesis by (simp add: app)
  next
    case False
    with Cons show ?thesis by (simp add: app singular_def split: option.splits)
  qed
qed simp

lemma last_first:
  assumes "singular fs"
  shows "last_bytes fs no = bytes_at fs no" "last_value fs no = value_at fs no"
  using find_rev_singular [OF assms] by (simp_all add: last_bytes_def last_value_def bytes_at_def value_at_def field_def)

section \<open>Hexadecimal digits against bytes\<close>

lemma take_hex: "take (2 * k) (hex_of_bytes bs) = hex_of_bytes (take k bs)"
proof (induction bs arbitrary: k)
  case (Cons b bs)
  then show ?case by (cases k) simp_all
qed simp

lemma drop_hex: "drop (2 * k) (hex_of_bytes bs) = hex_of_bytes (drop k bs)"
proof (induction bs arbitrary: k)
  case (Cons b bs)
  then show ?case by (cases k) simp_all
qed simp

lemma hex_opt_bytes [simp]: "hex_opt b = hex_of_bytes (bytes_or_empty b)"
  by (simp add: hex_opt_def bytes_or_empty_def split: option.splits)

lemma read_hex_bytes: "read_hex (hex_of_bytes bs) = Some (be_value bs)"
proof -
  have "foldl read_digit (Some a) (hex_of_bytes bs) = Some (foldl (\<lambda>a b. a * 256 + unat b) a bs)" for a
  proof (induction bs arbitrary: a)
    case (Cons b bs)
    have "(a * 16 + x) * 16 + y = a * 256 + (x * 16 + y)" for x y :: nat by (simp add: algebra_simps)
    then have "(a * 16 + unat b div 16) * 16 + unat b mod 16 = a * 256 + unat b" by (simp only: div_mult_mod_eq)
    then show ?case using Cons by (simp add: read_digit_Some add.commute mult.commute)
  qed simp
  then show ?thesis by (simp add: read_hex_def be_value_def)
qed

lemma selector_bytes: "TRANSFER_SELECTOR = hex_of_bytes [0xA9, 0x05, 0x9C, 0xBB]"
  by code_simp

lemma zero_bytes: "replicate 24 (CHR ''0'') = hex_of_bytes (replicate 12 0)"
  by code_simp

lemma prefix_41: "''41'' = hex_of_bytes [0x41]"
  by code_simp

lemma trigger_of_call:
  assumes "trigger_of f = Inr got" "singular f"
  shows "\<exists>t. call_effect f = Some t \<and> dt_type got = 31 \<and> dt_ownerHex got = hex_of_bytes (tx_owner t) \<and> dt_toHex got = hex_of_bytes (tx_to t)
    \<and> dt_amount got = int (tx_amount t) \<and> dt_contractHex got = Some (hex_of_bytes (tx_contract t)) \<and> is_Trc20Transfer t"
proof -
  let ?d = "bytes_or_empty (bytes_at f 4)"
  have th: "take 8 (hex_of_bytes bs) = hex_of_bytes (take 4 bs)" "take 24 (hex_of_bytes bs) = hex_of_bytes (take 12 bs)"
    "take 64 (hex_of_bytes bs) = hex_of_bytes (take 32 bs)" "drop 8 (hex_of_bytes bs) = hex_of_bytes (drop 4 bs)"
    "drop 24 (hex_of_bytes bs) = hex_of_bytes (drop 12 bs)" "drop 72 (hex_of_bytes bs) = hex_of_bytes (drop 36 bs)" for bs
    using take_hex [of 4 bs] take_hex [of 12 bs] take_hex [of 32 bs] drop_hex [of 4 bs] drop_hex [of 12 bs] drop_hex [of 36 bs] by simp_all
  from assms(1) have len: "length ?d = 68" and sel: "take 4 ?d = [0xA9, 0x05, 0x9C, 0xBB]" and v: "value_at f 3 = 0"
    and w: "address_word (hex_of_bytes (take 32 (drop 4 ?d)))"
    and got: "got = \<lparr>dt_type = 31, dt_ownerHex = hex_of_bytes (bytes_or_empty (bytes_at f 1)),
      dt_toHex = ''41'' @ hex_of_bytes (drop 12 (take 32 (drop 4 ?d))), dt_amount = int (be_value (drop 36 ?d)),
      dt_contractHex = Some (hex_of_bytes (bytes_or_empty (bytes_at f 2)))\<rparr>"
    by (auto simp: trigger_of_def Let_def startsWith_def selector_bytes th read_hex_bytes CONTRACT_TYPE_TRIGGER_SMART_CONTRACT_def
        simp del: hex_of_bytes_Cons split: if_splits)
  from w have "hex_of_bytes (take 12 (take 32 (drop 4 ?d))) = hex_of_bytes (replicate 12 0)"
    unfolding address_word_def th zero_bytes by simp
  then have z: "take 12 (drop 4 ?d) = replicate 12 0" by simp
  have to: "drop 12 (take 32 (drop 4 ?d)) = take 20 (drop 16 ?d)" by (simp add: drop_take)
  let ?t = "Trc20Transfer (bytes_or_empty (bytes_at f 1)) (bytes_or_empty (bytes_at f 2)) (0x41 # take 20 (drop 16 ?d)) (be_value (drop 36 ?d))"
  have "call_effect f = Some ?t" using len sel z v by (simp add: call_effect_def Let_def last_first [OF assms(2)])
  moreover have "''41'' @ hex_of_bytes x = hex_of_bytes (0x41 # x)" for x
    using hex_of_bytes_append [of "[0x41]" x] by (simp only: prefix_41 append_Cons append_Nil)
  ultimately show ?thesis by (simp add: got to)
qed

section \<open>Properties\<close>

lemma decode_contract_effect:
  assumes "readFields value = Inr f" "decode_contract (value_at c 1) value = Inr got" "singular c" "singular f"
  shows "\<exists>t. tron_effect c f = Some t \<and> dt_ownerHex got = hex_of_bytes (tx_owner t) \<and> dt_toHex got = hex_of_bytes (tx_to t)
    \<and> dt_amount got = int (tx_amount t)
    \<and> (if is_Trc20Transfer t then dt_type got = 31 \<and> dt_contractHex got = Some (hex_of_bytes (tx_contract t))
       else dt_type got = 1 \<and> dt_contractHex got = None)"
proof (cases "value_at c 1 = 1")
  case True
  with assms have "got = transfer_of f"
    by (auto simp: decode_contract_def decodeTransferContract_def CONTRACT_TYPE_TRANSFER_def rbind_Inr_iff)
  with True show ?thesis
    by (simp add: tron_effect_def last_first [OF assms(3)] last_first [OF assms(4)] transfer_of_def CONTRACT_TYPE_TRANSFER_def)
next
  case False
  with assms have "value_at c 1 = 31" "trigger_of f = Inr got"
    by (auto simp: decode_contract_def decodeTriggerSmartContract_def CONTRACT_TYPE_TRANSFER_def
        CONTRACT_TYPE_TRIGGER_SMART_CONTRACT_def rbind_Inr_iff split: if_splits)
  with trigger_of_call [OF _ assms(4)] show ?thesis by (auto simp: tron_effect_def last_first [OF assms(3)])
qed

text \<open>The messages nested in a body with exactly one contract: the contract, its parameter and the parameter's value,
  with \<open>get\<close> choosing among repeated fields. The engine takes the first occurrence, the network the last.\<close>

definition nested :: "(Field list \<Rightarrow> nat \<Rightarrow> byte list option) \<Rightarrow> byte list \<Rightarrow> (Field list \<times> Field list \<times> Field list) option" where
  "nested get body =
     (case readFields body of Inl _ \<Rightarrow> None | Inr fs \<Rightarrow>
      case contracts_of fs of [contract] \<Rightarrow>
        (case readFields contract of Inl _ \<Rightarrow> None | Inr c \<Rightarrow>
         case readFields (bytes_or_empty (get c 2)) of Inl _ \<Rightarrow> None | Inr any \<Rightarrow>
         case get any 2 of None \<Rightarrow> None | Some value \<Rightarrow>
         case readFields value of Inl _ \<Rightarrow> None | Inr f \<Rightarrow> Some (c, any, f))
      | _ \<Rightarrow> None)"

definition network_effect :: "byte list \<Rightarrow> tron_transfer option" where
  "network_effect body = (case nested last_bytes body of Some (c, any, f) \<Rightarrow> tron_effect c f | None \<Rightarrow> None)"

definition unrepeated :: "byte list \<Rightarrow> bool" where
  "unrepeated body = (case nested bytes_at body of Some (c, any, f) \<Rightarrow> singular c \<and> singular any \<and> singular f | None \<Rightarrow> True)"

lemma nested_last:
  assumes "nested bytes_at body = Some (c, any, f)" "singular c" "singular any"
  shows "nested last_bytes body = Some (c, any, f)"
  using assms(1) last_first(1) [OF assms(2), of 2] last_first(1) [OF assms(3), of 2]
  unfolding nested_def by (auto split: sum.splits list.splits option.splits)

lemma decodeTronRawData_nested:
  assumes "decodeTronRawData raw = Inr got"
  shows "\<exists>c any f value. nested bytes_at (bytes_of_hex (strip_0x raw)) = Some (c, any, f)
    \<and> readFields value = Inr f \<and> decode_contract (value_at c 1) value = Inr got"
proof -
  from assms obtain fs c any vl where 1: "readFields (bytes_of_hex (strip_0x raw)) = Inr fs" "length (contracts_of fs) = 1"
    "readFields (hd (contracts_of fs)) = Inr c" "readFields (bytes_or_empty (bytes_at c 2)) = Inr any" "bytes_at any 2 = Some vl"
    "decode_contract (value_at c 1) vl = Inr got"
    by (auto simp: decodeTronRawData_def Let_def rbind_Inr_iff split: if_splits option.splits)
  from 1(2) obtain contract where "contracts_of fs = [contract]" by (cases "contracts_of fs") auto
  moreover from 1(6) obtain f where "readFields vl = Inr f"
    by (auto simp: decode_contract_def decodeTransferContract_def decodeTriggerSmartContract_def rbind_Inr_iff split: if_splits)
  ultimately show ?thesis using 1 unfolding nested_def by auto
qed

lemma decodeTronRawData_effect:
  assumes "decodeTronRawData raw = Inr got" "unrepeated (bytes_of_hex (strip_0x raw))"
  shows "\<exists>t. network_effect (bytes_of_hex (strip_0x raw)) = Some t \<and> dt_ownerHex got = hex_of_bytes (tx_owner t)
    \<and> dt_toHex got = hex_of_bytes (tx_to t) \<and> dt_amount got = int (tx_amount t)
    \<and> (if is_Trc20Transfer t then dt_type got = 31 \<and> dt_contractHex got = Some (hex_of_bytes (tx_contract t))
       else dt_type got = 1 \<and> dt_contractHex got = None)"
proof -
  from decodeTronRawData_nested [OF assms(1)] obtain c any f vl where
    c: "nested bytes_at (bytes_of_hex (strip_0x raw)) = Some (c, any, f)" "readFields vl = Inr f" "decode_contract (value_at c 1) vl = Inr got"
    by blast
  with assms(2) have s: "singular c" "singular any" "singular f" by (simp_all add: unrepeated_def)
  show ?thesis using decode_contract_effect [OF c(2,3) s(1,3)] nested_last [OF c(1) s(1,2)] by (simp add: network_effect_def)
qed



text \<open>Where a field is repeated the engine reads the first occurrence and the network the last: a body that passes the check
  for one recipient pays another.\<close>

lemma repeated_recipient_pays_another:
  "verifiedTronSigningHash (\<lambda>bs. take 2 bs) (Some ''5a14'') (Some ''5a1408011210120e0a02410112024102120241091805'')
     \<lparr>ti_ownerHex = ''4101'', ti_toHex = ''4102'', ti_amountBaseUnits = 5, ti_contractHex = None\<rparr> = Inr [0x5a, 0x14]"
  "network_effect (bytes_of_hex ''5a1408011210120e0a02410112024102120241091805'') = Some (TrxTransfer [0x41, 1] [0x41, 9] 5)"
  by code_simp+

text \<open>A second \<open>0x\<close> prefix survives the normalization of the hash but not that of the decoder: the digest that is returned
  is the hash of no bytes at all.\<close>

lemma doubled_prefix_signs_empty_body:
  "verifiedTronSigningHash (\<lambda>bs. take 2 (bs @ [0xAB, 0xCD])) (Some ''abcd'') (Some ''0x0x5a100801120c120a0a024101120241021805'')
     \<lparr>ti_ownerHex = ''4101'', ti_toHex = ''4102'', ti_amountBaseUnits = 5, ti_contractHex = None\<rparr> = Inr (take 2 ([] @ [0xAB, 0xCD]))"
  by code_simp

section \<open>Canonical encodings are read back\<close>

text \<open>The writer's side of the encoding, as the specification the reader is checked against.\<close>

fun put_varint :: "nat \<Rightarrow> byte list" where
  "put_varint n = (if n < 128 then [word_of_nat n] else word_of_nat (128 + n mod 128) # put_varint (n div 128))"

declare put_varint.simps [simp del]

abbreviation bytes_field :: "nat \<Rightarrow> byte list \<Rightarrow> Field" where
  "bytes_field no bs \<equiv> \<lparr>fd_no = no, fd_wire = 2, fd_bytes = Some bs, fd_value = None\<rparr>"

abbreviation value_field :: "nat \<Rightarrow> nat \<Rightarrow> Field" where
  "value_field no v \<equiv> \<lparr>fd_no = no, fd_wire = 0, fd_bytes = None, fd_value = Some v\<rparr>"

definition put_field :: "Field \<Rightarrow> byte list" where
  "put_field f = put_varint (fd_no f * 8 + fd_wire f) @
     (case fd_bytes f of Some bs \<Rightarrow> put_varint (length bs) @ bs | None \<Rightarrow> put_varint (case fd_value f of Some v \<Rightarrow> v | None \<Rightarrow> 0))"

definition put_fields :: "Field list \<Rightarrow> byte list" where
  "put_fields fs = concat (map put_field fs)"

definition field_ok :: "Field \<Rightarrow> bool" where
  "field_ok f \<longleftrightarrow> fd_no f < 2 ^ 74 \<and>
     (case fd_bytes f of
        Some bs \<Rightarrow> fd_wire f = 2 \<and> fd_value f = None \<and> length bs < 2 ^ 77
      | None \<Rightarrow> fd_wire f = 0 \<and> (case fd_value f of Some v \<Rightarrow> v < 2 ^ 77 | None \<Rightarrow> False))"

lemma or_push_bit:
  fixes r x :: nat
  assumes "r < 2 ^ sh"
  shows "r OR push_bit sh x = r + x * 2 ^ sh"
proof -
  have "r = take_bit sh r" by (rule take_bit_nat_eq_self [OF assms, symmetric])
  then have "bit r n \<Longrightarrow> n < sh" for n by (metis bit_take_bit_iff)
  then have "r AND push_bit sh x = 0" by (intro bit_eqI) (auto simp: bit_and_iff bit_push_bit_iff not_le)
  with disjunctive_add_eq_or [of r "push_bit sh x"] show ?thesis by (simp add: push_bit_eq_mult)
qed

lemma unat_word_byte: "n < 256 \<Longrightarrow> unat (word_of_nat n :: byte) = n"
  by (simp only: unsigned_of_nat) (simp add: take_bit_nat_eq_self_iff)

lemma low_bits: "unat (b AND 0x7F) = unat b mod 128" for b :: byte
proof -
  have "(0x7F :: nat) = mask 7" by (simp add: mask_eq_exp_minus_1)
  then have "unat b AND 0x7F = take_bit 7 (unat b)" by (simp only: take_bit_eq_mask)
  moreover have "unat (b AND 0x7F) = unat b AND 0x7F" by (simp add: unsigned_and_eq)
  ultimately show ?thesis by (simp add: take_bit_eq_mod)
qed

lemma high_bit: "b AND 0x80 = 0 \<longleftrightarrow> unat b < 128" for b :: byte
proof -
  have e: "(0x80 :: byte) = 2 ^ 7" by simp
  have "b AND 0x80 = 0 \<longleftrightarrow> \<not> bit b 7" unfolding e by (simp only: and_exp_eq_0_iff_not_bit)
  also have "\<dots> \<longleftrightarrow> \<not> bit (unat b) 7" by (simp add: bit_unsigned_iff)
  also have "\<dots> \<longleftrightarrow> even (unat b div 128)" by (simp add: bit_iff_odd)
  also have "\<dots> \<longleftrightarrow> unat b < 128"
  proof -
    have "unat b div 128 = 0 \<or> unat b div 128 = 1" using unat_byte_less [of b] by linarith
    then show ?thesis by auto
  qed
  finally show ?thesis .
qed

lemma varint_loop_put:
  assumes "r < 2 ^ sh" "n < 2 ^ (77 - sh)" "sh \<le> 70" "7 dvd sh"
  shows "varint_loop sh r (put_varint n @ rest) = Inr (r + n * 2 ^ sh, rest)"
  using assms
proof (induction n arbitrary: sh r rule: put_varint.induct)
  case (1 n)
  show ?case
  proof (cases "n < 128")
    case True
    with 1(2) show ?thesis by (simp add: put_varint.simps [of n] high_bit low_bits unat_word_byte or_push_bit)
  next
    case False
    let ?b = "word_of_nat (128 + n mod 128) :: byte" and ?r = "r + n mod 128 * 2 ^ sh"
    have b: "unat ?b = 128 + n mod 128" by (rule unat_word_byte) simp
    have "sh \<noteq> 70" using 1(3) False by auto
    with 1(4,5) have sh: "sh + 7 \<le> 70" by (auto elim!: dvdE)
    have "?r < 2 ^ (sh + 7)"
    proof -
      have "n mod 128 * 2 ^ sh \<le> 127 * 2 ^ sh" by (intro mult_right_mono) auto
      with 1(2) have "?r < 128 * 2 ^ sh" by linarith
      then show ?thesis by (simp add: power_add mult.commute)
    qed
    moreover have "n div 128 < 2 ^ (77 - (sh + 7))"
    proof -
      have "77 - sh = (77 - (sh + 7)) + 7" using sh by simp
      then have "(2::nat) ^ (77 - sh) = 2 ^ (77 - (sh + 7)) * 128" by (simp only: power_add) simp
      with 1(3) show ?thesis by (simp only: less_mult_imp_div_less)
    qed
    moreover have "7 dvd sh + 7" using 1(5) by simp
    ultimately have "varint_loop (sh + 7) ?r (put_varint (n div 128) @ rest) = Inr (?r + n div 128 * 2 ^ (sh + 7), rest)"
      using 1(1) [OF False] sh by blast
    moreover have "?r + n div 128 * 2 ^ (sh + 7) = r + n * 2 ^ sh"
    proof -
      have "m * p + d * (p * 128) = (d * 128 + m) * p" for m d p :: nat by (simp add: algebra_simps)
      from this [of "n mod 128" "2 ^ sh" "n div 128"] show ?thesis by (simp add: power_add)
    qed
    ultimately show ?thesis using False b sh 1(2)
      by (simp add: put_varint.simps [of n] high_bit low_bits or_push_bit)
  qed
qed

lemma varint_put: "n < 2 ^ 77 \<Longrightarrow> varint (put_varint n @ rest) = Inr (n, rest)"
  using varint_loop_put [of 0 0 n rest] by (simp add: varint_def)

lemma put_varint_ne [simp]: "put_varint n \<noteq> []"
  by (simp add: put_varint.simps)

lemma readFields_put_field:
  assumes "field_ok f"
  shows "readFields (put_field f @ rest) = cons_field f (readFields rest)"
proof (cases "fd_bytes f")
  case None
  with assms obtain v where f: "f = value_field (fd_no f) v" and v: "v < 2 ^ 77" "fd_no f * 8 < 2 ^ 77"
    by (cases f) (auto simp: field_ok_def split: option.splits)
  have "readFields (put_field (value_field no v) @ rest) = cons_field (value_field no v) (readFields rest)" if "no * 8 < 2 ^ 77" for no
    using v(1) that by (subst readFields.simps) (simp add: put_field_def varint_put)
  with f v(2) show ?thesis by metis
next
  case (Some bs)
  with assms have f: "f = bytes_field (fd_no f) bs" and v: "length bs < 2 ^ 77" "fd_no f * 8 + 2 < 2 ^ 77"
    by (cases f; auto simp: field_ok_def split: option.splits)+
  have "readFields (put_field (bytes_field no bs) @ rest) = cons_field (bytes_field no bs) (readFields rest)" if "no * 8 + 2 < 2 ^ 77" for no
  proof -
    have "(no * 8 + 2) mod 8 = 2" "(no * 8 + 2) div 8 = no" by presburger+
    then show ?thesis using v(1) that by (subst readFields.simps) (simp add: put_field_def varint_put)
  qed
  with f v(2) show ?thesis by metis
qed



end
