(* ===== verification/Auth_Crypto.thy ===== *)
theory Auth_Crypto
  imports Authorization Hex
begin

unbundle bit_operations_syntax

text \<open>
  Credentials (\<open>src/auth/crypto.ts\<close>) and roles (\<open>src/auth/roles.ts\<close>): the encoded password hash,
  base32 secrets, time-based codes, recovery codes, and the permissions of each role.

  The primitives of \<open>node:crypto\<close> and Unicode normalization are parameters, gathered in the record
  \<open>crypto\<close>; random values are arguments. Bit operations of JavaScript act on 32-bit words.
\<close>

section \<open>Primitives\<close>

record crypto =
  cr_scrypt :: "string \<Rightarrow> byte list \<Rightarrow> nat \<Rightarrow> int option \<times> int option \<times> int option \<Rightarrow> byte list option"
  cr_nfkc :: "string \<Rightarrow> string"
  cr_sha256 :: "string \<Rightarrow> string"
  cr_hmac_sha1 :: "byte list \<Rightarrow> byte list \<Rightarrow> byte list"

type_synonym u32 = "32 word"

section \<open>Base64url, as \<open>Buffer\<close> reads and writes it\<close>

definition BASE64URL :: string where
  "BASE64URL = ''ABCDEFGHIJKLMNOPQRSTUVWXYZabcdefghijklmnopqrstuvwxyz0123456789-_''"

fun index_of :: "string \<Rightarrow> char \<Rightarrow> nat option" where
  "index_of [] c = None"
| "index_of (x # xs) c = (if x = c then Some 0 else map_option Suc (index_of xs c))"

fun base64url_encode :: "byte list \<Rightarrow> string" where
  "base64url_encode [] = []"
| "base64url_encode [a] =
     (let v = push_bit 16 (ucast a :: u32) in [BASE64URL ! unat (drop_bit 18 v AND 63), BASE64URL ! unat (drop_bit 12 v AND 63)])"
| "base64url_encode [a, b] =
     (let v = push_bit 16 (ucast a :: u32) OR push_bit 8 (ucast b)
      in [BASE64URL ! unat (drop_bit 18 v AND 63), BASE64URL ! unat (drop_bit 12 v AND 63), BASE64URL ! unat (drop_bit 6 v AND 63)])"
| "base64url_encode (a # b # c # r) =
     (let v = push_bit 16 (ucast a :: u32) OR push_bit 8 (ucast b) OR ucast c
      in [BASE64URL ! unat (drop_bit 18 v AND 63), BASE64URL ! unat (drop_bit 12 v AND 63), BASE64URL ! unat (drop_bit 6 v AND 63),
          BASE64URL ! unat (v AND 63)] @ base64url_encode r)"

definition sextet :: "char \<Rightarrow> nat option" where
  "sextet c = (if c = CHR ''+'' then Some 62 else if c = CHR ''/'' then Some 63 else index_of BASE64URL c)"

fun sextets_bytes :: "nat list \<Rightarrow> byte list" where
  "sextets_bytes (p # q # r # s # rest) =
     (let v = push_bit 18 (word_of_nat p :: u32) OR push_bit 12 (word_of_nat q) OR push_bit 6 (word_of_nat r) OR word_of_nat s
      in [ucast (drop_bit 16 v), ucast (drop_bit 8 v), ucast v] @ sextets_bytes rest)"
| "sextets_bytes [p, q, r] =
     (let v = push_bit 18 (word_of_nat p :: u32) OR push_bit 12 (word_of_nat q) OR push_bit 6 (word_of_nat r)
      in [ucast (drop_bit 16 v), ucast (drop_bit 8 v)])"
| "sextets_bytes [p, q] = (let v = push_bit 18 (word_of_nat p :: u32) OR push_bit 12 (word_of_nat q) in [ucast (drop_bit 16 v)])"
| "sextets_bytes _ = []"

text \<open>Characters outside the alphabet are skipped and \<open>=\<close> ends the input.\<close>

definition base64url_decode :: "string \<Rightarrow> byte list" where
  "base64url_decode s = sextets_bytes (List.map_filter sextet (takeWhile (\<lambda>c. c \<noteq> CHR ''='') s))"

lemma index_of_nth: "distinct xs \<Longrightarrow> i < length xs \<Longrightarrow> index_of xs (xs ! i) = Some i"
proof (induction xs arbitrary: i)
  case (Cons x xs)
  then show ?case by (cases i) (auto simp: nth_mem)
qed simp

lemma distinct_BASE64URL: "distinct BASE64URL" "length BASE64URL = 64"
  by code_simp+

lemma BASE64URL_chars: "c \<in> set BASE64URL \<Longrightarrow> c \<noteq> CHR ''='' \<and> c \<noteq> CHR ''+'' \<and> c \<noteq> CHR ''/'' \<and> c \<noteq> CHR ''$''"
proof -
  have "list_all (\<lambda>c. c \<noteq> CHR ''='' \<and> c \<noteq> CHR ''+'' \<and> c \<noteq> CHR ''/'' \<and> c \<noteq> CHR ''$'') BASE64URL" by code_simp
  then show "c \<in> set BASE64URL \<Longrightarrow> c \<noteq> CHR ''='' \<and> c \<noteq> CHR ''+'' \<and> c \<noteq> CHR ''/'' \<and> c \<noteq> CHR ''$''"
    by (simp add: list_all_iff)
qed

lemma and_mask_less: "unat (w AND 63) < 64" "unat (w AND 31) < 32" for w :: u32
proof -
  have m: "(63 :: u32) = mask 6" "(31 :: u32) = mask 5" by (simp_all add: mask_eq_exp_minus_1)
  show "unat (w AND 63) < 64" unfolding m take_bit_eq_mask [symmetric]
    by (simp add: unsigned_take_bit_eq take_bit_nat_less_exp [of 6, simplified])
  show "unat (w AND 31) < 32" unfolding m take_bit_eq_mask [symmetric]
    by (simp add: unsigned_take_bit_eq take_bit_nat_less_exp [of 5, simplified])
qed


lemma sextet_nth: "n < 64 \<Longrightarrow> sextet (BASE64URL ! n) = Some n"
  using BASE64URL_chars [of "BASE64URL ! n"] index_of_nth [OF distinct_BASE64URL(1), of n] distinct_BASE64URL(2)
  by (simp add: sextet_def)

lemma encode_chars: "c \<in> set (base64url_encode bs) \<Longrightarrow> c \<in> set BASE64URL"
  by (induction bs rule: base64url_encode.induct)
    (auto simp: Let_def distinct_BASE64URL(2) and_mask_less intro!: nth_mem)

lemma byte_bits_eqI:
  fixes a b :: byte
  assumes "bit a 0 = bit b 0" "bit a 1 = bit b 1" "bit a 2 = bit b 2" "bit a 3 = bit b 3"
    "bit a 4 = bit b 4" "bit a 5 = bit b 5" "bit a 6 = bit b 6" "bit a 7 = bit b 7"
  shows "a = b"
proof (rule bit_word_eqI)
  fix n assume "n < LENGTH(8)"
  then have "n = 0 \<or> n = 1 \<or> n = 2 \<or> n = 3 \<or> n = 4 \<or> n = 5 \<or> n = 6 \<or> n = 7" by auto
  with assms show "bit a n = bit b n" by auto
qed

lemma word_bits_63: "bit (w AND (63 :: u32)) n \<longleftrightarrow> n < 6 \<and> bit w n"
proof -
  have m: "(63 :: u32) = mask 6" by (simp add: mask_eq_exp_minus_1)
  show ?thesis unfolding m by (auto simp: bit_and_iff bit_mask_iff)
qed

lemma word_bits_31: "bit (w AND (31 :: u32)) n \<longleftrightarrow> n < 5 \<and> bit w n"
proof -
  have m: "(31 :: u32) = mask 5" by (simp add: mask_eq_exp_minus_1)
  show ?thesis unfolding m by (auto simp: bit_and_iff bit_mask_iff)
qed

lemma byte_high: "8 \<le> n \<Longrightarrow> \<not> bit b n" for b :: byte
  using bit_imp_le_length [of b n] by auto

lemmas word_bits = bit_or_iff bit_push_bit_iff bit_drop_bit_eq bit_unsigned_iff word_bits_63 word_bits_31

lemma base64_group:
  fixes a b c :: byte
  defines "v \<equiv> push_bit 16 (ucast a :: u32) OR push_bit 8 (ucast b) OR ucast c"
  defines "u \<equiv> push_bit 18 (drop_bit 18 v AND 63) OR push_bit 12 (drop_bit 12 v AND 63) OR push_bit 6 (drop_bit 6 v AND 63) OR (v AND 63)"
  shows "ucast (drop_bit 16 u) = a" "ucast (drop_bit 8 u) = b" "ucast u = c"
  by (rule byte_bits_eqI; unfold u_def v_def word_bits; simp add: byte_high eval_nat_numeral)+

lemma base64_group2:
  fixes a b :: byte
  defines "v \<equiv> push_bit 16 (ucast a :: u32) OR push_bit 8 (ucast b)"
  defines "u \<equiv> push_bit 18 (drop_bit 18 v AND 63) OR push_bit 12 (drop_bit 12 v AND 63) OR push_bit 6 (drop_bit 6 v AND 63)"
  shows "ucast (drop_bit 16 u) = a" "ucast (drop_bit 8 u) = b"
  by (rule byte_bits_eqI; unfold u_def v_def word_bits; simp add: byte_high eval_nat_numeral)+

lemma base64_group1:
  fixes a :: byte
  defines "v \<equiv> push_bit 16 (ucast a :: u32)"
  shows "ucast (drop_bit 16 (push_bit 18 (drop_bit 18 v AND 63) OR push_bit 12 (drop_bit 12 v AND 63))) = a"
  by (rule byte_bits_eqI; unfold v_def word_bits; simp add: byte_high eval_nat_numeral)

lemma map_filter_simps':
  "List.map_filter f (x # xs) = (case f x of None \<Rightarrow> List.map_filter f xs | Some y \<Rightarrow> y # List.map_filter f xs)"
  "List.map_filter f [] = []"
  by (simp_all add: List.map_filter_simps split: option.splits)

lemma sextets_encode: "sextets_bytes (List.map_filter sextet (base64url_encode bs)) = bs"
  by (induction bs rule: base64url_encode.induct)
    (simp_all add: Let_def map_filter_simps' sextet_nth and_mask_less base64_group base64_group2 base64_group1
      del: push_bit_or push_bit_and drop_bit_or drop_bit_and)

lemma base64url_decode_encode [simp]: "base64url_decode (base64url_encode bs) = bs"
proof -
  have "takeWhile (\<lambda>c. c \<noteq> CHR ''='') (base64url_encode bs) = base64url_encode bs"
    using encode_chars [of _ bs] BASE64URL_chars by (simp add: takeWhile_eq_all_conv)
  then show ?thesis unfolding base64url_decode_def by (simp only: sextets_encode)
qed

section \<open>Base32\<close>

definition BASE32 :: string where
  "BASE32 = ''ABCDEFGHIJKLMNOPQRSTUVWXYZ234567''"

definition base32_letter :: "u32 \<Rightarrow> char" where
  "base32_letter v = BASE32 ! unat (v AND 31)"

text \<open>The inner loop of the encoder: the letters it appends and the number of bits left.\<close>

fun base32_emit :: "u32 \<Rightarrow> nat \<Rightarrow> string \<times> nat" where
  "base32_emit value bits =
     (if bits \<ge> 5
      then (case base32_emit value (bits - 5) of (out, rest) \<Rightarrow> (base32_letter (drop_bit (bits - 5) value) # out, rest))
      else ([], bits))"

declare base32_emit.simps [simp del]

fun base32_encode_loop :: "u32 \<Rightarrow> nat \<Rightarrow> byte list \<Rightarrow> string" where
  "base32_encode_loop value bits [] = (if bits > 0 then [base32_letter (push_bit (5 - bits) value)] else [])"
| "base32_encode_loop value bits (b # buf) =
     (let value' = push_bit 8 value OR ucast b in
      case base32_emit value' (bits + 8) of (out, rest) \<Rightarrow> out @ base32_encode_loop value' rest buf)"

definition base32Encode :: "byte list \<Rightarrow> string" where
  "base32Encode buf = base32_encode_loop 0 0 buf"

fun base32_decode_loop :: "u32 \<Rightarrow> nat \<Rightarrow> string \<Rightarrow> byte list" where
  "base32_decode_loop value bits [] = []"
| "base32_decode_loop value bits (c # cs) =
     (case index_of BASE32 c of
        None \<Rightarrow> base32_decode_loop value bits cs
      | Some idx \<Rightarrow>
          let value' = push_bit 5 value OR word_of_nat idx; bits' = bits + 5 in
          if bits' \<ge> 8 then ucast (drop_bit (bits' - 8) value' AND 0xFF) # base32_decode_loop value' (bits' - 8) cs
          else base32_decode_loop value' bits' cs)"

text \<open>\<open>s.toUpperCase().replace(/=+$/, "")\<close>\<close>

definition base32_clean :: "string \<Rightarrow> string" where
  "base32_clean s = rev (dropWhile (\<lambda>c. c = CHR ''='') (rev (toUpperCase s)))"

definition base32Decode :: "string \<Rightarrow> byte list" where
  "base32Decode s = base32_decode_loop 0 0 (base32_clean s)"

lemma distinct_BASE32: "distinct BASE32" "length BASE32 = 32"
  by code_simp+

lemma index_BASE32: "n < 32 \<Longrightarrow> index_of BASE32 (BASE32 ! n) = Some n"
  using index_of_nth [OF distinct_BASE32(1)] distinct_BASE32(2) by simp

lemma word_bits_255: "bit (w AND (255 :: u32)) n \<longleftrightarrow> n < 8 \<and> bit w n"
proof -
  have m: "(255 :: u32) = mask 8" by (simp add: mask_eq_exp_minus_1)
  show ?thesis unfolding m by (auto simp: bit_and_iff bit_mask_iff)
qed

lemma index_letter: "index_of BASE32 (base32_letter v) = Some (unat (v AND 31))"
  by (simp add: base32_letter_def index_BASE32 and_mask_less)

lemmas base32_bits = word_bits word_bits_255

text \<open>While \<open>b\<close> bits of a byte wait in the encoder, the other \<open>8 - b\<close> bits wait in the decoder.\<close>

definition waiting :: "u32 \<Rightarrow> u32 \<Rightarrow> nat \<Rightarrow> byte" where
  "waiting w v b = ucast (push_bit b w OR take_bit b v)"

lemma base32_flush:
  assumes "0 < b" "b < 5"
  shows "base32_decode_loop w (8 - b) (base32_encode_loop v b []) = [waiting w v b]"
proof -
  have "ucast (drop_bit (5 - b) (push_bit 5 w OR (push_bit (5 - b) v AND 31)) AND 0xFF) = waiting w v b"
  proof -
    from assms consider "b = 1" | "b = 2" | "b = 3" | "b = 4" by linarith
    then show ?thesis
      by cases (rule byte_bits_eqI; unfold waiting_def base32_bits bit_take_bit_iff; simp add: eval_nat_numeral)+
  qed
  moreover have "8 - b + 5 \<ge> 8" "8 - b + 5 - 8 = 5 - b" using assms by auto
  ultimately show ?thesis using assms by (simp add: index_letter Let_def del: push_bit_or push_bit_and drop_bit_or drop_bit_and)
qed

lemma base32_emits:
  "base32_emit v 8 = ([base32_letter (drop_bit 3 v)], 3)"
  "base32_emit v 9 = ([base32_letter (drop_bit 4 v)], 4)"
  "base32_emit v 10 = ([base32_letter (drop_bit 5 v), base32_letter (drop_bit 0 v)], 0)"
  "base32_emit v 11 = ([base32_letter (drop_bit 6 v), base32_letter (drop_bit 1 v)], 1)"
  "base32_emit v 12 = ([base32_letter (drop_bit 7 v), base32_letter (drop_bit 2 v)], 2)"
  by (simp_all add: base32_emit.simps del: drop_bit_of_0)

text \<open>One byte through the encoder and the decoder, for each number of waiting bits.\<close>

lemma base32_byte0:
  fixes w v v' :: u32 and x :: byte
  defines "v' \<equiv> push_bit 8 v OR ucast x"
  shows "waiting (push_bit 5 w OR (drop_bit 3 v' AND 31)) v' 3 = x"
  by (rule byte_bits_eqI; unfold v'_def waiting_def base32_bits bit_take_bit_iff; simp add: byte_high eval_nat_numeral)

lemma base32_byte1:
  fixes w v v' w' :: u32 and x :: byte
  defines "v' \<equiv> push_bit 8 v OR ucast x" and "w' \<equiv> push_bit 5 w OR (drop_bit 4 v' AND 31)"
  shows "ucast (drop_bit 4 w' AND 0xFF) = waiting w v 1" "waiting w' v' 4 = x"
  by (rule byte_bits_eqI; unfold w'_def v'_def waiting_def base32_bits bit_take_bit_iff; simp add: byte_high eval_nat_numeral)+

lemma base32_byte2:
  fixes w v v' w' :: u32 and x :: byte
  defines "v' \<equiv> push_bit 8 v OR ucast x" and "w' \<equiv> push_bit 5 w OR (drop_bit 5 v' AND 31)"
  shows "ucast (drop_bit 3 w' AND 0xFF) = waiting w v 2" "ucast (drop_bit 0 (push_bit 5 w' OR (drop_bit 0 v' AND 31)) AND 0xFF) = x"
  by (rule byte_bits_eqI; unfold w'_def v'_def waiting_def base32_bits bit_take_bit_iff; simp add: byte_high eval_nat_numeral)+

lemma base32_byte3:
  fixes w v v' w' :: u32 and x :: byte
  defines "v' \<equiv> push_bit 8 v OR ucast x" and "w' \<equiv> push_bit 5 w OR (drop_bit 6 v' AND 31)"
  shows "ucast (drop_bit 2 w' AND 0xFF) = waiting w v 3" "waiting (push_bit 5 w' OR (drop_bit 1 v' AND 31)) v' 1 = x"
  by (rule byte_bits_eqI; unfold w'_def v'_def waiting_def base32_bits bit_take_bit_iff; simp add: byte_high eval_nat_numeral)+

lemma base32_byte4:
  fixes w v v' w' :: u32 and x :: byte
  defines "v' \<equiv> push_bit 8 v OR ucast x" and "w' \<equiv> push_bit 5 w OR (drop_bit 7 v' AND 31)"
  shows "ucast (drop_bit 1 w' AND 0xFF) = waiting w v 4" "waiting (push_bit 5 w' OR (drop_bit 2 v' AND 31)) v' 2 = x"
  by (rule byte_bits_eqI; unfold w'_def v'_def waiting_def base32_bits bit_take_bit_iff; simp add: byte_high eval_nat_numeral)+

lemma base32_loops:
  "base32_decode_loop w 0 (base32_encode_loop v 0 bs) = bs"
  "0 < b \<Longrightarrow> b < 5 \<Longrightarrow> base32_decode_loop w (8 - b) (base32_encode_loop v b bs) = waiting w v b # bs"
proof (induction bs arbitrary: w v b)
  case Nil
  { case 1 show ?case by simp }
  { case 2 then show ?case by (rule base32_flush) }
next
  case (Cons x bs)
  { case 1
    let ?v = "push_bit 8 v OR ucast x"
    have "base32_decode_loop (push_bit 5 w OR (drop_bit 3 ?v AND 31)) (8 - 3) (base32_encode_loop ?v 3 bs) = x # bs"
      using Cons.IH(2) [of 3 "push_bit 5 w OR (drop_bit 3 ?v AND 31)" ?v] base32_byte0 [where w = w and v = v and x = x] by simp
    then show ?case
      by (simp add: base32_emits index_letter Let_def del: push_bit_or push_bit_and drop_bit_or drop_bit_and) }
  { case 2
    let ?v = "push_bit 8 v OR ucast x"
    from 2 consider "b = 1" | "b = 2" | "b = 3" | "b = 4" by linarith
    then show ?case
    proof cases
      case 1
      then show ?thesis using Cons.IH(2) [of 4 _ ?v] base32_byte1 [where w = w and v = v and x = x]
        by (simp add: base32_emits index_letter Let_def del: push_bit_or push_bit_and drop_bit_or drop_bit_and)
    next
      case 2
      then show ?thesis using Cons.IH(1) [of _ ?v] base32_byte2 [where w = w and v = v and x = x]
        by (simp add: base32_emits index_letter Let_def del: push_bit_or push_bit_and drop_bit_or drop_bit_and)
    next
      case 3
      then show ?thesis using Cons.IH(2) [of 1 _ ?v] base32_byte3 [where w = w and v = v and x = x]
        by (simp add: base32_emits index_letter Let_def del: push_bit_or push_bit_and drop_bit_or drop_bit_and)
    next
      case 4
      then show ?thesis using Cons.IH(2) [of 2 _ ?v] base32_byte4 [where w = w and v = v and x = x]
        by (simp add: base32_emits index_letter Let_def del: push_bit_or push_bit_and drop_bit_or drop_bit_and)
    qed }
qed

lemma upper_BASE32: "c \<in> set BASE32 \<Longrightarrow> upper_char c = c \<and> c \<noteq> CHR ''=''"
proof -
  have "list_all (\<lambda>c. upper_char c = c \<and> c \<noteq> CHR ''='') BASE32" by code_simp
  then show "c \<in> set BASE32 \<Longrightarrow> upper_char c = c \<and> c \<noteq> CHR ''=''" by (simp add: list_all_iff)
qed

lemma letter_in: "base32_letter v \<in> set BASE32"
  by (simp add: base32_letter_def distinct_BASE32(2) and_mask_less)

lemma emit_chars: "set (fst (base32_emit v b)) \<subseteq> set BASE32"
  by (induction v b rule: base32_emit.induct) (subst base32_emit.simps, auto simp: letter_in split: prod.splits)

lemma encode_loop_chars: "set (base32_encode_loop v b bs) \<subseteq> set BASE32"
proof (induction v b bs rule: base32_encode_loop.induct)
  case (2 v b x bs)
  obtain out rest where e: "base32_emit (push_bit 8 v OR ucast x) (b + 8) = (out, rest)" by fastforce
  with 2 [OF refl e [symmetric]] emit_chars [of "push_bit 8 v OR ucast x" "b + 8"] show ?case by (simp add: Let_def)
qed (auto simp: letter_in)

text \<open>C21. A secret read back from its base32 form is the secret that was generated: the decoder inverts the encoder on
  every byte string.\<close>

theorem base32_roundtrip: "base32Decode (base32Encode bs) = bs"
proof -
  have c: "\<forall>c \<in> set (base32Encode bs). upper_char c = c \<and> c \<noteq> CHR ''=''"
    using encode_loop_chars [of 0 0 bs] upper_BASE32 unfolding base32Encode_def by blast
  then have "toUpperCase (base32Encode bs) = base32Encode bs" by (simp add: toUpperCase_def map_idI)
  moreover have "dropWhile (\<lambda>c. c = CHR ''='') (rev (base32Encode bs)) = rev (base32Encode bs)"
    using c by (cases "base32Encode bs" rule: rev_cases) auto
  ultimately have "base32_clean (base32Encode bs) = base32Encode bs" by (simp add: base32_clean_def)
  then show ?thesis by (simp add: base32Decode_def base32Encode_def base32_loops(1))
qed

section \<open>Passwords\<close>

definition SCRYPT_N :: int where
  "SCRYPT_N = 65536"

definition SCRYPT_R :: int where
  "SCRYPT_R = 8"

definition SCRYPT_P :: int where
  "SCRYPT_P = 1"

definition SCRYPT_KEYLEN :: nat where
  "SCRYPT_KEYLEN = 32"

fun split_on :: "char \<Rightarrow> string \<Rightarrow> string list" where
  "split_on c [] = [[]]"
| "split_on c (x # xs) = (if x = c then [] # split_on c xs else (x # hd (split_on c xs)) # tl (split_on c xs))"

text \<open>\<open>Number(s)\<close> for a plain decimal numeral, which is what \<open>hashPassword\<close> writes; every other string is taken for \<open>NaN\<close>.\<close>

definition js_Number :: "string \<Rightarrow> int option" where
  "js_Number s = (if list_all is_digit s then Some (int (read_nat s)) else None)"

definition hashPassword :: "crypto \<Rightarrow> byte list \<Rightarrow> string \<Rightarrow> app_error + string" where
  "hashPassword cr salt password =
     (case cr_scrypt cr (cr_nfkc cr password) salt SCRYPT_KEYLEN (Some SCRYPT_N, Some SCRYPT_R, Some SCRYPT_P) of
        None \<Rightarrow> Inl (JsError ''scrypt failed'')
      | Some key \<Rightarrow> Inr (''scrypt$'' @ show_int SCRYPT_N @ ''$'' @ show_int SCRYPT_R @ ''$'' @ show_int SCRYPT_P @ ''$''
          @ base64url_encode salt @ ''$'' @ base64url_encode key))"

definition verifyPassword :: "crypto \<Rightarrow> string \<Rightarrow> string \<Rightarrow> bool" where
  "verifyPassword cr password stored =
     (case split_on (CHR ''$'') stored of
        [algo, n, r, p, saltB64, hashB64] \<Rightarrow>
          algo = ''scrypt'' \<and>
          (let expected = base64url_decode hashB64 in
           case cr_scrypt cr (cr_nfkc cr password) (base64url_decode saltB64) (length expected) (js_Number n, js_Number r, js_Number p) of
             None \<Rightarrow> False
           | Some actual \<Rightarrow> length actual = length expected \<and> actual = expected)
      | _ \<Rightarrow> False)"

definition nth_opt :: "'a list \<Rightarrow> nat \<Rightarrow> 'a option" where
  "nth_opt xs i = (if i < length xs then Some (xs ! i) else None)"

definition below :: "string option \<Rightarrow> int \<Rightarrow> bool" where
  "below part m = (case Option.bind part js_Number of Some n \<Rightarrow> n < m | None \<Rightarrow> False)"

definition needsRehash :: "string \<Rightarrow> bool" where
  "needsRehash stored =
     (let ps = split_on (CHR ''$'') stored in
      nth_opt ps 0 \<noteq> Some ''scrypt'' \<or> below (nth_opt ps 1) SCRYPT_N \<or> below (nth_opt ps 2) SCRYPT_R \<or> below (nth_opt ps 3) SCRYPT_P)"

lemma split_on_append: "c \<notin> set a \<Longrightarrow> split_on c (a @ c # b) = a # split_on c b"
  by (induction a) auto

lemma split_on_last: "c \<notin> set a \<Longrightarrow> split_on c a = [a]"
  by (induction a) auto

lemma dollar_not_in: "CHR ''$'' \<notin> set (base64url_encode bs)"
  using encode_chars [of "CHR ''$''" bs] BASE64URL_chars [of "CHR ''$''"] by blast

lemma hash_parts:
  "split_on (CHR ''$'') (''scrypt$65536$8$1$'' @ base64url_encode salt @ ''$'' @ base64url_encode key) =
     [''scrypt'', ''65536'', ''8'', ''1'', base64url_encode salt, base64url_encode key]"
  using split_on_append [OF dollar_not_in, of salt "base64url_encode key"] by (simp add: split_on_last dollar_not_in)

lemma shown_parameters: "show_int SCRYPT_N = ''65536''" "show_int SCRYPT_R = ''8''" "show_int SCRYPT_P = ''1''"
  by (simp_all add: SCRYPT_N_def SCRYPT_R_def SCRYPT_P_def show_int_def show_nat.simps digit_char_def char_of_def bit_Suc_0_iff)

lemma read_parameters: "js_Number ''65536'' = Some SCRYPT_N" "js_Number ''8'' = Some SCRYPT_R" "js_Number ''1'' = Some SCRYPT_P"
  by (simp_all add: js_Number_def read_nat_def digit_val_def is_digit_def SCRYPT_N_def SCRYPT_R_def SCRYPT_P_def)

text \<open>A stored hash accepts exactly the passwords with the same derived key, and is not hashed again.\<close>

lemma verifyPassword_hash:
  assumes "hashPassword cr salt p = Inr h"
    and "\<And>q s l ps k. cr_scrypt cr q s l ps = Some k \<Longrightarrow> length k = l"
  shows "verifyPassword cr q h \<longleftrightarrow>
      cr_scrypt cr (cr_nfkc cr q) salt SCRYPT_KEYLEN (Some SCRYPT_N, Some SCRYPT_R, Some SCRYPT_P) =
      cr_scrypt cr (cr_nfkc cr p) salt SCRYPT_KEYLEN (Some SCRYPT_N, Some SCRYPT_R, Some SCRYPT_P)"
    and "\<not> needsRehash h"
proof -
  from assms(1) obtain key where k: "cr_scrypt cr (cr_nfkc cr p) salt SCRYPT_KEYLEN (Some SCRYPT_N, Some SCRYPT_R, Some SCRYPT_P) = Some key"
    and h: "h = ''scrypt$65536$8$1$'' @ base64url_encode salt @ ''$'' @ base64url_encode key"
    by (auto simp: hashPassword_def shown_parameters split: option.splits)
  have l: "length key = SCRYPT_KEYLEN" using assms(2) [OF k] .
  show "verifyPassword cr q h \<longleftrightarrow>
      cr_scrypt cr (cr_nfkc cr q) salt SCRYPT_KEYLEN (Some SCRYPT_N, Some SCRYPT_R, Some SCRYPT_P) =
      cr_scrypt cr (cr_nfkc cr p) salt SCRYPT_KEYLEN (Some SCRYPT_N, Some SCRYPT_R, Some SCRYPT_P)"
    unfolding verifyPassword_def h hash_parts k by (auto simp: Let_def read_parameters l split: option.splits)
  show "\<not> needsRehash h"
    unfolding needsRehash_def h hash_parts by (simp add: nth_opt_def below_def read_parameters)
qed

section \<open>Tokens\<close>

definition hashToken :: "crypto \<Rightarrow> string \<Rightarrow> string" where
  "hashToken cr token = cr_sha256 cr token"

definition tokensMatch :: "string \<Rightarrow> string \<Rightarrow> bool" where
  "tokensMatch a b \<longleftrightarrow> length a = length b \<and> a = b"

lemma tokensMatch_eq [simp]: "tokensMatch a b \<longleftrightarrow> a = b"
  by (auto simp: tokensMatch_def)

section \<open>Time-based codes\<close>

definition TOTP_STEP_SECONDS :: int where
  "TOTP_STEP_SECONDS = 30"

definition TOTP_DIGITS :: nat where
  "TOTP_DIGITS = 6"

definition TOTP_WINDOW :: int where
  "TOTP_WINDOW = 1"

definition generateTotpSecret :: "byte list \<Rightarrow> string" where
  "generateTotpSecret random = base32Encode random"

text \<open>\<open>writeBigUInt64BE\<close> throws outside the unsigned 64-bit range.\<close>

definition counter_bytes :: "int \<Rightarrow> app_error + byte list" where
  "counter_bytes step =
     (if 0 \<le> step \<and> step < 2 ^ 64
      then Inr (map (\<lambda>i. word_of_int (step div 256 ^ (7 - i))) [0..<8])
      else Inl (JsError ''The value of \"value\" is out of range''))"

text \<open>An absent element of a buffer is \<open>undefined\<close>, which masks to 0.\<close>

definition byte_at :: "byte list \<Rightarrow> nat \<Rightarrow> nat" where
  "byte_at d i = (if i < length d then unat (d ! i) else 0)"

definition totp_offset :: "byte list \<Rightarrow> nat" where
  "totp_offset d = (if d = [] then 0 else unat (last d) mod 16)"

definition totp_binary :: "byte list \<Rightarrow> nat" where
  "totp_binary d =
     (let i = totp_offset d in (byte_at d i mod 128) * 2 ^ 24 + byte_at d (i + 1) * 2 ^ 16 + byte_at d (i + 2) * 2 ^ 8 + byte_at d (i + 3))"

definition totpCode :: "crypto \<Rightarrow> string \<Rightarrow> int \<Rightarrow> app_error + string" where
  "totpCode cr secretBase32 step =
     rbind (counter_bytes step) (\<lambda>counter.
       Inr (padStart TOTP_DIGITS (CHR ''0'') (show_nat (totp_binary (cr_hmac_sha1 cr (base32Decode secretBase32) counter) mod 10 ^ TOTP_DIGITS))))"

definition currentTotpStep :: "int \<Rightarrow> int" where
  "currentTotpStep now = now div 1000 div TOTP_STEP_SECONDS"

definition js_space :: "char \<Rightarrow> bool" where
  "js_space c \<longleftrightarrow> (of_char c :: nat) \<in> {9, 10, 11, 12, 13, 32, 160}"

definition totp_clean :: "string \<Rightarrow> string" where
  "totp_clean code = filter (\<lambda>c. \<not> js_space c) code"

fun totp_search :: "crypto \<Rightarrow> string \<Rightarrow> string \<Rightarrow> int option \<Rightarrow> int list \<Rightarrow> app_error + int option" where
  "totp_search cr secret cleaned lastStep [] = Inr None"
| "totp_search cr secret cleaned lastStep (step # steps) =
     (if (case lastStep of Some l \<Rightarrow> step \<le> l | None \<Rightarrow> False) then totp_search cr secret cleaned lastStep steps
      else rbind (totpCode cr secret step) (\<lambda>expected.
        if tokensMatch expected cleaned then Inr (Some step) else totp_search cr secret cleaned lastStep steps))"

text \<open>\<open>Inr (Some step)\<close> is \<open>{ ok: true, step }\<close>, \<open>Inr None\<close> is \<open>{ ok: false }\<close>.\<close>

definition verifyTotp :: "crypto \<Rightarrow> string \<Rightarrow> string \<Rightarrow> int \<Rightarrow> int option \<Rightarrow> app_error + int option" where
  "verifyTotp cr secretBase32 code now lastStep =
     (let cleaned = totp_clean code in
      if length cleaned \<noteq> 6 \<or> \<not> list_all is_digit cleaned then Inr None
      else totp_search cr secretBase32 cleaned lastStep
        (map (\<lambda>drift. currentTotpStep now + drift) [- TOTP_WINDOW..TOTP_WINDOW]))"

lemma totp_search_Some:
  "totp_search cr secret code l steps = Inr (Some k) \<Longrightarrow>
   k \<in> set steps \<and> totpCode cr secret k = Inr code \<and> (\<forall>m. l = Some m \<longrightarrow> m < k)"
  by (induction cr secret code l steps rule: totp_search.induct)
    (auto simp: rbind_Inr_iff split: if_splits option.splits)

lemma verifyTotp_Some:
  assumes "verifyTotp cr secret code now l = Inr (Some k)"
  shows "totpCode cr secret k = Inr (totp_clean code)" "\<And>m. l = Some m \<Longrightarrow> m < k" "\<bar>k - currentTotpStep now\<bar> \<le> 1"
proof -
  from assms have s: "totp_search cr secret (totp_clean code) l (map (\<lambda>d. currentTotpStep now + d) [- TOTP_WINDOW..TOTP_WINDOW]) = Inr (Some k)"
    by (auto simp: verifyTotp_def Let_def split: if_splits)
  from totp_search_Some [OF s] show "totpCode cr secret k = Inr (totp_clean code)" "\<And>m. l = Some m \<Longrightarrow> m < k" "\<bar>k - currentTotpStep now\<bar> \<le> 1"
    by (auto simp: TOTP_WINDOW_def)
qed

text \<open>The codes of RFC 6238 have six digits.\<close>

lemma totpCode_digits:
  assumes "totpCode cr secret step = Inr code"
  shows "length code = 6" "list_all is_digit code"
proof -
  define n where "n = totp_binary (cr_hmac_sha1 cr (base32Decode secret) (the (case counter_bytes step of Inr x \<Rightarrow> Some x | _ \<Rightarrow> None))) mod 10 ^ TOTP_DIGITS"
  from assms have code: "code = padStart TOTP_DIGITS (CHR ''0'') (show_nat n)"
    by (auto simp: totpCode_def rbind_Inr_iff n_def)
  have "n < 10 ^ 6" by (simp add: n_def TOTP_DIGITS_def)
  moreover have "k > 0 \<Longrightarrow> m < 10 ^ k \<Longrightarrow> length (show_nat m) \<le> k" for k m
  proof (induction k arbitrary: m)
    case (Suc k)
    show ?case
    proof (cases "m < 10")
      case True
      then show ?thesis by (subst show_nat.simps) simp
    next
      case False
      with Suc.prems have "k > 0" "m div 10 < 10 ^ k" by (cases k; simp add: less_mult_imp_div_less)+
      with Suc.IH [of "m div 10"] False show ?thesis by (subst show_nat.simps) simp
    qed
  qed simp
  ultimately have "length (show_nat n) \<le> 6" by simp
  then show "length code = 6" by (simp add: code padStart_def TOTP_DIGITS_def)
  show "list_all is_digit code"
    using show_nat_digits [of _ n] by (auto simp: code padStart_def list_all_iff is_digit_def)
qed

section \<open>Recovery codes\<close>

definition recovery_alphabet :: string where
  "recovery_alphabet = ''abcdefghijkmnpqrstuvwxyz23456789''"

definition recovery_code :: "nat list \<Rightarrow> string" where
  "recovery_code picks =
     (let raw = map (\<lambda>i. recovery_alphabet ! i) picks
      in take 4 raw @ ''-'' @ take 4 (drop 4 raw) @ ''-'' @ take 4 (drop 8 raw))"

text \<open>Each element of the argument holds the twelve random picks of one code.\<close>

definition generateRecoveryCodes :: "nat list list \<Rightarrow> string list" where
  "generateRecoveryCodes picks = map recovery_code picks"

section \<open>Roles\<close>

datatype PrincipalKind = Operator | Tenant_user

definition OPERATOR_ROLES :: "string list" where
  "OPERATOR_ROLES = [''owner'', ''operator'', ''viewer'']"

definition TENANT_ROLES :: "string list" where
  "TENANT_ROLES = [''admin'', ''member'', ''viewer'']"

definition PERMISSIONS :: "string list" where
  "PERMISSIONS = [''admin.read'', ''admin.tenants.manage'', ''admin.operators.manage'', ''admin.killswitch'', ''admin.treasury'',
     ''tenant.read'', ''tenant.move_funds'', ''tenant.approve'', ''tenant.users.manage'']"

definition OPERATOR_PERMISSIONS :: "(string, string list) jsmap" where
  "OPERATOR_PERMISSIONS =
     [(''owner'', [''admin.read'', ''admin.tenants.manage'', ''admin.operators.manage'', ''admin.killswitch'', ''admin.treasury'']),
      (''operator'', [''admin.read'', ''admin.tenants.manage'', ''admin.killswitch'']),
      (''viewer'', [''admin.read''])]"

definition TENANT_PERMISSIONS :: "(string, string list) jsmap" where
  "TENANT_PERMISSIONS =
     [(''admin'', [''tenant.read'', ''tenant.move_funds'', ''tenant.approve'', ''tenant.users.manage'']),
      (''member'', [''tenant.read'', ''tenant.move_funds'']),
      (''viewer'', [''tenant.read''])]"

definition TOTP_REQUIRED :: "string list" where
  "TOTP_REQUIRED = [''owner'', ''operator'', ''admin'', ''member'']"

definition requiresTotp :: "string \<Rightarrow> bool" where
  "requiresTotp role \<longleftrightarrow> role \<in> set TOTP_REQUIRED"

definition permissionsFor :: "PrincipalKind \<Rightarrow> string \<Rightarrow> string list" where
  "permissionsFor kind role =
     (case kind of
        Operator \<Rightarrow> map_get_or OPERATOR_PERMISSIONS role []
      | Tenant_user \<Rightarrow> map_get_or TENANT_PERMISSIONS role [])"

definition roles_of :: "PrincipalKind \<Rightarrow> string list" where
  "roles_of kind = (case kind of Operator \<Rightarrow> OPERATOR_ROLES | Tenant_user \<Rightarrow> TENANT_ROLES)"

definition kind_name :: "PrincipalKind \<Rightarrow> string" where
  "kind_name kind = (case kind of Operator \<Rightarrow> ''operator'' | Tenant_user \<Rightarrow> ''tenant_user'')"

definition parseRole :: "PrincipalKind \<Rightarrow> string \<Rightarrow> app_error + string" where
  "parseRole kind role =
     (if role \<in> set (roles_of kind) then Inr role else Inl (AppError INVALID_ROLE (''Unknown '' @ kind_name kind @ '' role '' @ json_string role
       @ ''. Valid roles are '' @ join_with '', '' (roles_of kind) @ ''.'') True))"

definition scopesForTenantRole :: "string \<Rightarrow> string list" where
  "scopesForTenantRole role =
     (let perms = map_get_or TENANT_PERMISSIONS role [] in
      (if ''tenant.read'' \<in> set perms then [''read''] else []) @
      (if ''tenant.move_funds'' \<in> set perms then [''move-funds''] else []) @
      (if ''tenant.approve'' \<in> set perms then [''approve''] else []))"

text \<open>Every role that can move funds, approve, or act on the control plane needs a second factor; only viewers do not.\<close>

lemma permissions_need_totp:
  "p \<in> set (permissionsFor kind role) \<Longrightarrow> p \<noteq> ''admin.read'' \<Longrightarrow> p \<noteq> ''tenant.read'' \<Longrightarrow> requiresTotp role"
  by (auto simp: permissionsFor_def map_get_or_def OPERATOR_PERMISSIONS_def TENANT_PERMISSIONS_def requiresTotp_def TOTP_REQUIRED_def
      split: PrincipalKind.splits if_splits)

section \<open>An instance\<close>

text \<open>A small instance of the primitives: a derived key that depends on the length of the password, hashes that tag their
  input, and codes that are the low digits of the step.\<close>

definition ex_crypto :: crypto where
  "ex_crypto = \<lparr>cr_scrypt = (\<lambda>p salt n ps. Some (replicate n (word_of_nat (length p)))), cr_nfkc = (\<lambda>p. p),
     cr_sha256 = (\<lambda>s. CHR ''#'' # s), cr_hmac_sha1 = (\<lambda>k c. c @ replicate 11 0 @ [4])\<rparr>"

end
