(* ===== verification/Auth_Store.thy ===== *)
theory Auth_Store
  imports Auth_Crypto
begin

text \<open>
  Principals, second factors and sessions: \<open>AuthStore\<close> (\<open>src/stores/auth.store.ts\<close>) over the tables of
  \<open>src/schemas/sql/auth.schema.ts\<close>, queried by \<open>src/queries/auth.queries.ts\<close>.

  A table is the list of its rows in insertion order. The clock of an operation is one value, also where the
  database stamps a row; identifiers, tokens and salts are arguments. Constraints of the schema that an
  insertion violates are exceptions of the database.
\<close>

section \<open>Tables\<close>

datatype principal_status = Active | Disabled

record PrincipalRow =
  pr_id :: string
  pr_kind :: PrincipalKind
  pr_tenant_id :: "string option"
  pr_email :: string
  pr_password_hash :: string
  pr_role :: string
  pr_status :: principal_status
  pr_must_change_password :: bool
  pr_failed_logins :: int
  pr_locked_until :: "int option"
  pr_last_login_at :: "int option"
  pr_created_at :: int
  pr_disabled_at :: "int option"

record totp_row =
  tt_principal_id :: string
  tt_secret :: string
  tt_confirmed_at :: "int option"
  tt_last_step :: "int option"

record recovery_row =
  rv_principal_id :: string
  rv_code_hash :: string
  rv_used_at :: "int option"

record session_row =
  ss_id :: string
  ss_principal_id :: string
  ss_token_hash :: string
  ss_csrf_token :: string
  ss_created_at :: int
  ss_last_seen_at :: int
  ss_idle_expires_at :: int
  ss_expires_at :: int
  ss_revoked_at :: "int option"
  ss_revoked_reason :: "string option"
  ss_ip :: "string option"
  ss_user_agent :: "string option"

record attempt_row =
  at_at :: int
  at_email :: "string option"
  at_principal_id :: "string option"
  at_kind :: string
  at_outcome :: string
  at_ip :: "string option"
  at_user_agent :: "string option"
  at_detail :: "string option"

record auth_db =
  ad_tenants :: "string list"
  ad_principals :: "PrincipalRow list"
  ad_totps :: "totp_row list"
  ad_codes :: "recovery_row list"
  ad_sessions :: "session_row list"
  ad_attempts :: "attempt_row list"

definition auth_db_init :: "string list \<Rightarrow> auth_db" where
  "auth_db_init tenants = \<lparr>ad_tenants = tenants, ad_principals = [], ad_totps = [], ad_codes = [], ad_sessions = [], ad_attempts = []\<rparr>"

record Principal =
  pn_id :: string
  pn_kind :: PrincipalKind
  pn_tenantId :: "string option"
  pn_email :: string
  pn_role :: string
  pn_status :: principal_status
  pn_mustChangePassword :: bool
  pn_totpConfirmed :: bool

record Session =
  sn_id :: string
  sn_principalId :: string
  sn_createdAt :: int
  sn_lastSeenAt :: int
  sn_expiresAt :: int
  sn_idleExpiresAt :: int
  sn_ip :: "string option"
  sn_userAgent :: "string option"

record SessionConfig =
  sc_absoluteMs :: int
  sc_idleMs :: int
  sc_maxFailedLogins :: int
  sc_lockoutMs :: int

definition DEFAULT_SESSION_CONFIG :: SessionConfig where
  "DEFAULT_SESSION_CONFIG = \<lparr>sc_absoluteMs = 12 * 60 * 60000, sc_idleMs = 30 * 60000, sc_maxFailedLogins = 5, sc_lockoutMs = 15 * 60000\<rparr>"

section \<open>Queries\<close>

definition totp_of :: "auth_db \<Rightarrow> string \<Rightarrow> totp_row option" where
  "totp_of db pid = find (\<lambda>t. tt_principal_id t = pid) (ad_totps db)"

definition totp_confirmed :: "auth_db \<Rightarrow> string \<Rightarrow> bool" where
  "totp_confirmed db pid = (case totp_of db pid of Some t \<Rightarrow> tt_confirmed_at t \<noteq> None | None \<Rightarrow> False)"

definition toPrincipal :: "auth_db \<Rightarrow> PrincipalRow \<Rightarrow> Principal" where
  "toPrincipal db r =
     \<lparr>pn_id = pr_id r, pn_kind = pr_kind r, pn_tenantId = pr_tenant_id r, pn_email = pr_email r, pn_role = pr_role r,
      pn_status = pr_status r, pn_mustChangePassword = pr_must_change_password r, pn_totpConfirmed = totp_confirmed db (pr_id r)\<rparr>"

definition byEmail :: "PrincipalKind \<Rightarrow> string \<Rightarrow> string option \<Rightarrow> auth_db \<Rightarrow> PrincipalRow option" where
  "byEmail kind email tenant db =
     find (\<lambda>r. pr_kind r = kind \<and> toLowerCase (pr_email r) = toLowerCase email \<and> (tenant = None \<or> pr_tenant_id r = tenant))
       (ad_principals db)"

definition byId :: "string \<Rightarrow> auth_db \<Rightarrow> PrincipalRow option" where
  "byId pid db = find (\<lambda>r. pr_id r = pid) (ad_principals db)"

definition update_principal :: "string \<Rightarrow> (PrincipalRow \<Rightarrow> PrincipalRow) \<Rightarrow> auth_db \<Rightarrow> auth_db" where
  "update_principal pid f db = db\<lparr>ad_principals := map (\<lambda>r. if pr_id r = pid then f r else r) (ad_principals db)\<rparr>"

definition update_totp :: "string \<Rightarrow> (totp_row \<Rightarrow> totp_row) \<Rightarrow> auth_db \<Rightarrow> auth_db" where
  "update_totp pid f db = db\<lparr>ad_totps := map (\<lambda>t. if tt_principal_id t = pid then f t else t) (ad_totps db)\<rparr>"

definition q_setStatus :: "string \<Rightarrow> principal_status \<Rightarrow> int \<Rightarrow> auth_db \<Rightarrow> auth_db" where
  "q_setStatus pid status now =
     update_principal pid (\<lambda>r. r\<lparr>pr_status := status, pr_disabled_at := (if status = Disabled then Some now else None)\<rparr>)"

definition q_setPassword :: "string \<Rightarrow> string \<Rightarrow> bool \<Rightarrow> auth_db \<Rightarrow> auth_db" where
  "q_setPassword pid hash mustChange =
     update_principal pid (\<lambda>r. r\<lparr>pr_password_hash := hash, pr_must_change_password := mustChange, pr_failed_logins := 0,
       pr_locked_until := None\<rparr>)"

definition rehashPassword :: "string \<Rightarrow> string \<Rightarrow> auth_db \<Rightarrow> auth_db" where
  "rehashPassword pid hash = update_principal pid (\<lambda>r. r\<lparr>pr_password_hash := hash\<rparr>)"

definition q_recordFailure :: "string \<Rightarrow> int \<Rightarrow> int option \<Rightarrow> auth_db \<Rightarrow> auth_db" where
  "q_recordFailure pid failures locked = update_principal pid (\<lambda>r. r\<lparr>pr_failed_logins := failures, pr_locked_until := locked\<rparr>)"

definition clearFailures :: "string \<Rightarrow> auth_db \<Rightarrow> auth_db" where
  "clearFailures pid = update_principal pid (\<lambda>r. r\<lparr>pr_failed_logins := 0, pr_locked_until := None\<rparr>)"

definition touchLastLogin :: "string \<Rightarrow> int \<Rightarrow> auth_db \<Rightarrow> auth_db" where
  "touchLastLogin pid now = update_principal pid (\<lambda>r. r\<lparr>pr_last_login_at := Some now\<rparr>)"

definition confirmedSecret :: "string \<Rightarrow> auth_db \<Rightarrow> totp_row option" where
  "confirmedSecret pid db = find (\<lambda>t. tt_principal_id t = pid \<and> tt_confirmed_at t \<noteq> None) (ad_totps db)"

definition pendingSecret :: "string \<Rightarrow> auth_db \<Rightarrow> string option" where
  "pendingSecret pid db = map_option tt_secret (totp_of db pid)"

definition upsertPending :: "string \<Rightarrow> string \<Rightarrow> auth_db \<Rightarrow> auth_db" where
  "upsertPending pid secret db =
     (if totp_of db pid = None
      then db\<lparr>ad_totps := ad_totps db @ [\<lparr>tt_principal_id = pid, tt_secret = secret, tt_confirmed_at = None, tt_last_step = None\<rparr>]\<rparr>
      else update_totp pid (\<lambda>t. t\<lparr>tt_secret := secret, tt_confirmed_at := None, tt_last_step := None\<rparr>) db)"

definition q_confirm :: "string \<Rightarrow> int \<Rightarrow> int \<Rightarrow> auth_db \<Rightarrow> auth_db" where
  "q_confirm pid step now = update_totp pid (\<lambda>t. t\<lparr>tt_confirmed_at := Some now, tt_last_step := Some step\<rparr>)"

definition advanceStep :: "string \<Rightarrow> int \<Rightarrow> auth_db \<Rightarrow> auth_db" where
  "advanceStep pid step = update_totp pid (\<lambda>t. t\<lparr>tt_last_step := Some step\<rparr>)"

definition spendable :: "string \<Rightarrow> string \<Rightarrow> recovery_row \<Rightarrow> bool" where
  "spendable pid hash c \<longleftrightarrow> rv_principal_id c = pid \<and> rv_code_hash c = hash \<and> rv_used_at c = None"

definition spend :: "string \<Rightarrow> string \<Rightarrow> int \<Rightarrow> auth_db \<Rightarrow> recovery_row list \<times> auth_db" where
  "spend pid hash now db =
     (filter (spendable pid hash) (ad_codes db),
      db\<lparr>ad_codes := map (\<lambda>c. if spendable pid hash c then c\<lparr>rv_used_at := Some now\<rparr> else c) (ad_codes db)\<rparr>)"

definition live :: "int \<Rightarrow> session_row \<Rightarrow> bool" where
  "live now s \<longleftrightarrow> ss_revoked_at s = None \<and> ss_expires_at s > now \<and> ss_idle_expires_at s > now"

definition resolveByTokenHash :: "string \<Rightarrow> int \<Rightarrow> auth_db \<Rightarrow> (session_row \<times> PrincipalRow) list" where
  "resolveByTokenHash hash now db =
     List.map_filter (\<lambda>s. if ss_token_hash s = hash \<and> live now s
         then (case byId (ss_principal_id s) db of
                 Some p \<Rightarrow> if pr_status p = Active then Some (s, p) else None
               | None \<Rightarrow> None)
         else None) (ad_sessions db)"

definition slide :: "string \<Rightarrow> int \<Rightarrow> int \<Rightarrow> auth_db \<Rightarrow> auth_db" where
  "slide sid lastSeen idle db =
     db\<lparr>ad_sessions := map (\<lambda>s. if ss_id s = sid then s\<lparr>ss_last_seen_at := lastSeen, ss_idle_expires_at := idle\<rparr> else s) (ad_sessions db)\<rparr>"

definition revoke_where :: "(session_row \<Rightarrow> bool) \<Rightarrow> string \<Rightarrow> int \<Rightarrow> auth_db \<Rightarrow> session_row list \<times> auth_db" where
  "revoke_where P reason now db =
     (filter (\<lambda>s. P s \<and> ss_revoked_at s = None) (ad_sessions db),
      db\<lparr>ad_sessions := map (\<lambda>s. if P s \<and> ss_revoked_at s = None
           then s\<lparr>ss_revoked_at := Some now, ss_revoked_reason := Some reason\<rparr> else s) (ad_sessions db)\<rparr>)"

section \<open>Principals\<close>

definition js_trim :: "string \<Rightarrow> string" where
  "js_trim s = rev (dropWhile js_space (rev (dropWhile js_space s)))"

text \<open>\<open>/^[^@\s]+@[^@\s]+\.[^@\s]+$/\<close>: one \<open>@\<close>, no white space, and an inner dot after it.\<close>

definition valid_email :: "string \<Rightarrow> bool" where
  "valid_email s \<longleftrightarrow> list_all (\<lambda>c. \<not> js_space c) s \<and>
     (case dropWhile (\<lambda>c. c \<noteq> CHR ''@'') s of
        [] \<Rightarrow> False
      | _ # domain \<Rightarrow> s \<noteq> [] \<and> hd s \<noteq> CHR ''@'' \<and> CHR ''@'' \<notin> set domain \<and> CHR ''.'' \<in> set (butlast (tl domain)))"

definition same_email :: "PrincipalRow \<Rightarrow> PrincipalRow \<Rightarrow> bool" where
  "same_email a b \<longleftrightarrow> pr_kind a = pr_kind b \<and> pr_tenant_id a = pr_tenant_id b \<and> toLowerCase (pr_email a) = toLowerCase (pr_email b)"

definition tenant_shape :: "PrincipalRow \<Rightarrow> bool" where
  "tenant_shape r \<longleftrightarrow> (pr_kind r = Operator) = (pr_tenant_id r = None)"

definition principal_insert :: "PrincipalRow \<Rightarrow> (auth_db, app_error, unit) eff" where
  "principal_insert r db =
     (if \<not> tenant_shape r then (Inl (JsError ''violates check constraint principal_tenant_shape''), db)
      else if list_ex (\<lambda>q. pr_id q = pr_id r) (ad_principals db) then (Inl (JsError ''duplicate key principal_pkey''), db)
      else if list_ex (same_email r) (ad_principals db)
        then (Inl (AppError PRINCIPAL_EXISTS (''An account already exists for '' @ pr_email r) True), db)
      else if (case pr_tenant_id r of Some t \<Rightarrow> t \<notin> set (ad_tenants db) | None \<Rightarrow> False)
        then (Inl (JsError ''violates foreign key constraint principal_tenant_id_fkey''), db)
      else (Inr (), db\<lparr>ad_principals := ad_principals db @ [r]\<rparr>))"

record new_principal =
  np_kind :: PrincipalKind
  np_tenantId :: "string option"
  np_email :: string
  np_password :: string
  np_role :: string
  np_mustChangePassword :: bool

definition principal_row :: "new_principal \<Rightarrow> string \<Rightarrow> string \<Rightarrow> string \<Rightarrow> int \<Rightarrow> PrincipalRow" where
  "principal_row i uuid hash role now =
     \<lparr>pr_id = uuid, pr_kind = np_kind i, pr_tenant_id = np_tenantId i, pr_email = js_trim (np_email i), pr_password_hash = hash,
      pr_role = role, pr_status = Active, pr_must_change_password = np_mustChangePassword i, pr_failed_logins = 0,
      pr_locked_until = None, pr_last_login_at = None, pr_created_at = now, pr_disabled_at = None\<rparr>"

definition createPrincipal :: "crypto \<Rightarrow> string \<Rightarrow> byte list \<Rightarrow> int \<Rightarrow> new_principal \<Rightarrow> (auth_db, app_error, Principal) eff" where
  "createPrincipal cr uuid salt now i =
     bind (lift (parseRole (np_kind i) (np_role i))) (\<lambda>role.
     let email = js_trim (np_email i) in
     if \<not> valid_email email then throw (AppError AUTH_FAILED (json_string email @ '' is not a valid email address'') True)
     else bind (lift (hashPassword cr salt (np_password i))) (\<lambda>hash.
       bind (principal_insert (principal_row i uuid hash role now)) (\<lambda>_.
         ret \<lparr>pn_id = uuid, pn_kind = np_kind i, pn_tenantId = np_tenantId i, pn_email = email, pn_role = role, pn_status = Active,
              pn_mustChangePassword = np_mustChangePassword i, pn_totpConfirmed = False\<rparr>)))"

definition loadById :: "string \<Rightarrow> auth_db \<Rightarrow> Principal option" where
  "loadById pid db = map_option (toPrincipal db) (byId pid db)"

definition operatorCount :: "auth_db \<Rightarrow> nat" where
  "operatorCount db = length (filter (\<lambda>r. pr_kind r = Operator \<and> pr_status r = Active) (ad_principals db))"

definition listPrincipals :: "PrincipalKind \<Rightarrow> string option \<Rightarrow> auth_db \<Rightarrow> (Principal \<times> int \<times> int option) list" where
  "listPrincipals kind tenant db =
     map (\<lambda>r. (toPrincipal db r, pr_created_at r, pr_last_login_at r)) (sort_key (\<lambda>r. - pr_created_at r)
       (filter (\<lambda>r. pr_kind r = kind \<and> (tenant = None \<or> pr_tenant_id r = tenant)) (ad_principals db)))"

definition revokeAllSessions :: "string \<Rightarrow> string \<Rightarrow> int \<Rightarrow> (auth_db, app_error, nat) eff" where
  "revokeAllSessions pid reason now db =
     (case revoke_where (\<lambda>s. ss_principal_id s = pid) reason now db of (rows, db') \<Rightarrow> (Inr (length rows), db'))"

definition setStatus :: "string \<Rightarrow> principal_status \<Rightarrow> int \<Rightarrow> (auth_db, app_error, unit) eff" where
  "setStatus pid status now =
     bind (modify (q_setStatus pid status now)) (\<lambda>_.
       if status = Disabled then bind (revokeAllSessions pid ''account disabled'' now) (\<lambda>_. ret ()) else ret ())"

definition setPassword :: "crypto \<Rightarrow> byte list \<Rightarrow> string \<Rightarrow> string \<Rightarrow> bool \<Rightarrow> (auth_db, app_error, unit) eff" where
  "setPassword cr salt pid password mustChange =
     bind (lift (hashPassword cr salt password)) (\<lambda>hash. modify (q_setPassword pid hash mustChange))"

section \<open>First factor\<close>

datatype login_outcome = Login_ok | Mfa_required | Mfa_enrolment_required

definition bad_credentials :: app_error where
  "bad_credentials = AppError AUTH_FAILED ''Email or password is incorrect'' True"

definition locked :: "int \<Rightarrow> PrincipalRow \<Rightarrow> bool" where
  "locked now r = (case pr_locked_until r of Some t \<Rightarrow> t > now | None \<Rightarrow> False)"

definition rehash_if_needed :: "crypto \<Rightarrow> byte list \<Rightarrow> string \<Rightarrow> PrincipalRow \<Rightarrow> (auth_db, app_error, unit) eff" where
  "rehash_if_needed cr salt password r =
     (if needsRehash (pr_password_hash r)
      then bind (lift (hashPassword cr salt password)) (\<lambda>hash. modify (rehashPassword (pr_id r) hash))
      else ret ())"

definition verifyCredentials ::
  "crypto \<Rightarrow> SessionConfig \<Rightarrow> byte list \<Rightarrow> int \<Rightarrow> PrincipalKind \<Rightarrow> string \<Rightarrow> string \<Rightarrow> string option \<Rightarrow>
   (auth_db, app_error, login_outcome \<times> Principal) eff" where
  "verifyCredentials cr cfg salt now kind email password tenant =
     bind (reads (\<lambda>db. map_option (\<lambda>r. (r, toPrincipal db r)) (byEmail kind email tenant db))) (\<lambda>found.
     case found of
       None \<Rightarrow> throw bad_credentials
     | Some (r, pn) \<Rightarrow>
         if locked now r
         then throw (AppError ACCOUNT_LOCKED ''Too many failed attempts. Try again later or use a recovery code.'' True)
         else if pr_status r \<noteq> Active then throw (AppError AUTH_FAILED ''This account is disabled'' True)
         else if \<not> verifyPassword cr password (pr_password_hash r) then
           let failures = pr_failed_logins r + 1 in
           bind (modify (q_recordFailure (pr_id r) failures
               (if failures \<ge> sc_maxFailedLogins cfg then Some (now + sc_lockoutMs cfg) else None))) (\<lambda>_.
             throw bad_credentials)
         else
           bind (modify (clearFailures (pr_id r))) (\<lambda>_.
           bind (rehash_if_needed cr salt password r) (\<lambda>_.
             if requiresTotp (pn_role pn)
             then ret (if pn_totpConfirmed pn then Mfa_required else Mfa_enrolment_required, pn)
             else ret (Login_ok, pn))))"

section \<open>Second factor\<close>

definition consumeRecoveryCode :: "crypto \<Rightarrow> int \<Rightarrow> string \<Rightarrow> string \<Rightarrow> (auth_db, app_error, bool) eff" where
  "consumeRecoveryCode cr now pid code db =
     (case spend pid (hashToken cr (toLowerCase (js_trim code))) now db of (rows, db') \<Rightarrow> (Inr (rows \<noteq> []), db'))"

definition verifySecondFactor :: "crypto \<Rightarrow> int \<Rightarrow> string \<Rightarrow> string \<Rightarrow> (auth_db, app_error, bool) eff" where
  "verifySecondFactor cr now pid code =
     bind (reads (confirmedSecret pid)) (\<lambda>totp.
     case totp of
       None \<Rightarrow> consumeRecoveryCode cr now pid code
     | Some t \<Rightarrow>
         bind (lift (verifyTotp cr (tt_secret t) code now (tt_last_step t))) (\<lambda>res.
         case res of
           Some step \<Rightarrow> bind (modify (advanceStep pid step)) (\<lambda>_. ret True)
         | None \<Rightarrow> consumeRecoveryCode cr now pid code))"

definition beginTotpEnrolment :: "byte list \<Rightarrow> string \<Rightarrow> (auth_db, app_error, string) eff" where
  "beginTotpEnrolment random pid =
     (let secret = generateTotpSecret random in bind (modify (upsertPending pid secret)) (\<lambda>_. ret secret))"

definition recovery_insert :: "string \<Rightarrow> string \<Rightarrow> (auth_db, app_error, unit) eff" where
  "recovery_insert pid hash db =
     (if list_ex (\<lambda>c. rv_principal_id c = pid \<and> rv_code_hash c = hash) (ad_codes db)
      then (Inl (JsError ''duplicate key principal_recovery_code_pkey''), db)
      else (Inr (), db\<lparr>ad_codes := ad_codes db @ [\<lparr>rv_principal_id = pid, rv_code_hash = hash, rv_used_at = None\<rparr>]\<rparr>))"

definition recovery_deleteFor :: "string \<Rightarrow> auth_db \<Rightarrow> auth_db" where
  "recovery_deleteFor pid db = db\<lparr>ad_codes := filter (\<lambda>c. rv_principal_id c \<noteq> pid) (ad_codes db)\<rparr>"

definition confirmTotp :: "crypto \<Rightarrow> nat list list \<Rightarrow> int \<Rightarrow> string \<Rightarrow> string \<Rightarrow> (auth_db, app_error, string list) eff" where
  "confirmTotp cr picks now pid code =
     bind (reads (pendingSecret pid)) (\<lambda>pending.
     case pending of
       None \<Rightarrow> throw (AppError AUTH_FAILED ''Start enrolment first'' True)
     | Some secret \<Rightarrow>
         if secret = [] then throw (AppError AUTH_FAILED ''Start enrolment first'' True)
         else bind (lift (verifyTotp cr secret code now None)) (\<lambda>res.
         case res of
           None \<Rightarrow> throw (AppError AUTH_FAILED ''That code is not correct'' True)
         | Some step \<Rightarrow>
             let codes = generateRecoveryCodes picks in
             bind (transaction
               (bind (modify (q_confirm pid step now)) (\<lambda>_.
                bind (modify (recovery_deleteFor pid)) (\<lambda>_.
                  for_each (\<lambda>c _. recovery_insert pid (hashToken cr c)) codes ())))) (\<lambda>_.
               ret codes)))"

section \<open>Sessions\<close>

record client_meta =
  cm_ip :: "string option"
  cm_userAgent :: "string option"

text \<open>\<open>(userAgent ?? "").slice(0, 300) || null\<close>\<close>

definition agent_column :: "string option \<Rightarrow> string option" where
  "agent_column ua = (let s = take 300 (case ua of Some a \<Rightarrow> a | None \<Rightarrow> []) in if s = [] then None else Some s)"

definition session_insert :: "session_row \<Rightarrow> (auth_db, app_error, unit) eff" where
  "session_insert s db =
     (if list_ex (\<lambda>q. ss_id q = ss_id s) (ad_sessions db) then (Inl (JsError ''duplicate key auth_session_pkey''), db)
      else if list_ex (\<lambda>q. ss_token_hash q = ss_token_hash s) (ad_sessions db)
        then (Inl (JsError ''duplicate key auth_session_token_hash_key''), db)
      else if byId (ss_principal_id s) db = None
        then (Inl (JsError ''violates foreign key constraint auth_session_principal_id_fkey''), db)
      else (Inr (), db\<lparr>ad_sessions := ad_sessions db @ [s]\<rparr>))"

definition session_of :: "crypto \<Rightarrow> SessionConfig \<Rightarrow> string \<Rightarrow> string \<Rightarrow> string \<Rightarrow> string \<Rightarrow> client_meta \<Rightarrow> int \<Rightarrow> session_row" where
  "session_of cr cfg uuid token csrf pid meta now =
     \<lparr>ss_id = uuid, ss_principal_id = pid, ss_token_hash = hashToken cr token, ss_csrf_token = csrf, ss_created_at = now,
      ss_last_seen_at = now, ss_idle_expires_at = now + sc_idleMs cfg, ss_expires_at = now + sc_absoluteMs cfg,
      ss_revoked_at = None, ss_revoked_reason = None, ss_ip = cm_ip meta, ss_user_agent = agent_column (cm_userAgent meta)\<rparr>"

record issued =
  is_token :: string
  is_csrfToken :: string
  is_session :: Session

definition createSession ::
  "crypto \<Rightarrow> SessionConfig \<Rightarrow> string \<Rightarrow> string \<Rightarrow> string \<Rightarrow> string \<Rightarrow> client_meta \<Rightarrow> int \<Rightarrow> (auth_db, app_error, issued) eff" where
  "createSession cr cfg uuid token csrf pid meta now =
     bind (session_insert (session_of cr cfg uuid token csrf pid meta now)) (\<lambda>_.
     bind (modify (touchLastLogin pid now)) (\<lambda>_.
       ret \<lparr>is_token = token, is_csrfToken = csrf, is_session =
         \<lparr>sn_id = uuid, sn_principalId = pid, sn_createdAt = now, sn_lastSeenAt = now, sn_expiresAt = now + sc_absoluteMs cfg,
          sn_idleExpiresAt = now + sc_idleMs cfg, sn_ip = cm_ip meta, sn_userAgent = cm_userAgent meta\<rparr>\<rparr>))"

record resolved =
  rd_principal :: Principal
  rd_session :: Session
  rd_csrfToken :: string

definition resolveSession :: "crypto \<Rightarrow> SessionConfig \<Rightarrow> string \<Rightarrow> int \<Rightarrow> (auth_db, app_error, resolved option) eff" where
  "resolveSession cr cfg token now =
     bind (reads (\<lambda>db. map (\<lambda>(s, p). (s, toPrincipal db p)) (resolveByTokenHash (hashToken cr token) now db))) (\<lambda>rows.
     case rows of
       [] \<Rightarrow> ret None
     | (s, p) # _ \<Rightarrow>
         let capped = min (now + sc_idleMs cfg) (ss_expires_at s) in
         bind (modify (slide (ss_id s) now capped)) (\<lambda>_.
           ret (Some \<lparr>rd_principal = p, rd_session =
             \<lparr>sn_id = ss_id s, sn_principalId = ss_principal_id s, sn_createdAt = ss_created_at s, sn_lastSeenAt = now,
              sn_expiresAt = ss_expires_at s, sn_idleExpiresAt = capped, sn_ip = ss_ip s, sn_userAgent = ss_user_agent s\<rparr>,
             rd_csrfToken = ss_csrf_token s\<rparr>)))"

definition revokeSession :: "string \<Rightarrow> string \<Rightarrow> int \<Rightarrow> (auth_db, app_error, bool) eff" where
  "revokeSession sid reason now db =
     (case revoke_where (\<lambda>s. ss_id s = sid) reason now db of (rows, db') \<Rightarrow> (Inr (rows \<noteq> []), db'))"

definition listSessions :: "string \<Rightarrow> int \<Rightarrow> auth_db \<Rightarrow> Session list" where
  "listSessions pid now db =
     map (\<lambda>s. \<lparr>sn_id = ss_id s, sn_principalId = pid, sn_createdAt = ss_created_at s, sn_lastSeenAt = ss_last_seen_at s,
           sn_expiresAt = ss_expires_at s, sn_idleExpiresAt = ss_idle_expires_at s, sn_ip = ss_ip s, sn_userAgent = ss_user_agent s\<rparr>)
       (sort_key (\<lambda>s. - ss_last_seen_at s) (filter (\<lambda>s. ss_principal_id s = pid \<and> live now s) (ad_sessions db)))"

definition pruneSessions :: "int \<Rightarrow> (auth_db, app_error, nat) eff" where
  "pruneSessions olderThan db =
     (Inr (length (filter (\<lambda>s. ss_expires_at s < olderThan) (ad_sessions db))),
      db\<lparr>ad_sessions := filter (\<lambda>s. \<not> ss_expires_at s < olderThan) (ad_sessions db)\<rparr>)"

definition recordAttempt :: "attempt_row \<Rightarrow> (auth_db, app_error, unit) eff" where
  "recordAttempt a = modify (\<lambda>db. db\<lparr>ad_attempts := ad_attempts db @ [a\<lparr>at_user_agent := agent_column (at_user_agent a)\<rparr>]\<rparr>)"

definition listAttempts :: "int \<Rightarrow> auth_db \<Rightarrow> attempt_row list" where
  "listAttempts limit db = take (nat (min (max 1 limit) 500)) (sort_key (\<lambda>a. - at_at a) (ad_attempts db))"

end
