(* ===== verification/Auth_Safety.thy ===== *)
theory Auth_Safety
  imports Auth_Store
begin

text \<open>
  What the tables of principals and sessions guarantee: uniqueness and shape of accounts, bounded and revocable
  sessions, the lock-out, and the single use of second factors.

  \<open>auth_sql\<close> is one SQL statement of one of the methods, so its reflexive and transitive closure covers every
  interleaving of concurrent requests. \<open>pruneSessions\<close>, which nothing calls, is not among the statements.
\<close>

section \<open>Statements\<close>

definition keeps_account :: "(PrincipalRow \<Rightarrow> PrincipalRow) \<Rightarrow> bool" where
  "keeps_account f \<longleftrightarrow> (\<forall>r. pr_id (f r) = pr_id r \<and> pr_kind (f r) = pr_kind r \<and> pr_tenant_id (f r) = pr_tenant_id r
     \<and> pr_email (f r) = pr_email r \<and> pr_role (f r) = pr_role r)"

inductive auth_sql :: "SessionConfig \<Rightarrow> auth_db \<Rightarrow> auth_db \<Rightarrow> bool" for cfg where
  add_principal: "principal_insert r s = (res, s') \<Longrightarrow> pr_role r \<in> set (roles_of (pr_kind r)) \<Longrightarrow> auth_sql cfg s s'"
| change_principal: "keeps_account f \<Longrightarrow> auth_sql cfg s (update_principal pid f s)"
| factors: "auth_sql cfg s (s\<lparr>ad_totps := t, ad_codes := c, ad_attempts := a\<rparr>)"
| add_session: "session_insert (session_of cr cfg uuid token csrf pid meta now) s = (res, s') \<Longrightarrow> auth_sql cfg s s'"
| use_session: "r \<in> set (ad_sessions s) \<Longrightarrow> auth_sql cfg s (slide (ss_id r) now (min (now + sc_idleMs cfg) (ss_expires_at r)) s)"
| end_sessions: "auth_sql cfg s (snd (revoke_where P reason now s))"

definition session_ok :: "SessionConfig \<Rightarrow> session_row \<Rightarrow> bool" where
  "session_ok cfg r \<longleftrightarrow> ss_expires_at r = ss_created_at r + sc_absoluteMs cfg
     \<and> ss_idle_expires_at r \<le> ss_last_seen_at r + sc_idleMs cfg"

definition auth_ok :: "SessionConfig \<Rightarrow> auth_db \<Rightarrow> bool" where
  "auth_ok cfg s \<longleftrightarrow>
     distinct (map pr_id (ad_principals s))
   \<and> sorted_wrt (\<lambda>a b. \<not> same_email a b) (ad_principals s)
   \<and> (\<forall>r \<in> set (ad_principals s). tenant_shape r \<and> pr_role r \<in> set (roles_of (pr_kind r))
        \<and> (\<forall>t. pr_tenant_id r = Some t \<longrightarrow> t \<in> set (ad_tenants s)))
   \<and> distinct (map ss_id (ad_sessions s))
   \<and> distinct (map ss_token_hash (ad_sessions s))
   \<and> (\<forall>x \<in> set (ad_sessions s). session_ok cfg x \<and> ss_principal_id x \<in> pr_id ` set (ad_principals s))"

lemma auth_ok_init: "auth_ok cfg (auth_db_init tenants)"
  by (simp add: auth_ok_def auth_db_init_def)

lemma same_email_sym: "same_email a b \<longleftrightarrow> same_email b a"
  by (auto simp: same_email_def)

lemma byId_None_iff: "byId pid s = None \<longleftrightarrow> pid \<notin> pr_id ` set (ad_principals s)"
  by (auto simp: byId_def find_None_iff)

lemma auth_ok_session_map:
  assumes "auth_ok cfg s"
    and "\<And>x. ss_id (g x) = ss_id x \<and> ss_token_hash (g x) = ss_token_hash x \<and> ss_principal_id (g x) = ss_principal_id x
      \<and> (session_ok cfg x \<longrightarrow> session_ok cfg (g x))"
  shows "auth_ok cfg (s\<lparr>ad_sessions := map g (ad_sessions s)\<rparr>)"
proof -
  have "ss_id \<circ> g = ss_id" "ss_token_hash \<circ> g = ss_token_hash" using assms(2) by auto
  with assms show ?thesis by (simp add: auth_ok_def)
qed

lemma auth_sql_ok: "auth_sql cfg s s' \<Longrightarrow> auth_ok cfg s \<Longrightarrow> auth_ok cfg s'"
proof (induction rule: auth_sql.induct)
  case (add_principal r s res s')
  show ?case
  proof (cases "s' = s")
    case False
    with add_principal(1) have s': "s' = s\<lparr>ad_principals := ad_principals s @ [r]\<rparr>" and new: "tenant_shape r"
      "pr_id r \<notin> pr_id ` set (ad_principals s)" "\<forall>q \<in> set (ad_principals s). \<not> same_email r q"
      "\<forall>t. pr_tenant_id r = Some t \<longrightarrow> t \<in> set (ad_tenants s)"
      by (auto simp: principal_insert_def list_ex_iff split: if_splits option.splits)
    show ?thesis using add_principal(3) new add_principal(2)
      unfolding auth_ok_def s' by (auto simp: sorted_wrt_append same_email_sym)
  qed (use add_principal in simp)
next
  case (change_principal f s pid)
  define g where "g r = (if pr_id r = pid then f r else r)" for r
  have g: "pr_id (g r) = pr_id r" "pr_kind (g r) = pr_kind r" "pr_tenant_id (g r) = pr_tenant_id r" "pr_email (g r) = pr_email r"
    "pr_role (g r) = pr_role r" for r using change_principal(1) by (auto simp: keeps_account_def g_def)
  then have e: "same_email (g a) (g b) = same_email a b" "tenant_shape (g a) = tenant_shape a" for a b
    by (simp_all add: same_email_def tenant_shape_def)
  have "pr_id \<circ> g = pr_id" "pr_id ` g ` A = pr_id ` A" for A using g(1) by (auto simp: image_image)
  moreover have "update_principal pid f s = s\<lparr>ad_principals := map g (ad_principals s)\<rparr>"
    by (simp add: update_principal_def g_def [abs_def])
  ultimately show ?case using change_principal(2) g e unfolding auth_ok_def by (simp add: sorted_wrt_map)
next
  case (factors s t c a)
  then show ?case by (simp add: auth_ok_def)
next
  case (add_session cr uuid token csrf pid meta now s res s')
  let ?n = "session_of cr cfg uuid token csrf pid meta now"
  show ?case
  proof (cases "s' = s")
    case False
    with add_session(1) have s': "s' = s\<lparr>ad_sessions := ad_sessions s @ [?n]\<rparr>" and new: "ss_id ?n \<notin> ss_id ` set (ad_sessions s)"
      "ss_token_hash ?n \<notin> ss_token_hash ` set (ad_sessions s)" "ss_principal_id ?n \<in> pr_id ` set (ad_principals s)"
      by (auto simp: session_insert_def list_ex_iff byId_None_iff split: if_splits)
    have "session_ok cfg ?n" by (simp add: session_ok_def session_of_def)
    with add_session(2) new show ?thesis unfolding auth_ok_def s' by auto
  qed (use add_session in simp)
next
  case (use_session r s now)
  show ?case unfolding slide_def using use_session(2) by (rule auth_ok_session_map) (auto simp: session_ok_def)
next
  case (end_sessions s P reason now)
  show ?case unfolding revoke_where_def snd_conv using end_sessions by (rule auth_ok_session_map) (auto simp: session_ok_def)
qed

lemma auth_sqls_ok: "(auth_sql cfg)\<^sup>*\<^sup>* s s' \<Longrightarrow> auth_ok cfg s \<Longrightarrow> auth_ok cfg s'"
  by (induction rule: rtranclp_induct) (auto intro: auth_sql_ok)


section \<open>Methods are sequences of statements\<close>

abbreviation auth_runs :: "SessionConfig \<Rightarrow> auth_db \<Rightarrow> auth_db \<Rightarrow> bool" where
  "auth_runs cfg \<equiv> (auth_sql cfg)\<^sup>*\<^sup>*"

definition runs_statements :: "SessionConfig \<Rightarrow> (auth_db, app_error, 'a) eff \<Rightarrow> bool" where
  "runs_statements cfg m \<longleftrightarrow> (\<forall>s. auth_runs cfg s (snd (m s)))"

lemma runs_ret [intro]: "runs_statements cfg (ret x)"
  by (simp add: runs_statements_def ret_def)

lemma runs_throw [intro]: "runs_statements cfg (throw e)"
  by (simp add: runs_statements_def throw_def)

lemma runs_lift [intro]: "runs_statements cfg (lift r)"
  by (simp add: runs_statements_def lift_def)

lemma runs_reads [intro]: "runs_statements cfg (reads f)"
  by (simp add: runs_statements_def reads_def)

lemma runs_modify: "(\<And>s. auth_sql cfg s (f s)) \<Longrightarrow> runs_statements cfg (modify f)"
  by (auto simp: runs_statements_def modify_def)

lemma runs_bind [intro]:
  assumes "runs_statements cfg m" "\<And>x. runs_statements cfg (f x)"
  shows "runs_statements cfg (bind m f)"
  unfolding runs_statements_def
proof
  fix s
  from assms(1) have "auth_runs cfg s (snd (m s))" by (simp add: runs_statements_def)
  moreover have "auth_runs cfg (snd (m s)) (snd (f x (snd (m s))))" for x using assms(2) by (simp add: runs_statements_def)
  ultimately show "auth_runs cfg s (snd (bind m f s))"
    by (auto simp: bind_def split: prod.splits sum.splits) (metis rtranclp_trans snd_conv)
qed

lemma runs_if [intro]: "\<lbrakk>b \<Longrightarrow> runs_statements cfg m; \<not> b \<Longrightarrow> runs_statements cfg m'\<rbrakk> \<Longrightarrow> runs_statements cfg (if b then m else m')"
  by simp

lemma keeps_account_updates [simp]:
  "keeps_account (\<lambda>r. r\<lparr>pr_status := x, pr_disabled_at := d r\<rparr>)"
  "keeps_account (\<lambda>r. r\<lparr>pr_password_hash := h, pr_must_change_password := b, pr_failed_logins := n, pr_locked_until := l\<rparr>)"
  "keeps_account (\<lambda>r. r\<lparr>pr_password_hash := h\<rparr>)"
  "keeps_account (\<lambda>r. r\<lparr>pr_failed_logins := n, pr_locked_until := l\<rparr>)"
  "keeps_account (\<lambda>r. r\<lparr>pr_last_login_at := l\<rparr>)"
  by (simp_all add: keeps_account_def)

lemma factor_updates:
  "auth_sql cfg s (upsertPending pid secret s)" "auth_sql cfg s (q_confirm pid step now s)" "auth_sql cfg s (advanceStep pid step s)"
  "auth_sql cfg s (snd (spend pid h now s))" "auth_sql cfg s (recovery_deleteFor pid s)" "auth_sql cfg s (snd (recovery_insert pid h s))"
  "auth_sql cfg s (snd (recordAttempt a s))"
proof -
  have f: "auth_sql cfg s s'" if "s' = s\<lparr>ad_totps := ad_totps s', ad_codes := ad_codes s', ad_attempts := ad_attempts s'\<rparr>" for s'
    using auth_sql.factors [where cfg = cfg and s = s and t = "ad_totps s'" and c = "ad_codes s'" and a = "ad_attempts s'"] that by simp
  show "auth_sql cfg s (upsertPending pid secret s)" "auth_sql cfg s (q_confirm pid step now s)" "auth_sql cfg s (advanceStep pid step s)"
    "auth_sql cfg s (snd (spend pid h now s))" "auth_sql cfg s (recovery_deleteFor pid s)" "auth_sql cfg s (snd (recovery_insert pid h s))"
    "auth_sql cfg s (snd (recordAttempt a s))"
    by (rule f; simp add: upsertPending_def q_confirm_def advanceStep_def update_totp_def spend_def recovery_deleteFor_def
        recovery_insert_def recordAttempt_def modify_def)+
qed

lemma runs_revoke:
  "runs_statements cfg (revokeAllSessions pid reason now)"
  "runs_statements cfg (revokeSession sid reason now)"
proof -
  have "snd (revokeAllSessions pid reason now s) = snd (revoke_where (\<lambda>x. ss_principal_id x = pid) reason now s)"
    "snd (revokeSession sid reason now s) = snd (revoke_where (\<lambda>x. ss_id x = sid) reason now s)" for s
    by (simp_all add: revokeAllSessions_def revokeSession_def split: prod.splits)
  then show "runs_statements cfg (revokeAllSessions pid reason now)" "runs_statements cfg (revokeSession sid reason now)"
    by (auto simp: runs_statements_def intro: auth_sql.end_sessions)
qed

lemma runs_methods:
  "runs_statements cfg (createPrincipal cr uuid salt now i)"
  "runs_statements cfg (setStatus pid status now)"
  "runs_statements cfg (setPassword cr salt pid password mustChange)"
  "runs_statements cfg (verifyCredentials cr cfg salt now kind email password tenant)"
  "runs_statements cfg (verifySecondFactor cr now pid code)"
  "runs_statements cfg (beginTotpEnrolment random pid)"
  "runs_statements cfg (createSession cr cfg uuid token csrf pid meta now)"
  "runs_statements cfg (resolveSession cr cfg token now)"
  "runs_statements cfg (recordAttempt a)"
proof -
  have p: "runs_statements cfg (modify (update_principal pid f))" if "keeps_account f" for pid f
    using auth_sql.change_principal [OF that] by (rule runs_modify)
  note ups = q_setStatus_def q_setPassword_def rehashPassword_def q_recordFailure_def clearFailures_def touchLastLogin_def
  have one: "runs_statements cfg m" if "\<And>s. auth_sql cfg s (snd (m s))" for m :: "(auth_db, app_error, 'b) eff"
    using that by (auto simp: runs_statements_def)
  have code: "runs_statements cfg (consumeRecoveryCode cr now pid code)" for pid code
    using factor_updates(4) [of cfg] by (auto simp: consumeRecoveryCode_def runs_statements_def split: prod.splits) (metis r_into_rtranclp snd_conv)
  show "runs_statements cfg (setStatus pid status now)"
    unfolding setStatus_def ups using runs_revoke by (intro runs_bind runs_if p runs_ret) auto
  show "runs_statements cfg (setPassword cr salt pid password mustChange)"
    unfolding setPassword_def ups by (intro runs_bind p runs_lift) auto
  show "runs_statements cfg (verifyCredentials cr cfg salt now kind email password tenant)"
    unfolding verifyCredentials_def ups rehash_if_needed_def Let_def
    by (auto intro!: runs_ret runs_throw runs_lift runs_reads runs_if runs_bind p split: option.splits)
  show "runs_statements cfg (verifySecondFactor cr now pid code)"
    unfolding verifySecondFactor_def by (auto intro!: runs_ret runs_throw runs_lift runs_reads runs_if runs_bind runs_modify factor_updates code split: option.splits)
  show "runs_statements cfg (beginTotpEnrolment random pid)"
    unfolding beginTotpEnrolment_def Let_def by (auto intro!: runs_ret runs_throw runs_lift runs_reads runs_if runs_bind runs_modify factor_updates)
  show "runs_statements cfg (recordAttempt a)"
    unfolding recordAttempt_def using factor_updates(7) by (intro one) (simp add: recordAttempt_def)
  have sess: "runs_statements cfg (session_insert (session_of cr cfg uuid token csrf pid meta now))"
    by (rule one) (rule auth_sql.add_session [OF prod.collapse [symmetric]])
  show "runs_statements cfg (createSession cr cfg uuid token csrf pid meta now)"
    unfolding createSession_def ups by (auto intro!: runs_ret runs_bind p sess)
  have ins: "runs_statements cfg (principal_insert r)" if "pr_role r \<in> set (roles_of (pr_kind r))" for r
    by (rule one) (rule auth_sql.add_principal [OF prod.collapse [symmetric] that])
  show "runs_statements cfg (createPrincipal cr uuid salt now i)"
  proof (cases "np_role i \<in> set (roles_of (np_kind i))")
    case True
    have "runs_statements cfg (principal_insert (principal_row i uuid hash (np_role i) now))" for hash
      by (rule ins) (simp add: principal_row_def True)
    then have "runs_statements cfg (if \<not> valid_email (js_trim (np_email i)) then throw (AppError AUTH_FAILED (json_string (js_trim (np_email i)) @ '' is not a valid email address'') True)
      else bind (lift (hashPassword cr salt (np_password i))) (\<lambda>hash.
        bind (principal_insert (principal_row i uuid hash (np_role i) now)) (\<lambda>_. ret (x :: Principal))))" for x
      by (auto intro!: runs_throw runs_lift runs_ret runs_bind)
    with True show ?thesis unfolding createPrincipal_def Let_def by (simp add: parseRole_def runs_statements_def effect_simps)
  next
    case False
    then show ?thesis by (simp add: createPrincipal_def parseRole_def runs_statements_def effect_simps)
  qed
  show "runs_statements cfg (resolveSession cr cfg token now)"
  proof -
    have "auth_runs cfg s (snd (resolveSession cr cfg token now s))" for s
    proof (cases "resolveByTokenHash (hashToken cr token) now s")
      case (Cons x xs)
      obtain r q where x: "x = (r, q)" by fastforce
      have "x \<in> set (resolveByTokenHash (hashToken cr token) now s)" using Cons by simp
      then have "r \<in> set (ad_sessions s)"
        by (auto simp: resolveByTokenHash_def x List.map_filter_def split: if_splits option.splits)
      from auth_sql.use_session [OF this] Cons x show ?thesis
        by (auto simp: resolveSession_def effect_simps Let_def)
    qed (simp add: resolveSession_def effect_simps)
    then show ?thesis by (simp add: runs_statements_def)
  qed
qed

section \<open>Sessions\<close>

lemma resolve_cases:
  obtains "resolveSession cr cfg token now s = (Inr None, s)" "resolveByTokenHash (hashToken cr token) now s = []"
  | r p where "r \<in> set (ad_sessions s)" "ss_token_hash r = hashToken cr token" "live now r"
      "byId (ss_principal_id r) s = Some p" "pr_status p = Active"
      "resolveSession cr cfg token now s =
        (Inr (Some \<lparr>rd_principal = toPrincipal s p, rd_session =
             \<lparr>sn_id = ss_id r, sn_principalId = ss_principal_id r, sn_createdAt = ss_created_at r, sn_lastSeenAt = now,
              sn_expiresAt = ss_expires_at r, sn_idleExpiresAt = min (now + sc_idleMs cfg) (ss_expires_at r), sn_ip = ss_ip r,
              sn_userAgent = ss_user_agent r\<rparr>, rd_csrfToken = ss_csrf_token r\<rparr>),
         slide (ss_id r) now (min (now + sc_idleMs cfg) (ss_expires_at r)) s)"
proof (cases "resolveByTokenHash (hashToken cr token) now s")
  case Nil
  then show ?thesis using that(1) by (simp add: resolveSession_def effect_simps)
next
  case (Cons x xs)
  obtain r p where x: "x = (r, p)" by fastforce
  have "x \<in> set (resolveByTokenHash (hashToken cr token) now s)" using Cons by simp
  then have "r \<in> set (ad_sessions s)" "ss_token_hash r = hashToken cr token" "live now r"
    "byId (ss_principal_id r) s = Some p" "pr_status p = Active"
    by (auto simp: resolveByTokenHash_def x List.map_filter_def split: if_splits option.splits)
  then show ?thesis using that(2) [of r p] Cons x by (simp add: resolveSession_def effect_simps Let_def)
qed

text \<open>C16. A session cannot outlive its bounds: whenever a token resolves, on any store reached by any interleaving of
  statements, there is an unrevoked session with that token's hash which began less than \<open>absoluteMs\<close> ago, was
  seen less than \<open>idleMs\<close> ago, and belongs to an active account with a role of its plane; and the use extends its
  idle deadline at most to its absolute one.\<close>

theorem session_bounded:
  assumes "auth_runs cfg (auth_db_init tenants) s" and "resolveSession cr cfg token now s = (Inr (Some res), s')"
  shows "\<exists>r \<in> set (ad_sessions s). ss_token_hash r = hashToken cr token \<and> ss_revoked_at r = None
    \<and> now < ss_created_at r + sc_absoluteMs cfg \<and> now < ss_last_seen_at r + sc_idleMs cfg
    \<and> sn_id (rd_session res) = ss_id r
    \<and> (\<exists>p \<in> set (ad_principals s). pr_id p = ss_principal_id r \<and> pr_id p = pn_id (rd_principal res) \<and> pr_status p = Active
         \<and> pr_role p = pn_role (rd_principal res) \<and> pr_role p \<in> set (roles_of (pr_kind p)))
    \<and> sn_idleExpiresAt (rd_session res) \<le> ss_created_at r + sc_absoluteMs cfg"
proof (cases rule: resolve_cases [of cr cfg token now s])
  case 1
  with assms(2) show ?thesis by simp
next
  case (2 r p)
  from auth_sqls_ok [OF assms(1) auth_ok_init] have ok: "auth_ok cfg s" .
  from ok 2(1) have "session_ok cfg r" by (simp add: auth_ok_def)
  with 2(3) have b: "ss_revoked_at r = None" "now < ss_created_at r + sc_absoluteMs cfg" "now < ss_last_seen_at r + sc_idleMs cfg"
    by (auto simp: session_ok_def live_def)
  from 2(4) have p: "p \<in> set (ad_principals s)" "pr_id p = ss_principal_id r"
    by (auto simp: byId_def find_Some_iff)
  with ok have "pr_role p \<in> set (roles_of (pr_kind p))" by (simp add: auth_ok_def)
  moreover have "res = \<lparr>rd_principal = toPrincipal s p, rd_session =
             \<lparr>sn_id = ss_id r, sn_principalId = ss_principal_id r, sn_createdAt = ss_created_at r, sn_lastSeenAt = now,
              sn_expiresAt = ss_expires_at r, sn_idleExpiresAt = min (now + sc_idleMs cfg) (ss_expires_at r), sn_ip = ss_ip r,
              sn_userAgent = ss_user_agent r\<rparr>, rd_csrfToken = ss_csrf_token r\<rparr>" using assms(2) 2(6) by simp
  ultimately show ?thesis using b p 2(1,2,5) \<open>session_ok cfg r\<close>
    by (intro bexI [of _ r]) (auto simp: toPrincipal_def session_ok_def intro!: bexI [of _ p])
qed

section \<open>Revocation\<close>

text \<open>A revoked row stays in its table, revoked, with its token hash.\<close>

definition revoked_row :: "string \<Rightarrow> auth_db \<Rightarrow> bool" where
  "revoked_row h s \<longleftrightarrow> (\<exists>r \<in> set (ad_sessions s). ss_token_hash r = h \<and> ss_revoked_at r \<noteq> None)"

lemma revoked_row_mapI:
  "r \<in> set (ad_sessions s) \<Longrightarrow> ss_token_hash (g r) = h \<Longrightarrow> ss_revoked_at (g r) \<noteq> None \<Longrightarrow>
   revoked_row h (s\<lparr>ad_sessions := map g (ad_sessions s)\<rparr>)"
  unfolding revoked_row_def by (intro bexI [of _ "g r"]) auto

lemma revoked_row_sql: "auth_sql cfg s s' \<Longrightarrow> revoked_row h s \<Longrightarrow> revoked_row h s'"
proof (induction rule: auth_sql.induct)
  case (add_session cr uuid token csrf pid meta now s res s')
  then show ?case by (auto simp: session_insert_def revoked_row_def split: if_splits)
next
  case (use_session r s now)
  then obtain q where "q \<in> set (ad_sessions s)" "ss_token_hash q = h" "ss_revoked_at q \<noteq> None" by (auto simp: revoked_row_def)
  then show ?case unfolding slide_def by (intro revoked_row_mapI [of q]) auto
next
  case (end_sessions s P reason now)
  then obtain q where "q \<in> set (ad_sessions s)" "ss_token_hash q = h" "ss_revoked_at q \<noteq> None" by (auto simp: revoked_row_def)
  then show ?case unfolding revoke_where_def snd_conv by (intro revoked_row_mapI [of q]) auto
qed (auto simp: revoked_row_def principal_insert_def update_principal_def split: if_splits option.splits)

lemma revoked_row_runs: "auth_runs cfg s s' \<Longrightarrow> revoked_row h s \<Longrightarrow> revoked_row h s'"
  by (induction rule: rtranclp_induct) (auto intro: revoked_row_sql)

lemma revoked_row_dead:
  assumes "auth_ok cfg s" "revoked_row (hashToken cr token) s"
  shows "resolveSession cr cfg token now s = (Inr None, s)"
proof (cases rule: resolve_cases [of cr cfg token now s])
  case (2 r p)
  from assms(2) obtain q where q: "q \<in> set (ad_sessions s)" "ss_token_hash q = hashToken cr token" "ss_revoked_at q \<noteq> None"
    by (auto simp: revoked_row_def)
  from assms(1) have "distinct (map ss_token_hash (ad_sessions s))" by (simp add: auth_ok_def)
  with q 2(1,2) have "q = r" by (auto simp: distinct_map inj_on_def)
  with q 2(3) show ?thesis by (simp add: live_def)
qed

text \<open>C17. Revocation is final: after \<open>revokeAllSessions\<close>, which disabling an account, resetting or changing a password and
  signing out everywhere run, no token of a session the account had resolves again, whatever statements follow and
  whenever it is tried.\<close>

theorem revocation_final:
  assumes "auth_runs cfg (auth_db_init tenants) s" and "revokeAllSessions pid reason t s = (Inr n, s1)" and "auth_runs cfg s1 s2"
    and "r \<in> set (ad_sessions s)" "ss_principal_id r = pid" "ss_token_hash r = hashToken cr token"
  shows "resolveSession cr cfg token now s2 = (Inr None, s2)"
proof -
  have s1: "s1 = snd (revoke_where (\<lambda>x. ss_principal_id x = pid) reason t s)"
    using assms(2) by (simp add: revokeAllSessions_def split: prod.splits)
  have "auth_runs cfg (auth_db_init tenants) s2"
    using assms(1,3) auth_sql.end_sessions [of cfg s _ reason t] unfolding s1 by (meson rtranclp.rtrancl_into_rtrancl rtranclp_trans)
  then have ok: "auth_ok cfg s2" by (rule auth_sqls_ok [OF _ auth_ok_init])
  have "revoked_row (hashToken cr token) s1"
    unfolding s1 revoke_where_def snd_conv using assms(4-6) by (intro revoked_row_mapI [of r]) auto
  from revoked_row_dead [OF ok revoked_row_runs [OF assms(3) this]] show ?thesis .
qed

section \<open>The lock-out\<close>

text \<open>A wrong password on an account that is neither locked nor disabled.\<close>

lemma find_map_keep: "(\<And>x. P (f x) = P x) \<Longrightarrow> find P (map f xs) = map_option f (find P xs)"
  by (induction xs) auto

lemma byEmail_update:
  assumes "keeps_account f"
  shows "byEmail kind email tenant (update_principal pid f s) =
     map_option (\<lambda>r. if pr_id r = pid then f r else r) (byEmail kind email tenant s)"
  using assms unfolding byEmail_def update_principal_def
  by (simp, intro find_map_keep) (auto simp: keeps_account_def)

lemma wrong_password:
  assumes "byEmail kind email tenant s = Some r" "\<not> locked now r" "pr_status r = Active" "\<not> verifyPassword cr password (pr_password_hash r)"
  shows "\<exists>s' r'. verifyCredentials cr cfg salt now kind email password tenant s = (Inl bad_credentials, s')
    \<and> byEmail kind email tenant s' = Some r' \<and> pr_password_hash r' = pr_password_hash r \<and> pr_status r' = Active
    \<and> pr_failed_logins r' = pr_failed_logins r + 1
    \<and> pr_locked_until r' = (if pr_failed_logins r + 1 \<ge> sc_maxFailedLogins cfg then Some (now + sc_lockoutMs cfg) else None)"
  using assms by (auto simp: verifyCredentials_def effect_simps Let_def q_recordFailure_def byEmail_update)

text \<open>A sequence of sign-in attempts on one account: the time and the password of each.\<close>

fun sign_ins :: "crypto \<Rightarrow> SessionConfig \<Rightarrow> byte list \<Rightarrow> PrincipalKind \<Rightarrow> string \<Rightarrow> string option \<Rightarrow> (int \<times> string) list \<Rightarrow> auth_db \<Rightarrow> auth_db" where
  "sign_ins cr cfg salt kind email tenant [] s = s"
| "sign_ins cr cfg salt kind email tenant ((now, password) # gs) s =
     sign_ins cr cfg salt kind email tenant gs (snd (verifyCredentials cr cfg salt now kind email password tenant s))"

lemma guesses_lock:
  assumes "byEmail kind email tenant s = Some r" "pr_locked_until r = None" "pr_status r = Active" "gs \<noteq> []"
    and "\<forall>(t, g) \<in> set gs. \<not> verifyPassword cr g (pr_password_hash r)"
    and "pr_failed_logins r + int (length gs) = sc_maxFailedLogins cfg"
  shows "\<exists>r'. byEmail kind email tenant (sign_ins cr cfg salt kind email tenant gs s) = Some r'
    \<and> pr_locked_until r' = Some (fst (last gs) + sc_lockoutMs cfg)"
  using assms
proof (induction gs arbitrary: s r)
  case (Cons g gs)
  obtain t p where g: "g = (t, p)" by fastforce
  have "\<not> locked t r" using Cons.prems(2) by (simp add: locked_def)
  from wrong_password [OF Cons.prems(1) this Cons.prems(3), of cr p cfg salt] Cons.prems(5) g obtain s' r' where
    w: "verifyCredentials cr cfg salt t kind email p tenant s = (Inl bad_credentials, s')" "byEmail kind email tenant s' = Some r'"
    "pr_password_hash r' = pr_password_hash r" "pr_status r' = Active" "pr_failed_logins r' = pr_failed_logins r + 1"
    "pr_locked_until r' = (if pr_failed_logins r + 1 \<ge> sc_maxFailedLogins cfg then Some (t + sc_lockoutMs cfg) else None)" by auto
  show ?case
  proof (cases "gs = []")
    case True
    with w Cons.prems(6) g show ?thesis by simp
  next
    case False
    then have "pr_locked_until r' = None" using w(6) Cons.prems(6) by (cases gs) auto
    from Cons.IH [OF w(2) this w(4) False] Cons.prems(5,6) w(1,3,5) g False show ?thesis by auto
  qed
qed simp

text \<open>C19. Guessing is bounded: after \<open>maxFailedLogins\<close> wrong passwords in a row, however they are spread over time, every
  further attempt before \<open>lockoutMs\<close> has passed since the last of them is refused as locked and changes nothing,
  the right password included.\<close>

theorem guesses_lock_the_account:
  assumes "byEmail kind email tenant s = Some r" "pr_locked_until r = None" "pr_status r = Active" "pr_failed_logins r = 0"
    and "gs \<noteq> []" "int (length gs) = sc_maxFailedLogins cfg" "\<forall>(t, g) \<in> set gs. \<not> verifyPassword cr g (pr_password_hash r)"
    and "s' = sign_ins cr cfg salt kind email tenant gs s" "now < fst (last gs) + sc_lockoutMs cfg"
  shows "verifyCredentials cr cfg salt now kind email password tenant s' =
    (Inl (AppError ACCOUNT_LOCKED ''Too many failed attempts. Try again later or use a recovery code.'' True), s')"
proof -
  from guesses_lock [OF assms(1-3,5,7)] assms(4,6,8) obtain r' where
    "byEmail kind email tenant s' = Some r'" "pr_locked_until r' = Some (fst (last gs) + sc_lockoutMs cfg)" by auto
  with assms(9) show ?thesis by (simp add: verifyCredentials_def effect_simps locked_def)
qed

section \<open>Second factors\<close>

text \<open>What an accepted second factor rested on: a time step, or the hash of a recovery code.\<close>

datatype evidence = Time_step int | Recovery_code string

definition matched_step :: "crypto \<Rightarrow> int \<Rightarrow> string \<Rightarrow> string \<Rightarrow> auth_db \<Rightarrow> int option" where
  "matched_step cr now pid code s =
     (case confirmedSecret pid s of
        None \<Rightarrow> None
      | Some t \<Rightarrow> (case verifyTotp cr (tt_secret t) code now (tt_last_step t) of Inr res \<Rightarrow> res | Inl _ \<Rightarrow> None))"

definition recovery_hash :: "crypto \<Rightarrow> string \<Rightarrow> string" where
  "recovery_hash cr code = hashToken cr (toLowerCase (js_trim code))"

definition factor_used :: "crypto \<Rightarrow> int \<Rightarrow> string \<Rightarrow> string \<Rightarrow> auth_db \<Rightarrow> evidence option" where
  "factor_used cr now pid code s =
     (if fst (verifySecondFactor cr now pid code s) = Inr True
      then (case matched_step cr now pid code s of
              Some k \<Rightarrow> Some (Time_step k)
            | None \<Rightarrow> Some (Recovery_code (recovery_hash cr code)))
      else None)"

fun factor_log :: "crypto \<Rightarrow> (int \<times> string \<times> string) list \<Rightarrow> auth_db \<Rightarrow> (string \<times> evidence) list" where
  "factor_log cr [] s = []"
| "factor_log cr ((now, pid, code) # cs) s =
     (case factor_used cr now pid code s of None \<Rightarrow> [] | Some e \<Rightarrow> [(pid, e)]) @
     factor_log cr cs (snd (verifySecondFactor cr now pid code s))"

definition spent :: "string \<Rightarrow> evidence \<Rightarrow> auth_db \<Rightarrow> bool" where
  "spent pid e s =
     (case e of
        Time_step k \<Rightarrow> (\<forall>t \<in> set (ad_totps s). tt_principal_id t = pid \<longrightarrow> (\<exists>m. tt_last_step t = Some m \<and> k \<le> m))
      | Recovery_code h \<Rightarrow> (\<forall>c \<in> set (ad_codes s). \<not> spendable pid h c))"

text \<open>\<open>verifySecondFactor\<close> as one of three transitions.\<close>

lemma second_factor_cases:
  obtains t k where "confirmedSecret pid s = Some t" "verifyTotp cr (tt_secret t) code now (tt_last_step t) = Inr (Some k)"
      "matched_step cr now pid code s = Some k" "verifySecondFactor cr now pid code s = (Inr True, advanceStep pid k s)"
  | "matched_step cr now pid code s = None"
      "verifySecondFactor cr now pid code s =
        (Inr (\<exists>c \<in> set (ad_codes s). spendable pid (recovery_hash cr code) c), snd (spend pid (recovery_hash cr code) now s))"
  | e where "verifySecondFactor cr now pid code s = (Inl e, s)"
proof -
  have c: "consumeRecoveryCode cr now pid code s =
      (Inr (\<exists>c \<in> set (ad_codes s). spendable pid (recovery_hash cr code) c), snd (spend pid (recovery_hash cr code) now s))"
    by (auto simp: consumeRecoveryCode_def recovery_hash_def spend_def filter_empty_conv)
  show ?thesis
  proof (cases "confirmedSecret pid s")
    case None
    with c that(2) show ?thesis by (simp add: verifySecondFactor_def effect_simps matched_step_def)
  next
    case (Some t)
    show ?thesis
    proof (cases "verifyTotp cr (tt_secret t) code now (tt_last_step t)")
      case (Inl e)
      with Some that(3) show ?thesis by (simp add: verifySecondFactor_def effect_simps)
    next
      case (Inr r)
      with Some c that(1,2) show ?thesis by (cases r) (simp_all add: verifySecondFactor_def effect_simps matched_step_def)
    qed
  qed
qed

lemma matched_step_above:
  assumes "matched_step cr now pid code s = Some l" "spent pid (Time_step k) s"
  shows "k < l"
proof -
  from assms(1) obtain t where t: "confirmedSecret pid s = Some t" "verifyTotp cr (tt_secret t) code now (tt_last_step t) = Inr (Some l)"
    by (auto simp: matched_step_def split: option.splits sum.splits)
  from t(1) have "t \<in> set (ad_totps s)" "tt_principal_id t = pid" by (auto simp: confirmedSecret_def find_Some_iff)
  with assms(2) obtain m where "tt_last_step t = Some m" "k \<le> m" by (auto simp: spent_def)
  with verifyTotp_Some(2) [OF t(2)] show ?thesis by auto
qed

lemma spent_advance: "spent pid e s \<Longrightarrow> (\<And>m. q = pid \<Longrightarrow> e = Time_step m \<Longrightarrow> m \<le> k) \<Longrightarrow> spent pid e (advanceStep q k s)"
  by (cases e) (auto simp: spent_def advanceStep_def update_totp_def)

lemma advance_spent: "spent pid (Time_step k) (advanceStep pid k s)"
  unfolding spent_def advanceStep_def update_totp_def by (simp add: ball_Un)

lemma spent_spend: "spent pid e s \<Longrightarrow> spent pid e (snd (spend q h now s))"
  by (cases e) (auto simp: spent_def spend_def spendable_def)

lemma spend_spent: "spent pid (Recovery_code h) (snd (spend pid h now s))"
  unfolding spent_def spend_def by (simp add: spendable_def ball_Un)

lemma spent_step:
  assumes "spent pid e s"
  shows "spent pid e (snd (verifySecondFactor cr now q code s))"
proof (cases rule: second_factor_cases [of q s cr code now])
  case (1 t k)
  have "m \<le> k" if "q = pid" "e = Time_step m" for m using matched_step_above [OF 1(3), of m] assms that by simp
  with assms show ?thesis unfolding 1(4) snd_conv by (rule spent_advance)
next
  case 2
  from assms show ?thesis unfolding 2(2) snd_conv by (rule spent_spend)
next
  case (3 err)
  with assms show ?thesis by simp
qed

lemma used_spent:
  assumes "factor_used cr now pid code s = Some e"
  shows "spent pid e (snd (verifySecondFactor cr now pid code s))"
proof (cases rule: second_factor_cases [of pid s cr code now])
  case (1 t k)
  with assms have "e = Time_step k" by (simp add: factor_used_def)
  then show ?thesis unfolding 1(4) snd_conv by (simp only: advance_spent)
next
  case 2
  with assms have "e = Recovery_code (recovery_hash cr code)" by (simp add: factor_used_def split: if_splits)
  then show ?thesis unfolding 2(2) snd_conv by (simp only: spend_spent)
next
  case (3 err)
  with assms show ?thesis by (simp add: factor_used_def)
qed

definition after :: "string \<times> evidence \<Rightarrow> string \<times> evidence \<Rightarrow> bool" where
  "after a b \<longleftrightarrow> a \<noteq> b \<and> (\<forall>k l. fst a = fst b \<longrightarrow> snd a = Time_step k \<longrightarrow> snd b = Time_step l \<longrightarrow> k < l)"

lemma spent_not_used:
  assumes "spent pid e s" "factor_used cr now q code s = Some f"
  shows "after (pid, e) (q, f)"
proof (cases rule: second_factor_cases [of q s cr code now])
  case (1 t k)
  with assms(2) have "f = Time_step k" by (simp add: factor_used_def)
  moreover have "q = pid \<Longrightarrow> e = Time_step m \<Longrightarrow> m < k" for m using matched_step_above [OF 1(3)] assms(1) by simp
  ultimately show ?thesis by (cases e) (auto simp: after_def)
next
  case 2
  with assms(2) have "f = Recovery_code (recovery_hash cr code)" "\<exists>c \<in> set (ad_codes s). spendable q (recovery_hash cr code) c"
    by (simp_all add: factor_used_def split: if_splits)
  with assms(1) show ?thesis by (cases e) (auto simp: after_def spent_def)
next
  case (3 err)
  with assms(2) show ?thesis by (simp add: factor_used_def)
qed

lemma spent_log: "spent pid e s \<Longrightarrow> list_all (after (pid, e)) (factor_log cr cs s)"
proof (induction cr cs s rule: factor_log.induct)
  case (2 cr now q code cs s)
  from 2(1) [OF spent_step [OF 2(2)]] spent_not_used [OF 2(2), of cr now q code] show ?case by (simp split: option.splits)
qed simp

text \<open>C18. A second factor works once: over any sequence of verifications, for any accounts and at any times, no time step and
  no recovery code of an account is accepted twice, and the accepted time steps of an account only increase.\<close>

theorem second_factor_single_use:
  "sorted_wrt after (factor_log cr cs s) \<and> distinct (factor_log cr cs s)"
proof -
  have "sorted_wrt after (factor_log cr cs s)"
  proof (induction cr cs s rule: factor_log.induct)
    case (2 cr now pid code cs s)
    then show ?case using spent_log [OF used_spent, of cr now pid code s _ cr cs]
      by (auto simp: list_all_iff split: option.splits)
  qed simp
  moreover have "sorted_wrt after l \<Longrightarrow> distinct l" for l
    by (induction l) (auto simp: after_def)
  ultimately show ?thesis by blast
qed

section \<open>Witnesses\<close>

definition ex_meta :: client_meta where
  "ex_meta = \<lparr>cm_ip = Some ''10.0.0.1'', cm_userAgent = None\<rparr>"

definition ex_staff :: new_principal where
  "ex_staff = \<lparr>np_kind = Operator, np_tenantId = None, np_email = ''a@b.c'', np_password = ''secret'', np_role = ''viewer'', np_mustChangePassword = False\<rparr>"

definition ex_auth0 :: auth_db where
  "ex_auth0 = snd (createPrincipal ex_crypto ''p1'' [7] 0 ex_staff (auth_db_init []))"

definition ex_auth1 :: auth_db where
  "ex_auth1 = snd (createSession ex_crypto DEFAULT_SESSION_CONFIG ''s1'' ''tok'' ''csrf'' ''p1'' ex_meta 5 ex_auth0)"

definition ex_hash :: "string \<Rightarrow> string" where
  "ex_hash p = ''scrypt$65536$8$1$'' @ base64url_encode [7] @ ''$'' @ base64url_encode (replicate 32 (word_of_nat (length p)))"

lemma ex_hashPassword: "hashPassword ex_crypto [7] p = Inr (ex_hash p)"
  by (simp add: hashPassword_def ex_crypto_def shown_parameters ex_hash_def SCRYPT_KEYLEN_def)

lemma ex_verifyPassword: "verifyPassword ex_crypto q (ex_hash p) \<longleftrightarrow> (word_of_nat (length q) :: byte) = word_of_nat (length p)"
proof -
  have l: "length k = l" if "cr_scrypt ex_crypto x y l ps = Some k" for x y l ps k using that by (auto simp: ex_crypto_def)
  have "verifyPassword ex_crypto q (ex_hash p) \<longleftrightarrow>
      cr_scrypt ex_crypto (cr_nfkc ex_crypto q) [7] SCRYPT_KEYLEN (Some SCRYPT_N, Some SCRYPT_R, Some SCRYPT_P) =
      cr_scrypt ex_crypto (cr_nfkc ex_crypto p) [7] SCRYPT_KEYLEN (Some SCRYPT_N, Some SCRYPT_R, Some SCRYPT_P)"
    by (rule verifyPassword_hash(1) [OF ex_hashPassword]) (rule l)
  then show ?thesis by (simp add: ex_crypto_def SCRYPT_KEYLEN_def)
qed

lemma ex_auth0_eq: "ex_auth0 = (auth_db_init [])\<lparr>ad_principals := [principal_row ex_staff ''p1'' (ex_hash ''secret'') ''viewer'' 0]\<rparr>"
proof -
  have "valid_email (js_trim ''a@b.c'')" by code_simp
  then show ?thesis
    by (simp add: ex_auth0_def createPrincipal_def ex_staff_def parseRole_def roles_of_def OPERATOR_ROLES_def effect_simps Let_def
        ex_hashPassword principal_insert_def principal_row_def tenant_shape_def auth_db_init_def)
qed

lemma ex_auth1_eq: "ad_sessions ex_auth1 = [session_of ex_crypto DEFAULT_SESSION_CONFIG ''s1'' ''tok'' ''csrf'' ''p1'' ex_meta 5]"
  by (simp add: ex_auth1_def createSession_def ex_auth0_eq effect_simps session_insert_def auth_db_init_def session_of_def byId_def
      principal_row_def touchLastLogin_def update_principal_def)

lemma ex_auth_runs: "auth_runs DEFAULT_SESSION_CONFIG (auth_db_init []) ex_auth1"
  using runs_methods(1) [of DEFAULT_SESSION_CONFIG ex_crypto "''p1''" "[7]" 0 ex_staff]
    runs_methods(7) [of DEFAULT_SESSION_CONFIG ex_crypto "''s1''" "''tok''" "''csrf''" "''p1''" ex_meta 5]
  unfolding runs_statements_def ex_auth1_def ex_auth0_def by (blast intro: rtranclp_trans)

theorem session_bounded_witness:
  "sn_idleExpiresAt (rd_session (the (case fst (resolveSession ex_crypto DEFAULT_SESSION_CONFIG ''tok'' 9 ex_auth1) of Inr r \<Rightarrow> r | Inl _ \<Rightarrow> None)))
     \<le> 5 + sc_absoluteMs DEFAULT_SESSION_CONFIG"
proof -
  obtain res s' where r: "resolveSession ex_crypto DEFAULT_SESSION_CONFIG ''tok'' 9 ex_auth1 = (Inr (Some res), s')"
  proof -
    have "byId ''p1'' ex_auth1 = Some ((principal_row ex_staff ''p1'' (ex_hash ''secret'') ''viewer'' 0)\<lparr>pr_last_login_at := Some 5\<rparr>)"
      by (simp add: ex_auth1_def createSession_def ex_auth0_eq effect_simps session_insert_def auth_db_init_def session_of_def byId_def
          principal_row_def touchLastLogin_def update_principal_def)
    then have "resolveByTokenHash (hashToken ex_crypto ''tok'') 9 ex_auth1 \<noteq> []"
      by (simp add: resolveByTokenHash_def ex_auth1_eq session_of_def live_def DEFAULT_SESSION_CONFIG_def List.map_filter_def principal_row_def)
    then show ?thesis using that by (auto simp: neq_Nil_conv resolveSession_def effect_simps Let_def)
  qed
  from session_bounded [OF ex_auth_runs r] r show ?thesis by (auto simp: ex_auth1_eq session_of_def)
qed

theorem revocation_final_witness:
  "resolveSession ex_crypto DEFAULT_SESSION_CONFIG ''tok'' 9 (snd (revokeAllSessions ''p1'' ''signed out'' 7 ex_auth1)) =
     (Inr None, snd (revokeAllSessions ''p1'' ''signed out'' 7 ex_auth1))"
proof -
  obtain n s1 where e: "revokeAllSessions ''p1'' ''signed out'' 7 ex_auth1 = (Inr n, s1)"
    by (cases "revokeAllSessions ''p1'' ''signed out'' 7 ex_auth1") (auto simp: revokeAllSessions_def split: prod.splits)
  show ?thesis
    unfolding e snd_conv
    by (rule revocation_final [OF ex_auth_runs e rtranclp.rtrancl_refl, of "session_of ex_crypto DEFAULT_SESSION_CONFIG ''s1'' ''tok'' ''csrf'' ''p1'' ex_meta 5"])
      (simp_all add: ex_auth1_eq session_of_def)
qed

theorem guesses_lock_the_account_witness:
  "let s = sign_ins ex_crypto DEFAULT_SESSION_CONFIG [7] Operator ''A@b.c'' None (map (\<lambda>t. (t, ''guess'')) [10, 20, 30, 40, 50]) ex_auth0 in
   verifyCredentials ex_crypto DEFAULT_SESSION_CONFIG [7] 60 Operator ''A@b.c'' ''secret'' None s =
     (Inl (AppError ACCOUNT_LOCKED ''Too many failed attempts. Try again later or use a recovery code.'' True), s)"
proof -
  have "toLowerCase ''a@b.c'' = toLowerCase ''A@b.c''" "js_trim ''a@b.c'' = ''a@b.c''" by code_simp+
  then have "byEmail Operator ''A@b.c'' None ex_auth0 = Some (principal_row ex_staff ''p1'' (ex_hash ''secret'') ''viewer'' 0)"
    by (simp add: ex_auth0_eq byEmail_def auth_db_init_def principal_row_def ex_staff_def)
  then show ?thesis unfolding Let_def
    by (rule guesses_lock_the_account [OF _ _ _ _ _ _ _ refl])
      (simp_all add: principal_row_def ex_verifyPassword DEFAULT_SESSION_CONFIG_def)
qed

end
