(* ===== verification/Tenants.thy ===== *)
theory Tenants
  imports Auth_Crypto
begin

text \<open>
  Tenants, their API keys and sub-accounts (\<open>TenantStore\<close>, \<open>src/stores/tenant.store.ts\<close>, over the queries of
  \<open>src/queries/tenant.queries.ts\<close>), and the store of answered requests (\<open>src/api/idempotency.ts\<close>).

  A key is stored as its hash. Identifiers and keys are random values and so arguments.
\<close>

section \<open>Scopes\<close>

definition SCOPES :: "string list" where
  "SCOPES = [''read'', ''move-funds'', ''approve'']"

text \<open>The \<open>unknown\<close> input: absent or null, an array, or anything else.\<close>

datatype scopes_input = Scopes_absent | Scopes_array "string list" | Scopes_other

definition parseScopes :: "scopes_input \<Rightarrow> app_error + string list" where
  "parseScopes input =
     (case input of
        Scopes_absent \<Rightarrow> Inr SCOPES
      | Scopes_other \<Rightarrow> Inl (AppError INVALID_SCOPES ''scopes must be a non-empty array'' True)
      | Scopes_array xs \<Rightarrow>
          if xs = [] then Inl (AppError INVALID_SCOPES ''scopes must be a non-empty array'' True)
          else let bad = filter (\<lambda>s. s \<notin> set SCOPES) xs in
            if bad \<noteq> [] then Inl (AppError INVALID_SCOPES (''Unknown scope(s): '' @ join_with '', '' bad @ ''. Valid scopes are ''
              @ join_with '', '' SCOPES @ ''.'') True)
            else Inr (rev (remdups (rev xs))))"

section \<open>Tables\<close>

record api_key_row =
  ak_key_hash :: string
  ak_tenant_id :: string
  ak_id :: string
  ak_label :: "string option"
  ak_scopes :: "string list"
  ak_created_at :: int
  ak_revoked_at :: "int option"
  ak_revoked_reason :: "string option"

record account_row =
  ac_id :: string
  ac_tenant_id :: string
  ac_external_ref :: "string option"
  ac_created_at :: int

record idempotency_row =
  ik_tenant_id :: string
  ik_key :: string
  ik_status :: "int option"
  ik_response :: "string option"

record tenant_db =
  td_tenants :: "(string \<times> string) list"
  td_keys :: "api_key_row list"
  td_accounts :: "account_row list"
  td_idempotency :: "idempotency_row list"

definition tenant_db_init :: tenant_db where
  "tenant_db_init = \<lparr>td_tenants = [], td_keys = [], td_accounts = [], td_idempotency = []\<rparr>"

record Tenant =
  te_id :: string
  te_name :: string
  te_keyId :: string
  te_scopes :: "string list"

record Account =
  ca_id :: string
  ca_tenantId :: string
  ca_externalRef :: "string option"

section \<open>Keys\<close>

definition tenant_insert :: "string \<Rightarrow> string \<Rightarrow> (tenant_db, app_error, unit) eff" where
  "tenant_insert tid name db =
     (if map_of (td_tenants db) tid \<noteq> None then (Inl (JsError ''duplicate key tenant_pkey''), db)
      else (Inr (), db\<lparr>td_tenants := td_tenants db @ [(tid, name)]\<rparr>))"

definition key_insert :: "api_key_row \<Rightarrow> (tenant_db, app_error, unit) eff" where
  "key_insert k db =
     (if list_ex (\<lambda>q. ak_key_hash q = ak_key_hash k) (td_keys db) then (Inl (JsError ''duplicate key api_key_pkey''), db)
      else if list_ex (\<lambda>q. ak_id q = ak_id k) (td_keys db) then (Inl (JsError ''duplicate key api_key_id''), db)
      else if map_of (td_tenants db) (ak_tenant_id k) = None
        then (Inl (JsError ''violates foreign key constraint api_key_tenant_id_fkey''), db)
      else (Inr (), db\<lparr>td_keys := td_keys db @ [k]\<rparr>))"

definition hashKey :: "crypto \<Rightarrow> string \<Rightarrow> string" where
  "hashKey cr key = cr_sha256 cr key"

text \<open>\<open>cxk_\<close> and 24 random bytes in hexadecimal\<close>

definition new_apiKey :: "byte list \<Rightarrow> string" where
  "new_apiKey random = ''cxk_'' @ hex_of_bytes random"

definition key_row :: "crypto \<Rightarrow> string \<Rightarrow> string \<Rightarrow> string \<Rightarrow> string list \<Rightarrow> string option \<Rightarrow> int \<Rightarrow> api_key_row" where
  "key_row cr apiKey tid keyId scopes label now =
     \<lparr>ak_key_hash = hashKey cr apiKey, ak_tenant_id = tid, ak_id = keyId, ak_label = label, ak_scopes = scopes, ak_created_at = now,
      ak_revoked_at = None, ak_revoked_reason = None\<rparr>"

definition createTenant ::
  "crypto \<Rightarrow> string \<Rightarrow> string \<Rightarrow> byte list \<Rightarrow> int \<Rightarrow> string \<Rightarrow> string list \<Rightarrow> (tenant_db, app_error, Tenant \<times> string) eff" where
  "createTenant cr tid keyId random now name scopes =
     (let apiKey = new_apiKey random in
      bind (tenant_insert tid name) (\<lambda>_.
      bind (key_insert (key_row cr apiKey tid keyId scopes None now)) (\<lambda>_.
        ret (\<lparr>te_id = tid, te_name = name, te_keyId = keyId, te_scopes = scopes\<rparr>, apiKey))))"

definition live_key :: "string \<Rightarrow> tenant_db \<Rightarrow> api_key_row option" where
  "live_key hash db =
     find (\<lambda>k. ak_key_hash k = hash \<and> ak_revoked_at k = None \<and> map_of (td_tenants db) (ak_tenant_id k) \<noteq> None) (td_keys db)"

definition authenticate :: "crypto \<Rightarrow> string option \<Rightarrow> (tenant_db, app_error, Tenant) eff" where
  "authenticate cr apiKey =
     (case apiKey of
        None \<Rightarrow> throw (AppError UNAUTHORIZED ''Missing API key'' True)
      | Some key \<Rightarrow>
          if key = [] then throw (AppError UNAUTHORIZED ''Missing API key'' True)
          else bind (reads (\<lambda>db. map_option (\<lambda>k. \<lparr>te_id = ak_tenant_id k, te_name = the (map_of (td_tenants db) (ak_tenant_id k)),
              te_keyId = ak_id k, te_scopes = ak_scopes k\<rparr>) (live_key (hashKey cr key) db))) (\<lambda>row.
            case row of
              None \<Rightarrow> throw (AppError UNAUTHORIZED ''Invalid API key'' True)
            | Some t \<Rightarrow> ret t))"

definition tenant_not_found :: "string \<Rightarrow> app_error" where
  "tenant_not_found tid = AppError ACCOUNT_NOT_FOUND (''Tenant '' @ tid @ '' not found'') False"

definition issueKey ::
  "crypto \<Rightarrow> string \<Rightarrow> byte list \<Rightarrow> int \<Rightarrow> string \<Rightarrow> string list \<Rightarrow> string option \<Rightarrow> (tenant_db, app_error, string) eff" where
  "issueKey cr keyId random now tid scopes label =
     bind (reads (\<lambda>db. map_of (td_tenants db) tid)) (\<lambda>found.
     if found = None then throw (tenant_not_found tid)
     else let apiKey = new_apiKey random in
       bind (key_insert (key_row cr apiKey tid keyId scopes label now)) (\<lambda>_. ret apiKey))"

definition listKeys :: "string \<Rightarrow> tenant_db \<Rightarrow> api_key_row list" where
  "listKeys tid db = sort_key (\<lambda>k. - ak_created_at k) (filter (\<lambda>k. ak_tenant_id k = tid) (td_keys db))"

definition liveIdsFor :: "string \<Rightarrow> tenant_db \<Rightarrow> string list" where
  "liveIdsFor tid db = map ak_id (filter (\<lambda>k. ak_tenant_id k = tid \<and> ak_revoked_at k = None) (td_keys db))"

definition revoke_key_rows :: "(api_key_row \<Rightarrow> bool) \<Rightarrow> string \<Rightarrow> int \<Rightarrow> tenant_db \<Rightarrow> tenant_db" where
  "revoke_key_rows P reason now db =
     db\<lparr>td_keys := map (\<lambda>k. if P k \<and> ak_revoked_at k = None
          then k\<lparr>ak_revoked_at := Some now, ak_revoked_reason := Some reason\<rparr> else k) (td_keys db)\<rparr>"

definition rotateKeys ::
  "crypto \<Rightarrow> string \<Rightarrow> byte list \<Rightarrow> int \<Rightarrow> string \<Rightarrow> string option \<Rightarrow> string list option \<Rightarrow> string option \<Rightarrow>
   (tenant_db, app_error, string \<times> string \<times> string list) eff" where
  "rotateKeys cr keyId random now tid reason scopes label = transaction
     (bind (reads (\<lambda>db. map_of (td_tenants db) tid)) (\<lambda>found.
      if found = None then throw (tenant_not_found tid)
      else
        bind (reads (liveIdsFor tid)) (\<lambda>revokedKeyIds.
        let apiKey = new_apiKey random in
        bind (key_insert (key_row cr apiKey tid keyId (case scopes of Some s \<Rightarrow> s | None \<Rightarrow> SCOPES)
            (Some (case label of Some l \<Rightarrow> l | None \<Rightarrow> ''rotated'')) now)) (\<lambda>_.
        bind (if revokedKeyIds \<noteq> []
              then modify (revoke_key_rows (\<lambda>k. ak_id k \<in> set revokedKeyIds) (case reason of Some r \<Rightarrow> r | None \<Rightarrow> ''rotated'') now)
              else ret ()) (\<lambda>_.
          ret (apiKey, keyId, revokedKeyIds))))))"

definition revokeKey :: "int \<Rightarrow> string \<Rightarrow> string \<Rightarrow> string option \<Rightarrow> (tenant_db, app_error, bool) eff" where
  "revokeKey now tid keyId reason db =
     (let P = (\<lambda>k. ak_tenant_id k = tid \<and> ak_id k = keyId) in
      (Inr (list_ex (\<lambda>k. P k \<and> ak_revoked_at k = None) (td_keys db)),
       revoke_key_rows P (case reason of Some r \<Rightarrow> r | None \<Rightarrow> ''revoked'') now db))"

section \<open>Accounts\<close>

definition account_of :: "account_row \<Rightarrow> Account" where
  "account_of a = \<lparr>ca_id = ac_id a, ca_tenantId = ac_tenant_id a, ca_externalRef = ac_external_ref a\<rparr>"

definition listAccounts :: "string \<Rightarrow> nat \<Rightarrow> tenant_db \<Rightarrow> (Account \<times> int) list" where
  "listAccounts tid limit db =
     map (\<lambda>a. (account_of a, ac_created_at a))
       (take limit (sort_key (\<lambda>a. - ac_created_at a) (filter (\<lambda>a. ac_tenant_id a = tid) (td_accounts db))))"

definition account_insert :: "account_row \<Rightarrow> (tenant_db, app_error, unit) eff" where
  "account_insert a db =
     (if list_ex (\<lambda>b. ac_id b = ac_id a) (td_accounts db) then (Inl (JsError ''duplicate key account_pkey''), db)
      else if map_of (td_tenants db) (ac_tenant_id a) = None
        then (Inl (JsError ''violates foreign key constraint account_tenant_id_fkey''), db)
      else (Inr (), db\<lparr>td_accounts := td_accounts db @ [a]\<rparr>))"

definition createAccount :: "string \<Rightarrow> int \<Rightarrow> string \<Rightarrow> string option \<Rightarrow> (tenant_db, app_error, Account) eff" where
  "createAccount uuid now tid externalRef =
     bind (account_insert \<lparr>ac_id = uuid, ac_tenant_id = tid, ac_external_ref = externalRef, ac_created_at = now\<rparr>) (\<lambda>_.
       ret \<lparr>ca_id = uuid, ca_tenantId = tid, ca_externalRef = externalRef\<rparr>)"

definition requireAccount :: "string \<Rightarrow> string \<Rightarrow> (tenant_db, app_error, Account) eff" where
  "requireAccount tid accountId =
     bind (reads (\<lambda>db. find (\<lambda>a. ac_id a = accountId \<and> ac_tenant_id a = tid) (td_accounts db))) (\<lambda>row.
     case row of
       None \<Rightarrow> throw (AppError ACCOUNT_NOT_FOUND (''Account '' @ accountId @ '' not found'') True)
     | Some a \<Rightarrow> ret (account_of a))"

section \<open>Answered requests\<close>

record StoredResponse =
  sr_status :: int
  sr_body :: string

definition in_progress :: StoredResponse where
  "in_progress = \<lparr>sr_status = 409, sr_body = ''{\"error\":{\"code\":\"IN_PROGRESS\",\"message\":\"request in progress\"}}''\<rparr>"

definition ik_is :: "string \<Rightarrow> string \<Rightarrow> idempotency_row \<Rightarrow> bool" where
  "ik_is tid key r \<longleftrightarrow> ik_tenant_id r = tid \<and> ik_key r = key"

text \<open>\<open>None\<close>: the key is reserved for this request.\<close>

definition idem_begin :: "string \<Rightarrow> string \<Rightarrow> (tenant_db, app_error, StoredResponse option) eff" where
  "idem_begin tid key db =
     (case find (ik_is tid key) (td_idempotency db) of
        None \<Rightarrow> (Inr None, db\<lparr>td_idempotency := td_idempotency db @ [\<lparr>ik_tenant_id = tid, ik_key = key, ik_status = None, ik_response = None\<rparr>]\<rparr>)
      | Some r \<Rightarrow> (Inr (Some (case ik_response r of
            None \<Rightarrow> in_progress
          | Some body \<Rightarrow> \<lparr>sr_status = (case ik_status r of Some n \<Rightarrow> n | None \<Rightarrow> 0), sr_body = body\<rparr>)), db))"

definition idem_complete :: "string \<Rightarrow> string \<Rightarrow> int \<Rightarrow> string \<Rightarrow> (tenant_db, app_error, unit) eff" where
  "idem_complete tid key status body = modify (\<lambda>db.
     db\<lparr>td_idempotency := map (\<lambda>r. if ik_is tid key r then r\<lparr>ik_status := Some status, ik_response := Some body\<rparr> else r) (td_idempotency db)\<rparr>)"

definition idem_release :: "string \<Rightarrow> string \<Rightarrow> (tenant_db, app_error, unit) eff" where
  "idem_release tid key = modify (\<lambda>db. db\<lparr>td_idempotency := filter (\<lambda>r. \<not> ik_is tid key r) (td_idempotency db)\<rparr>)"

section \<open>Rotation\<close>

text \<open>One statement on the tables; the closure covers concurrent requests.\<close>

inductive key_sql :: "tenant_db \<Rightarrow> tenant_db \<Rightarrow> bool" where
  add_tenant: "tenant_insert tid name s = (res, s') \<Longrightarrow> key_sql s s'"
| add_key: "key_insert (key_row cr apiKey tid keyId scopes label now) s = (res, s') \<Longrightarrow> key_sql s s'"
| end_keys: "key_sql s (revoke_key_rows P reason now s)"
| others: "key_sql s (s\<lparr>td_accounts := a, td_idempotency := i\<rparr>)"

abbreviation key_runs :: "tenant_db \<Rightarrow> tenant_db \<Rightarrow> bool" where
  "key_runs \<equiv> key_sql\<^sup>*\<^sup>*"

definition keys_ok :: "tenant_db \<Rightarrow> bool" where
  "keys_ok s \<longleftrightarrow> distinct (map ak_key_hash (td_keys s)) \<and> distinct (map ak_id (td_keys s))"

definition dead_key :: "string \<Rightarrow> tenant_db \<Rightarrow> bool" where
  "dead_key h s \<longleftrightarrow> (\<exists>k \<in> set (td_keys s). ak_key_hash k = h \<and> ak_revoked_at k \<noteq> None)"

lemma keys_ok_revoke: "keys_ok s \<Longrightarrow> keys_ok (revoke_key_rows P reason now s)"
proof -
  assume ok: "keys_ok s"
  let ?g = "\<lambda>k. if P k \<and> ak_revoked_at k = None then k\<lparr>ak_revoked_at := Some now, ak_revoked_reason := Some reason\<rparr> else k"
  have "ak_key_hash \<circ> ?g = ak_key_hash" "ak_id \<circ> ?g = ak_id" by auto
  with ok show ?thesis by (simp add: keys_ok_def revoke_key_rows_def)
qed

lemma key_sql_ok: "key_sql s s' \<Longrightarrow> keys_ok s \<Longrightarrow> keys_ok s'"
proof (induction rule: key_sql.induct)
  case (end_keys s P reason now)
  then show ?case by (rule keys_ok_revoke)
qed (auto simp: tenant_insert_def key_insert_def keys_ok_def list_ex_iff split: if_splits)

lemma key_runs_ok: "key_runs s s' \<Longrightarrow> keys_ok s \<Longrightarrow> keys_ok s'"
  by (induction rule: rtranclp_induct) (auto intro: key_sql_ok)

lemma dead_key_mapI:
  "k \<in> set (td_keys s) \<Longrightarrow> ak_key_hash (g k) = h \<Longrightarrow> ak_revoked_at (g k) \<noteq> None \<Longrightarrow> dead_key h (s\<lparr>td_keys := map g (td_keys s)\<rparr>)"
  unfolding dead_key_def by (intro bexI [of _ "g k"]) auto

lemma dead_key_sql: "key_sql s s' \<Longrightarrow> dead_key h s \<Longrightarrow> dead_key h s'"
proof (induction rule: key_sql.induct)
  case (end_keys s P reason now)
  then obtain k where "k \<in> set (td_keys s)" "ak_key_hash k = h" "ak_revoked_at k \<noteq> None" by (auto simp: dead_key_def)
  then show ?case unfolding revoke_key_rows_def by (intro dead_key_mapI [of k]) auto
qed (auto simp: tenant_insert_def key_insert_def dead_key_def split: if_splits)

lemma dead_key_runs: "key_runs s s' \<Longrightarrow> dead_key h s \<Longrightarrow> dead_key h s'"
  by (induction rule: rtranclp_induct) (auto intro: dead_key_sql)

lemma live_key_Some: "live_key h s = Some k \<Longrightarrow> k \<in> set (td_keys s) \<and> ak_key_hash k = h \<and> ak_revoked_at k = None"
  by (auto simp: live_key_def find_Some_iff)

lemma dead_key_refused:
  assumes "keys_ok s" "dead_key (hashKey cr key) s" "key \<noteq> []"
  shows "authenticate cr (Some key) s = (Inl (AppError UNAUTHORIZED ''Invalid API key'' True), s)"
proof (cases "live_key (hashKey cr key) s")
  case (Some k)
  from assms(2) obtain q where q: "q \<in> set (td_keys s)" "ak_key_hash q = hashKey cr key" "ak_revoked_at q \<noteq> None"
    by (auto simp: dead_key_def)
  with live_key_Some [OF Some] assms(1) have "q = k" by (auto simp: keys_ok_def distinct_map inj_on_def)
  with q live_key_Some [OF Some] show ?thesis by simp
qed (simp add: authenticate_def effect_simps assms(3))

lemma key_insert_cases: "key_insert k s = (Inr u, s') \<Longrightarrow> s' = s\<lparr>td_keys := td_keys s @ [k]\<rparr> \<and> ak_id k \<notin> ak_id ` set (td_keys s)"
  by (auto simp: key_insert_def list_ex_iff split: if_splits)

lemma rotateKeys_unfold:
  "rotateKeys cr keyId random now tid reason scopes label s =
     (if map_of (td_tenants s) tid = None then (Inl (tenant_not_found tid), s)
      else case key_insert (key_row cr (new_apiKey random) tid keyId (case scopes of Some x \<Rightarrow> x | None \<Rightarrow> SCOPES)
             (Some (case label of Some l \<Rightarrow> l | None \<Rightarrow> ''rotated'')) now) s of
          (Inl e, s') \<Rightarrow> (Inl e, s)
        | (Inr u, s') \<Rightarrow> (Inr (new_apiKey random, keyId, liveIdsFor tid s),
            if liveIdsFor tid s = [] then s'
            else revoke_key_rows (\<lambda>k. ak_id k \<in> set (liveIdsFor tid s)) (case reason of Some x \<Rightarrow> x | None \<Rightarrow> ''rotated'') now s'))"
proof (cases "map_of (td_tenants s) tid")
  case None
  then show ?thesis by (simp add: rotateKeys_def transaction_def effect_simps)
next
  case (Some name)
  let ?i = "key_insert (key_row cr (new_apiKey random) tid keyId (case scopes of Some x \<Rightarrow> x | None \<Rightarrow> SCOPES)
             (Some (case label of Some l \<Rightarrow> l | None \<Rightarrow> ''rotated'')) now) s"
  obtain r s' where i: "?i = (r, s')" by fastforce
  with Some show ?thesis
    by (cases r) (simp_all add: rotateKeys_def transaction_def Let_def effect_simps)
qed

text \<open>A successful rotation: the new row is appended and every live row of the tenant is stamped.\<close>

lemma rotateKeys_run:
  assumes "rotateKeys cr keyId random now tid reason scopes label s = (Inr (apiKey, keyId', ids), s1)" "keys_ok s"
  defines "n \<equiv> key_row cr apiKey tid keyId (case scopes of Some x \<Rightarrow> x | None \<Rightarrow> SCOPES) (Some (case label of Some l \<Rightarrow> l | None \<Rightarrow> ''rotated'')) now"
  shows "apiKey = new_apiKey random" "map_of (td_tenants s) tid \<noteq> None" "td_tenants s1 = td_tenants s" "key_runs s s1"
    "n \<in> set (td_keys s1)"
    "\<forall>k \<in> set (td_keys s). ak_tenant_id k = tid \<longrightarrow> dead_key (ak_key_hash k) s1"
proof -
  let ?r = "case reason of Some x \<Rightarrow> x | None \<Rightarrow> ''rotated''"
  let ?P = "\<lambda>k. ak_id k \<in> set (liveIdsFor tid s)"
  define s0 where "s0 = s\<lparr>td_keys := td_keys s @ [n]\<rparr>"
  show 1: "apiKey = new_apiKey random" "map_of (td_tenants s) tid \<noteq> None"
    using assms(1) unfolding rotateKeys_unfold by (auto split: if_splits prod.splits sum.splits)
  obtain u s' where i: "key_insert n s = (Inr u, s')" and s1': "s1 = (if liveIdsFor tid s = [] then s' else revoke_key_rows ?P ?r now s')"
    using assms(1) unfolding rotateKeys_unfold n_def by (auto split: if_splits prod.splits sum.splits)
  from key_insert_cases [OF i] have ins: "key_insert n s = (Inr u, s0)" and fresh: "ak_id n \<notin> ak_id ` set (td_keys s)"
    using i by (simp_all add: s0_def)
  from s1' key_insert_cases [OF i] have s1: "s1 = (if liveIdsFor tid s = [] then s0 else revoke_key_rows ?P ?r now s0)"
    by (simp add: s0_def)
  show "td_tenants s1 = td_tenants s" by (simp add: s1 s0_def revoke_key_rows_def)
  have "key_sql s s0" using key_sql.add_key ins unfolding n_def by blast
  then show "key_runs s s1" unfolding s1 by (auto intro: rtranclp.rtrancl_into_rtrancl key_sql.end_keys)
  note fresh
  moreover have "set (liveIdsFor tid s) \<subseteq> ak_id ` set (td_keys s)" by (auto simp: liveIdsFor_def)
  ultimately have "\<not> ?P n" by blast
  then show "n \<in> set (td_keys s1)" by (auto simp: s1 s0_def revoke_key_rows_def image_iff)
  show "\<forall>k \<in> set (td_keys s). ak_tenant_id k = tid \<longrightarrow> dead_key (ak_key_hash k) s1"
  proof (intro ballI impI)
    fix k assume k: "k \<in> set (td_keys s)" "ak_tenant_id k = tid"
    show "dead_key (ak_key_hash k) s1"
    proof (cases "ak_revoked_at k")
      case None
      with k have "ak_id k \<in> set (liveIdsFor tid s)" by (auto simp: liveIdsFor_def)
      then have "s1 = revoke_key_rows ?P ?r now s0" "?P k" by (auto simp: s1)
      then show ?thesis using k(1) unfolding revoke_key_rows_def
        by (simp, intro dead_key_mapI [of k]) (auto simp: s0_def)
    next
      case (Some t)
      with k have "dead_key (ak_key_hash k) s" by (auto simp: dead_key_def)
      with \<open>key_runs s s1\<close> show ?thesis by (rule dead_key_runs)
    qed
  qed
qed

text \<open>C20. Rotation replaces every key of a tenant: the new key is accepted for that tenant with the scopes asked for, and no
  key the tenant had before is accepted again, whatever statements follow.\<close>

theorem rotation_replaces_keys:
  assumes "key_runs tenant_db_init s" and "rotateKeys cr keyId random now tid reason (Some scopes) label s = (Inr (apiKey, keyId', ids), s1)"
    and "key_runs s1 s2" and "k \<in> set (td_keys s)" "ak_tenant_id k = tid" "ak_key_hash k = hashKey cr old" "old \<noteq> []"
  shows "authenticate cr (Some old) s2 = (Inl (AppError UNAUTHORIZED ''Invalid API key'' True), s2)
    \<and> (\<exists>t. authenticate cr (Some apiKey) s1 = (Inr t, s1) \<and> te_id t = tid \<and> te_keyId t = keyId \<and> te_scopes t = scopes)"
proof -
  have ok: "keys_ok s" using key_runs_ok [OF assms(1)] by (simp add: keys_ok_def tenant_db_init_def)
  note run = rotateKeys_run [OF assms(2) ok]
  have "dead_key (hashKey cr old) s2" using run(6) assms(3-6) dead_key_runs by fastforce
  moreover have "keys_ok s2" using key_runs_ok [OF assms(3)] key_runs_ok [OF run(4) ok] by blast
  ultimately have "authenticate cr (Some old) s2 = (Inl (AppError UNAUTHORIZED ''Invalid API key'' True), s2)"
    using assms(7) by (intro dead_key_refused)
  moreover
  let ?n = "key_row cr apiKey tid keyId scopes (Some (case label of Some l \<Rightarrow> l | None \<Rightarrow> ''rotated'')) now"
  have n: "?n \<in> set (td_keys s1)" "ak_key_hash ?n = hashKey cr apiKey" "ak_revoked_at ?n = None" "map_of (td_tenants s1) (ak_tenant_id ?n) \<noteq> None"
    using run(2,3,5) by (simp_all add: key_row_def)
  then obtain k' where k': "live_key (hashKey cr apiKey) s1 = Some k'"
    by (cases "live_key (hashKey cr apiKey) s1") (auto simp: live_key_def find_None_iff)
  have "keys_ok s1" by (rule key_runs_ok [OF run(4) ok])
  with live_key_Some [OF k'] n have "k' = ?n" by (auto simp: keys_ok_def distinct_map inj_on_def)
  with k' run(1) have "\<exists>t. authenticate cr (Some apiKey) s1 = (Inr t, s1) \<and> te_id t = tid \<and> te_keyId t = keyId \<and> te_scopes t = scopes"
    by (simp add: authenticate_def effect_simps new_apiKey_def key_row_def)
  ultimately show ?thesis by blast
qed

definition ex_tenants :: tenant_db where
  "ex_tenants = snd (createTenant ex_crypto ''t1'' ''k1'' [1] 0 ''Acme'' [''read''] tenant_db_init)"

lemma ex_tenants_eq:
  "ex_tenants = tenant_db_init\<lparr>td_tenants := [(''t1'', ''Acme'')], td_keys := [key_row ex_crypto (new_apiKey [1]) ''t1'' ''k1'' [''read''] None 0]\<rparr>"
  by (simp add: ex_tenants_def createTenant_def Let_def effect_simps tenant_insert_def tenant_db_init_def key_insert_def key_row_def)

theorem rotation_replaces_keys_witness:
  "authenticate ex_crypto (Some (new_apiKey [1])) (snd (rotateKeys ex_crypto ''k2'' [2] 5 ''t1'' None (Some [''approve'']) None ex_tenants)) =
     (Inl (AppError UNAUTHORIZED ''Invalid API key'' True),
      snd (rotateKeys ex_crypto ''k2'' [2] 5 ''t1'' None (Some [''approve'']) None ex_tenants))"
proof -
  have "new_apiKey [1] \<noteq> new_apiKey [2]" by (simp add: new_apiKey_def Hex.hex_digit_inj)
  then have r: "\<exists>s1. rotateKeys ex_crypto ''k2'' [2] 5 ''t1'' None (Some [''approve'']) None ex_tenants = (Inr (new_apiKey [2], ''k2'', [''k1'']), s1)"
    by (simp add: rotateKeys_unfold ex_tenants_eq key_insert_def key_row_def tenant_db_init_def liveIdsFor_def hashKey_def ex_crypto_def)
  then obtain s1 where r: "rotateKeys ex_crypto ''k2'' [2] 5 ''t1'' None (Some [''approve'']) None ex_tenants = (Inr (new_apiKey [2], ''k2'', [''k1'']), s1)" ..
  let ?m = "tenant_db_init\<lparr>td_tenants := [(''t1'', ''Acme'')]\<rparr>"
  have "key_sql tenant_db_init ?m" by (rule key_sql.add_tenant [of "''t1''" "''Acme''" _ "Inr ()"]) (simp add: tenant_insert_def tenant_db_init_def)
  moreover have "key_sql ?m ex_tenants"
    by (rule key_sql.add_key [of ex_crypto "new_apiKey [1]" "''t1''" "''k1''" "[''read'']" None 0 _ "Inr ()"])
      (simp add: key_insert_def ex_tenants_eq tenant_db_init_def key_row_def)
  ultimately have "key_runs tenant_db_init ex_tenants" by (meson converse_rtranclp_into_rtranclp rtranclp.rtrancl_refl)
  from rotation_replaces_keys [OF this r rtranclp.rtrancl_refl, of "key_row ex_crypto (new_apiKey [1]) ''t1'' ''k1'' [''read''] None 0" "new_apiKey [1]"]
  show ?thesis unfolding r by (simp add: ex_tenants_eq key_row_def new_apiKey_def)
qed

end
