(* ===== verification/Access.thy ===== *)
theory Access
  imports World Auth_Safety Tenants
begin

text \<open>
  Who may call what: the access table of the routes (\<open>src/common/routes/route-access.ts\<close>), cookies, sessions and the CSRF
  check (\<open>src/api/auth/session-middleware.ts\<close>), and the two \<open>onRequest\<close> hooks that read the table, the tenant
  hook of \<open>src/api/app.ts\<close> and the operator hook of \<open>src/api/admin/admin-routes.ts\<close>.

  A request is what these read of it: method, URL, the pattern of the matched route and single-valued headers.
\<close>

section \<open>The table\<close>

datatype RouteAccess =
    Public_access
  | Session_access
  | Admin_token_access
  | Operator_access string
  | Tenant_access string

definition ROUTE_ACCESS :: "(string, RouteAccess) jsmap" where
  "ROUTE_ACCESS =
     [(''GET /admin/api/assets'', Operator_access ''admin.read''),
      (''GET /admin/api/audit'', Operator_access ''admin.read''),
      (''GET /admin/api/auth-attempts'', Operator_access ''admin.operators.manage''),
      (''GET /admin/api/deposits'', Operator_access ''admin.read''),
      (''POST /admin/api/earnings/sweep'', Operator_access ''admin.treasury''),
      (''GET /admin/api/earnings'', Operator_access ''admin.read''),
      (''GET /admin/api/errors'', Operator_access ''admin.read''),
      (''POST /admin/api/killswitch/engage'', Operator_access ''admin.killswitch''),
      (''POST /admin/api/killswitch/reset'', Operator_access ''admin.killswitch''),
      (''GET /admin/api/killswitch'', Operator_access ''admin.read''),
      (''GET /admin/api/ledger/accounts'', Operator_access ''admin.read''),
      (''GET /admin/api/ledger/entries'', Operator_access ''admin.read''),
      (''POST /admin/api/operators/:id/disable'', Operator_access ''admin.operators.manage''),
      (''POST /admin/api/operators/:id/enable'', Operator_access ''admin.operators.manage''),
      (''POST /admin/api/operators/:id/revoke-sessions'', Operator_access ''admin.operators.manage''),
      (''GET /admin/api/operators'', Operator_access ''admin.operators.manage''),
      (''POST /admin/api/operators'', Operator_access ''admin.operators.manage''),
      (''GET /admin/api/overview'', Operator_access ''admin.read''),
      (''GET /admin/api/payouts'', Operator_access ''admin.read''),
      (''GET /admin/api/pool-addresses'', Operator_access ''admin.read''),
      (''POST /admin/api/tenants/:id/keys/:keyId/revoke'', Operator_access ''admin.tenants.manage''),
      (''POST /admin/api/tenants/:id/keys/rotate'', Operator_access ''admin.tenants.manage''),
      (''GET /admin/api/tenants/:id/keys'', Operator_access ''admin.read''),
      (''POST /admin/api/tenants/:id/keys'', Operator_access ''admin.tenants.manage''),
      (''GET /admin/api/tenants/:id/users'', Operator_access ''admin.tenants.manage''),
      (''POST /admin/api/tenants/:id/users'', Operator_access ''admin.tenants.manage''),
      (''POST /admin/api/tenants/:id/users/:userId/disable'', Operator_access ''admin.tenants.manage''),
      (''POST /admin/api/tenants/:id/users/:userId/enable'', Operator_access ''admin.tenants.manage''),
      (''POST /admin/api/tenants/:id/users/:userId/reset-password'', Operator_access ''admin.tenants.manage''),
      (''POST /admin/api/tenants/:id/users/:userId/revoke-sessions'', Operator_access ''admin.tenants.manage''),
      (''GET /admin/api/tenants/:id'', Operator_access ''admin.read''),
      (''GET /admin/api/tenants'', Operator_access ''admin.read''),
      (''POST /admin/api/tenants'', Operator_access ''admin.tenants.manage''),
      (''GET /admin/api/wallets/verify-onchain'', Operator_access ''admin.read''),
      (''POST /admin/api/webhooks/:id/cancel'', Operator_access ''admin.tenants.manage''),
      (''POST /admin/api/webhooks/:id/replay'', Operator_access ''admin.tenants.manage''),
      (''GET /admin/api/webhooks/:id'', Operator_access ''admin.read''),
      (''GET /admin/api/webhooks'', Operator_access ''admin.read''),
      (''POST /auth/login'', Public_access),
      (''POST /auth/logout-all'', Session_access),
      (''POST /auth/logout'', Public_access),
      (''POST /auth/mfa'', Public_access),
      (''POST /auth/password'', Session_access),
      (''GET /auth/session'', Session_access),
      (''DELETE /auth/sessions/:id'', Session_access),
      (''GET /auth/sessions'', Session_access),
      (''POST /auth/totp/begin'', Session_access),
      (''POST /auth/totp/confirm'', Session_access),
      (''GET /health'', Public_access),
      (''GET /metrics'', Admin_token_access),
      (''GET /ready'', Public_access),
      (''DELETE /v1/accounts/:id/allowlist'', Tenant_access ''move-funds''),
      (''POST /v1/accounts/:id/allowlist'', Tenant_access ''move-funds''),
      (''GET /v1/accounts/:id/balance'', Tenant_access ''read''),
      (''GET /v1/accounts/:id/deposit-addresses'', Tenant_access ''read''),
      (''POST /v1/accounts/:id/deposit-addresses'', Tenant_access ''move-funds''),
      (''POST /v1/accounts/:id/withdrawals'', Tenant_access ''move-funds''),
      (''GET /v1/accounts'', Tenant_access ''read''),
      (''POST /v1/accounts'', Tenant_access ''move-funds''),
      (''GET /v1/ai/anomalies'', Tenant_access ''read''),
      (''POST /v1/ai/query'', Tenant_access ''read''),
      (''GET /v1/ai/rules'', Tenant_access ''read''),
      (''POST /v1/ai/rules'', Tenant_access ''move-funds''),
      (''GET /v1/allowlist'', Tenant_access ''read''),
      (''GET /v1/balances'', Tenant_access ''read''),
      (''GET /v1/chains'', Tenant_access ''read''),
      (''GET /v1/deposits'', Tenant_access ''read''),
      (''GET /v1/payouts'', Tenant_access ''read''),
      (''GET /v1/webhook/deliveries'', Tenant_access ''read''),
      (''GET /v1/webhook'', Tenant_access ''read''),
      (''PUT /v1/webhook'', Tenant_access ''move-funds''),
      (''POST /v1/withdrawals/:id/approve'', Tenant_access ''approve'')]"

definition routeKey :: "string \<Rightarrow> string \<Rightarrow> string" where
  "routeKey method path = method @ '' '' @ path"

definition accessForRoute :: "string \<Rightarrow> string option \<Rightarrow> RouteAccess option" where
  "accessForRoute method pattern =
     (case pattern of
        None \<Rightarrow> None
      | Some p \<Rightarrow> if p = [] then None else map_of ROUTE_ACCESS (routeKey method p))"

definition PUBLIC_ROUTE_PREFIXES :: "string list" where
  "PUBLIC_ROUTE_PREFIXES = [''/docs'']"

definition isPublicPrefix :: "string \<Rightarrow> bool" where
  "isPublicPrefix url \<longleftrightarrow> list_ex (\<lambda>p. url = p \<or> startsWith url (p @ ''/'')) PUBLIC_ROUTE_PREFIXES"

section \<open>Requests and cookies\<close>

record request =
  rq_method :: string
  rq_url :: string
  rq_pattern :: "string option"
  rq_cookie :: "string option"
  rq_csrf :: "string option"
  rq_apiKey :: "string option"
  rq_authorization :: "string option"

record CookieOptions =
  co_crossSite :: bool
  co_secure :: bool
  co_domain :: "string option"

definition SESSION_COOKIE :: string where
  "SESSION_COOKIE = ''cx_session''"

definition serializeCookie :: "string \<Rightarrow> string \<Rightarrow> CookieOptions \<Rightarrow> int option \<Rightarrow> string" where
  "serializeCookie name value opts maxAge =
     join_with ''; '' ([name @ ''='' @ value, ''Path=/'', ''HttpOnly''] @
       (case maxAge of Some n \<Rightarrow> [''Max-Age='' @ show_int n] | None \<Rightarrow> []) @
       (case co_domain opts of Some d \<Rightarrow> if d = [] then [] else [''Domain='' @ d] | None \<Rightarrow> []) @
       (if co_crossSite opts then [''SameSite=None'', ''Secure'']
        else [''SameSite=Lax''] @ (if co_secure opts then [''Secure''] else [])))"

definition setSessionCookie :: "string \<Rightarrow> int \<Rightarrow> CookieOptions \<Rightarrow> int \<Rightarrow> string" where
  "setSessionCookie token expiresAt opts now =
     serializeCookie SESSION_COOKIE token opts (Some (max 0 ((expiresAt - now) div 1000)))"

definition clearSessionCookie :: "CookieOptions \<Rightarrow> string" where
  "clearSessionCookie opts = serializeCookie SESSION_COOKIE [] opts (Some 0)"

fun find_cookie :: "string \<Rightarrow> string list \<Rightarrow> string option" where
  "find_cookie name [] = None"
| "find_cookie name (part # parts) =
     (case index_of part (CHR ''='') of
        None \<Rightarrow> find_cookie name parts
      | Some eq \<Rightarrow>
          if eq < 1 then find_cookie name parts
          else if js_trim (take eq part) = name then Some (js_trim (drop (eq + 1) part))
          else find_cookie name parts)"

definition readCookie :: "request \<Rightarrow> string \<Rightarrow> string option" where
  "readCookie req name = (case rq_cookie req of None \<Rightarrow> None | Some header \<Rightarrow> find_cookie name (split_on (CHR '';'') header))"

section \<open>Sessions\<close>

record AuthContext =
  ax_principal :: Principal
  ax_session :: Session
  ax_permissions :: "string list"
  ax_csrfToken :: string

definition SAFE_METHODS :: "string list" where
  "SAFE_METHODS = [''GET'', ''HEAD'', ''OPTIONS'']"

definition csrf_ok :: "request \<Rightarrow> string \<Rightarrow> bool" where
  "csrf_ok req want \<longleftrightarrow> rq_method req \<in> set SAFE_METHODS \<or>
     (case rq_csrf req of None \<Rightarrow> False | Some value \<Rightarrow> value \<noteq> [] \<and> tokensMatch value want)"

definition auth_context :: "resolved \<Rightarrow> AuthContext" where
  "auth_context r = \<lparr>ax_principal = rd_principal r, ax_session = rd_session r,
     ax_permissions = permissionsFor (pn_kind (rd_principal r)) (pn_role (rd_principal r)), ax_csrfToken = rd_csrfToken r\<rparr>"

definition CsrfError :: app_error where
  "CsrfError = AppError CSRF_FAILED
     ''Missing or invalid CSRF token. Send the value from GET /auth/session in the x-csrf-token header.'' True"

definition resolveAuth :: "crypto \<Rightarrow> SessionConfig \<Rightarrow> int \<Rightarrow> request \<Rightarrow> (auth_db, app_error, AuthContext option) eff" where
  "resolveAuth cr cfg now req =
     (case readCookie req SESSION_COOKIE of
        None \<Rightarrow> ret None
      | Some token \<Rightarrow>
          if token = [] then ret None
          else bind (resolveSession cr cfg token now) (\<lambda>res.
            case res of
              None \<Rightarrow> ret None
            | Some r \<Rightarrow> if csrf_ok req (rd_csrfToken r) then ret (Some (auth_context r)) else throw CsrfError))"

definition requirePermission :: "AuthContext option \<Rightarrow> string \<Rightarrow> app_error + AuthContext" where
  "requirePermission ctx permission =
     (case ctx of
        None \<Rightarrow> Inl (AppError NOT_AUTHENTICATED ''Sign in to continue'' True)
      | Some c \<Rightarrow>
          if pn_mustChangePassword (ax_principal c) then Inl (AppError PASSWORD_CHANGE_REQUIRED ''Set a new password before continuing'' True)
          else if permission \<notin> set (ax_permissions c)
          then Inl (AppError FORBIDDEN (''Your role ('' @ pn_role (ax_principal c) @ '') cannot '' @ permission) True)
          else Inr c)"

section \<open>The hooks\<close>

record access_db =
  xs_auth :: auth_db
  xs_tenants :: tenant_db

abbreviation on_auth :: "(auth_db, 'e, 'a) eff \<Rightarrow> (access_db, 'e, 'a) eff" where
  "on_auth \<equiv> zoom xs_auth (\<lambda>t. xs_auth_update (\<lambda>_. t))"

abbreviation on_tenants :: "(tenant_db, 'e, 'a) eff \<Rightarrow> (access_db, 'e, 'a) eff" where
  "on_tenants \<equiv> zoom xs_tenants (\<lambda>t. xs_tenants_update (\<lambda>_. t))"

text \<open>\<open>url.split("?")[0]\<close>\<close>

definition url_path :: "string \<Rightarrow> string" where
  "url_path url = takeWhile (\<lambda>c. c \<noteq> CHR ''?'') url"

definition needsTenantCredential :: "request \<Rightarrow> bool" where
  "needsTenantCredential req \<longleftrightarrow> \<not> isPublicPrefix (url_path (rq_url req)) \<and>
     (case accessForRoute (rq_method req) (rq_pattern req) of Some (Tenant_access _) \<Rightarrow> True | _ \<Rightarrow> False)"

definition session_tenant :: "AuthContext \<Rightarrow> string \<Rightarrow> Tenant" where
  "session_tenant c tid = \<lparr>te_id = tid, te_name = pn_email (ax_principal c), te_keyId = pn_id (ax_principal c),
     te_scopes = scopesForTenantRole (pn_role (ax_principal c))\<rparr>"

definition missing_key :: app_error where
  "missing_key = AppError UNAUTHORIZED ''Missing API key'' True"

text \<open>The credential recorded for the request: \<open>authed.set(req, ...)\<close>.\<close>

definition session_credential :: "crypto \<Rightarrow> SessionConfig \<Rightarrow> int \<Rightarrow> request \<Rightarrow> (access_db, app_error, Tenant option) eff" where
  "session_credential cr cfg now req =
     bind (on_auth (resolveAuth cr cfg now req)) (\<lambda>ctx.
     case ctx of
       None \<Rightarrow> throw missing_key
     | Some c \<Rightarrow>
         (case (pn_kind (ax_principal c), pn_tenantId (ax_principal c)) of
            (Tenant_user, Some tid) \<Rightarrow>
              if tid = [] then throw missing_key
              else if pn_mustChangePassword (ax_principal c)
              then throw (AppError PASSWORD_CHANGE_REQUIRED ''Set a new password before continuing'' True)
              else ret (Some (session_tenant c tid))
          | _ \<Rightarrow> throw missing_key))"

definition tenant_hook :: "crypto \<Rightarrow> SessionConfig \<Rightarrow> int \<Rightarrow> request \<Rightarrow> (access_db, app_error, Tenant option) eff" where
  "tenant_hook cr cfg now req =
     (if \<not> needsTenantCredential req then ret None
      else case rq_apiKey req of
        Some key \<Rightarrow>
          if key \<noteq> [] then bind (on_tenants (authenticate cr (Some key))) (\<lambda>t. ret (Some t))
          else session_credential cr cfg now req
      | None \<Rightarrow> session_credential cr cfg now req)"

definition tenantOf :: "Tenant option \<Rightarrow> string \<Rightarrow> app_error + Tenant" where
  "tenantOf authed scope =
     (case authed of
        None \<Rightarrow> Inl (AppError UNAUTHORIZED ''Not authenticated'' False)
      | Some t \<Rightarrow>
          if scope \<in> set (te_scopes t) then Inr t
          else Inl (AppError FORBIDDEN_SCOPE (''This API key lacks the '' @ [CHR 0x27] @ scope @ [CHR 0x27] @ '' scope'') True))"

definition bearer :: "request \<Rightarrow> string option" where
  "bearer req = (case rq_authorization req of
       None \<Rightarrow> None
     | Some h \<Rightarrow> if startsWith h ''Bearer '' then Some (drop 7 h) else None)"

definition STATIC_TOKEN_ACTOR :: string where
  "STATIC_TOKEN_ACTOR = ''static-admin-token''"

text \<open>The actor of an operator route, with the session when there is one; \<open>None\<close> on the other routes.\<close>

definition admin_hook ::
  "crypto \<Rightarrow> SessionConfig \<Rightarrow> string option \<Rightarrow> int \<Rightarrow> request \<Rightarrow> (access_db, app_error, (string \<times> AuthContext option) option) eff" where
  "admin_hook cr cfg token now req =
     (case accessForRoute (rq_method req) (rq_pattern req) of
        Some (Operator_access permission) \<Rightarrow>
          bind (on_auth (resolveAuth cr cfg now req)) (\<lambda>ctx.
          case ctx of
            Some c \<Rightarrow>
              if pn_kind (ax_principal c) \<noteq> Operator then throw (AppError UNAUTHORIZED ''This session is not an operator account'' False)
              else bind (lift (requirePermission (Some c) permission)) (\<lambda>_. ret (Some (pn_email (ax_principal c), Some c)))
          | None \<Rightarrow>
              (case token of
                 None \<Rightarrow> throw (AppError UNAUTHORIZED ''Admin plane is disabled'' False)
               | Some want \<Rightarrow>
                   if want = [] then throw (AppError UNAUTHORIZED ''Admin plane is disabled'' False)
                   else case bearer req of
                     None \<Rightarrow> throw (AppError UNAUTHORIZED ''Invalid admin token'' False)
                   | Some provided \<Rightarrow>
                       if provided = [] \<or> \<not> tokensMatch provided want then throw (AppError UNAUTHORIZED ''Invalid admin token'' False)
                       else bind (reads (\<lambda>s. operatorCount (xs_auth s))) (\<lambda>n.
                         if n > 0
                         then throw (AppError UNAUTHORIZED ''The shared admin token is disabled because operator accounts exist. Sign in at /auth/login.'' False)
                         else ret (Some (STATIC_TOKEN_ACTOR, None)))))
      | _ \<Rightarrow> ret None)"

record grant =
  gr_tenant :: "Tenant option"
  gr_actor :: "(string \<times> AuthContext option) option"

text \<open>Both hooks run on every request, the tenant hook first.\<close>

definition gate :: "crypto \<Rightarrow> SessionConfig \<Rightarrow> string option \<Rightarrow> int \<Rightarrow> request \<Rightarrow> (access_db, app_error, grant) eff" where
  "gate cr cfg token now req =
     bind (tenant_hook cr cfg now req) (\<lambda>tenant.
     bind (admin_hook cr cfg token now req) (\<lambda>actor.
       ret \<lparr>gr_tenant = tenant, gr_actor = actor\<rparr>))"

section \<open>What passes the hooks\<close>

text \<open>The table grants a change of state only to a permission or scope other than reading; \<open>POST /v1/ai/query\<close> is a query.\<close>

fun guards_change :: "string \<times> RouteAccess \<Rightarrow> bool" where
  "guards_change (k, Operator_access p) \<longleftrightarrow> startsWith k ''GET /admin/api/'' \<or> startsWith k ''POST /admin/api/'' \<and> p \<noteq> ''admin.read''"
| "guards_change (k, Tenant_access sc) \<longleftrightarrow> startsWith k ''GET /v1/'' \<or> sc \<in> {''move-funds'', ''approve''} \<or> k = ''POST /v1/ai/query''"
| "guards_change (k, a) \<longleftrightarrow> True"

lemma routes_guard_changes: "list_all guards_change ROUTE_ACCESS"
  by (simp add: ROUTE_ACCESS_def startsWith_def)

lemma route_guarded: "accessForRoute m (Some p) = Some a \<Longrightarrow> guards_change (m @ '' '' @ p, a)"
  using routes_guard_changes map_of_SomeD [of ROUTE_ACCESS]
  by (auto simp: accessForRoute_def routeKey_def list_all_iff split: if_splits)

text \<open>A request that presents the cookie of a usable session of principal \<open>p\<close>, with its CSRF token unless the method is safe.\<close>

definition presents :: "crypto \<Rightarrow> int \<Rightarrow> request \<Rightarrow> auth_db \<Rightarrow> PrincipalRow \<Rightarrow> bool" where
  "presents cr now req db p \<longleftrightarrow> (\<exists>token row.
     readCookie req SESSION_COOKIE = Some token \<and> row \<in> set (ad_sessions db) \<and> ss_token_hash row = hashToken cr token \<and> live now row
     \<and> byId (ss_principal_id row) db = Some p \<and> pr_status p = Active \<and> csrf_ok req (ss_csrf_token row))"

lemma resolve_rows:
  assumes "(x, p) \<in> set (resolveByTokenHash h now db)"
  shows "x \<in> set (ad_sessions db)" "ss_token_hash x = h" "live now x" "byId (ss_principal_id x) db = Some p" "pr_status p = Active"
  using assms by (auto simp: resolveByTokenHash_def List.map_filter_def split: if_splits option.splits)

lemma resolveAuth_Some:
  assumes "resolveAuth cr cfg now req db = (Inr (Some c), db')"
  obtains p where "presents cr now req db p" "ax_principal c = toPrincipal db p"
    "ax_permissions c = permissionsFor (pr_kind p) (pr_role p)"
proof -
  from assms have "readCookie req SESSION_COOKIE \<notin> {None, Some []}"
    by (auto simp: resolveAuth_def ret_def split: option.splits)
  then obtain token where t: "readCookie req SESSION_COOKIE = Some token" "token \<noteq> []" by auto
  have r: "bind (resolveSession cr cfg token now) (\<lambda>res. case res of None \<Rightarrow> ret None
      | Some r \<Rightarrow> if csrf_ok req (rd_csrfToken r) then ret (Some (auth_context r)) else throw CsrfError) db = (Inr (Some c), db')"
    using assms t by (simp add: resolveAuth_def)
  show thesis
  proof (cases "resolveByTokenHash (hashToken cr token) now db")
    case Nil
    with r show ?thesis by (simp add: resolveSession_def effect_simps)
  next
    case (Cons a rows)
    obtain x p where a: "a = (x, p)" by (cases a)
    with Cons have "(x, p) \<in> set (resolveByTokenHash (hashToken cr token) now db)" by simp
    note row = resolve_rows [OF this]
    from r Cons a have "csrf_ok req (ss_csrf_token x)" "ax_principal c = toPrincipal db p"
      "ax_permissions c = permissionsFor (pr_kind p) (pr_role p)"
      by (auto simp: resolveSession_def effect_simps auth_context_def toPrincipal_def Let_def split: if_splits)
    with row t show ?thesis by (intro that [of p]) (auto simp: presents_def)
  qed
qed

lemma zoom_Inr: "zoom get put m s = (Inr x, s') \<longleftrightarrow> (\<exists>t. m (get s) = (Inr x, t) \<and> s' = put t s)"
  by (auto simp: zoom_def split: prod.splits)

lemma admin_hook_passes:
  assumes "admin_hook cr cfg token now req s = (Inr g, s')" and "accessForRoute (rq_method req) (rq_pattern req) = Some (Operator_access perm)"
  shows "(\<exists>p c. presents cr now req (xs_auth s) p \<and> pr_kind p = Operator \<and> \<not> pr_must_change_password p
        \<and> perm \<in> set (permissionsFor Operator (pr_role p)) \<and> g = Some (pr_email p, Some c))
     \<or> operatorCount (xs_auth s) = 0 \<and> g = Some (STATIC_TOKEN_ACTOR, None)
        \<and> (\<exists>want provided. token = Some want \<and> want \<noteq> [] \<and> bearer req = Some provided \<and> tokensMatch provided want)"
proof -
  note run = assms(1) [unfolded admin_hook_def assms(2)]
  then obtain ctx s1 where r: "on_auth (resolveAuth cr cfg now req) s = (Inr ctx, s1)"
    by (auto simp: bind_def split: prod.splits sum.splits)
  then obtain t where t: "resolveAuth cr cfg now req (xs_auth s) = (Inr ctx, t)" "s1 = xs_auth_update (\<lambda>_. t) s"
    by (auto simp: zoom_Inr)
  show ?thesis
  proof (cases ctx)
    case (Some c)
    with t(1) obtain p where p: "presents cr now req (xs_auth s) p" "ax_principal c = toPrincipal (xs_auth s) p"
      "ax_permissions c = permissionsFor (pr_kind p) (pr_role p)"
      by (auto elim: resolveAuth_Some)
    with run r Some have "pr_kind p = Operator \<and> \<not> pr_must_change_password p
        \<and> perm \<in> set (permissionsFor Operator (pr_role p)) \<and> g = Some (pr_email p, Some c)"
      by (auto simp: effect_simps requirePermission_def toPrincipal_def split: if_splits)
    with p(1) show ?thesis by blast
  next
    case None
    have same: "t = xs_auth s"
      using t(1) None by (auto simp: resolveAuth_def resolveSession_def effect_simps Let_def bind_def reads_def ret_def modify_def throw_def
          split: option.splits if_splits list.splits)
    from run r None obtain want where "token = Some want" "want \<noteq> []" by (auto simp: effect_simps split: option.splits if_splits)
    with run r None same t(2) show ?thesis by (auto simp: effect_simps split: option.splits if_splits)
  qed
qed

lemma resolveAuth_other: "admin_hook cr cfg token now req s = (Inr g, s') \<Longrightarrow>
    (\<And>p. accessForRoute (rq_method req) (rq_pattern req) \<noteq> Some (Operator_access p)) \<Longrightarrow> g = None \<and> s' = s"
  by (auto simp: admin_hook_def ret_def split: option.splits RouteAccess.splits)

text \<open>The tenant a request may act for: the owner of a key in use, or the tenant of a signed-in user.\<close>

definition acts_for :: "crypto \<Rightarrow> int \<Rightarrow> request \<Rightarrow> access_db \<Rightarrow> Tenant \<Rightarrow> bool" where
  "acts_for cr now req s t \<longleftrightarrow>
     (\<exists>key k. rq_apiKey req = Some key \<and> k \<in> set (td_keys (xs_tenants s)) \<and> ak_key_hash k = hashKey cr key \<and> ak_revoked_at k = None
        \<and> te_id t = ak_tenant_id k \<and> te_keyId t = ak_id k \<and> te_scopes t = ak_scopes k)
   \<or> (\<exists>p tid. presents cr now req (xs_auth s) p \<and> pr_kind p = Tenant_user \<and> pr_tenant_id p = Some tid \<and> \<not> pr_must_change_password p
        \<and> te_id t = tid \<and> te_keyId t = pr_id p \<and> te_scopes t = scopesForTenantRole (pr_role p))"

lemma session_credential_passes:
  assumes "session_credential cr cfg now req s = (Inr g, s')"
  shows "\<exists>t. g = Some t \<and> acts_for cr now req s t"
proof -
  from assms obtain ctx s1 where r: "on_auth (resolveAuth cr cfg now req) s = (Inr ctx, s1)"
    by (auto simp: session_credential_def bind_def split: prod.splits sum.splits)
  then obtain t where t: "resolveAuth cr cfg now req (xs_auth s) = (Inr ctx, t)" by (auto simp: zoom_Inr)
  from assms r obtain c where c: "ctx = Some c" by (cases ctx) (auto simp: session_credential_def effect_simps)
  with t obtain p where p: "presents cr now req (xs_auth s) p" "ax_principal c = toPrincipal (xs_auth s) p"
    by (auto elim: resolveAuth_Some)
  with assms r c have "\<exists>tid. pr_kind p = Tenant_user \<and> pr_tenant_id p = Some tid \<and> \<not> pr_must_change_password p
      \<and> g = Some (session_tenant c tid)"
    by (auto simp: session_credential_def effect_simps toPrincipal_def split: PrincipalKind.splits option.splits if_splits)
  with p show ?thesis by (auto simp: acts_for_def session_tenant_def toPrincipal_def)
qed

lemma authenticate_passes:
  assumes "authenticate cr (Some key) s = (Inr t, s')" "key \<noteq> []"
  shows "\<exists>k \<in> set (td_keys s). ak_key_hash k = hashKey cr key \<and> ak_revoked_at k = None
    \<and> te_id t = ak_tenant_id k \<and> te_keyId t = ak_id k \<and> te_scopes t = ak_scopes k"
  using assms by (auto simp: authenticate_def effect_simps dest: live_key_Some split: option.splits)

lemma tenant_hook_passes:
  assumes "tenant_hook cr cfg now req s = (Inr g, s')"
  shows "if needsTenantCredential req then \<exists>t. g = Some t \<and> acts_for cr now req s t else g = None \<and> s' = s"
proof (cases "needsTenantCredential req \<and> (\<exists>key. rq_apiKey req = Some key \<and> key \<noteq> [])")
  case True
  then obtain key where k: "needsTenantCredential req" "rq_apiKey req = Some key" "key \<noteq> []" by blast
  with assms obtain t t' where a: "authenticate cr (Some key) (xs_tenants s) = (Inr t, t')" "g = Some t"
    by (auto simp: tenant_hook_def bind_def zoom_def ret_def split: prod.splits sum.splits)
  from authenticate_passes [OF a(1) k(3)] k a(2) show ?thesis by (auto simp: acts_for_def)
next
  case False
  then show ?thesis using assms session_credential_passes [of cr cfg now req s g s']
    by (auto simp: tenant_hook_def effect_simps split: option.splits)
qed

definition unsafe_methods :: "string set" where
  "unsafe_methods = {''POST'', ''PUT'', ''DELETE''}"

lemma unsafe_guarded:
  assumes "rq_method req \<in> unsafe_methods" "accessForRoute (rq_method req) (rq_pattern req) = Some a"
  shows "a = Operator_access perm \<Longrightarrow> perm \<noteq> ''admin.read''"
    and "a = Tenant_access scope \<Longrightarrow> rq_pattern req \<noteq> Some ''/v1/ai/query'' \<Longrightarrow> scope \<noteq> ''read''"
proof -
  from assms(2) obtain p where p: "rq_pattern req = Some p" by (cases "rq_pattern req") (auto simp: accessForRoute_def)
  with assms(2) route_guarded have "guards_change (rq_method req @ '' '' @ p, a)" by simp
  with assms(1) p show "a = Operator_access perm \<Longrightarrow> perm \<noteq> ''admin.read''"
    "a = Tenant_access scope \<Longrightarrow> rq_pattern req \<noteq> Some ''/v1/ai/query'' \<Longrightarrow> scope \<noteq> ''read''"
    by (auto simp: unsafe_methods_def startsWith_def)
qed

lemma operator_permission_totp:
  "perm \<in> set (permissionsFor Operator role) \<Longrightarrow> perm \<noteq> ''admin.read'' \<Longrightarrow> requiresTotp role"
  by (auto simp: permissionsFor_def map_get_or_def OPERATOR_PERMISSIONS_def requiresTotp_def TOTP_REQUIRED_def split: if_splits)

lemma tenantOf_Inr: "tenantOf g scope = Inr t \<longleftrightarrow> g = Some t \<and> scope \<in> set (te_scopes t)"
  by (auto simp: tenantOf_def split: option.splits)

text \<open>C5. Access control. On an operator route a request passes the hooks only with a usable session of an active operator whose
  role has the permission of the route and whose password need not be changed, with the session's CSRF token unless the method is
  safe, or, as long as no active operator exists, with the shared token; the role is one that needs a second factor if the method
  changes state. On a tenant route it acts for a tenant only with a key in use of that tenant, or as a signed-in user of it, holding
  the scope of the route, which is more than reading if the method changes state. Neither kind of credential opens the other plane.\<close>

theorem requests_are_authorised:
  assumes "gate cr cfg token now req s = (Inr g, s')"
  shows
    "accessForRoute (rq_method req) (rq_pattern req) = Some (Operator_access perm) \<longrightarrow>
       gr_tenant g = None \<and>
       ((\<exists>p c. presents cr now req (xs_auth s) p \<and> pr_kind p = Operator \<and> \<not> pr_must_change_password p
           \<and> perm \<in> set (permissionsFor Operator (pr_role p)) \<and> gr_actor g = Some (pr_email p, Some c)
           \<and> (rq_method req \<in> unsafe_methods \<longrightarrow> requiresTotp (pr_role p)))
        \<or> operatorCount (xs_auth s) = 0 \<and> gr_actor g = Some (STATIC_TOKEN_ACTOR, None)
           \<and> (\<exists>want provided. token = Some want \<and> want \<noteq> [] \<and> bearer req = Some provided \<and> tokensMatch provided want))
   \<and> (\<forall>scope t. accessForRoute (rq_method req) (rq_pattern req) = Some (Tenant_access scope)
         \<and> tenantOf (gr_tenant g) scope = Inr t \<longrightarrow>
       gr_actor g = None \<and> acts_for cr now req s t \<and> scope \<in> set (te_scopes t)
       \<and> (rq_method req \<in> unsafe_methods \<and> rq_pattern req \<noteq> Some ''/v1/ai/query'' \<longrightarrow> scope \<noteq> ''read''))"
proof -
  from assms obtain tn s1 a where t: "tenant_hook cr cfg now req s = (Inr tn, s1)" and a: "admin_hook cr cfg token now req s1 = (Inr a, s')"
    and g: "gr_tenant g = tn" "gr_actor g = a"
    by (auto simp: gate_def bind_def ret_def split: prod.splits sum.splits)
  show ?thesis
  proof (intro conjI impI allI)
    assume r: "accessForRoute (rq_method req) (rq_pattern req) = Some (Operator_access perm)"
    then have "\<not> needsTenantCredential req" by (simp add: needsTenantCredential_def)
    with tenant_hook_passes [OF t] have "tn = None" "s1 = s" by simp_all
    with a r g show "gr_tenant g = None" and "(\<exists>p c. presents cr now req (xs_auth s) p \<and> pr_kind p = Operator \<and> \<not> pr_must_change_password p
           \<and> perm \<in> set (permissionsFor Operator (pr_role p)) \<and> gr_actor g = Some (pr_email p, Some c)
           \<and> (rq_method req \<in> unsafe_methods \<longrightarrow> requiresTotp (pr_role p)))
        \<or> operatorCount (xs_auth s) = 0 \<and> gr_actor g = Some (STATIC_TOKEN_ACTOR, None)
           \<and> (\<exists>want provided. token = Some want \<and> want \<noteq> [] \<and> bearer req = Some provided \<and> tokensMatch provided want)"
      using admin_hook_passes [of cr cfg token now req s a s' perm] unsafe_guarded(1) [OF _ r refl] operator_permission_totp by blast+
  next
    fix scope t
    assume "accessForRoute (rq_method req) (rq_pattern req) = Some (Tenant_access scope) \<and> tenantOf (gr_tenant g) scope = Inr t"
    then have r: "accessForRoute (rq_method req) (rq_pattern req) = Some (Tenant_access scope)"
      and tt: "tn = Some t" "scope \<in> set (te_scopes t)" by (simp_all add: tenantOf_Inr g)
    have "a = None" using resolveAuth_other [OF a] r by simp
    with tenant_hook_passes [OF t] tt g r
    show "gr_actor g = None" "acts_for cr now req s t" "scope \<in> set (te_scopes t)" by (auto split: if_splits)
    show "scope \<noteq> ''read''" if "rq_method req \<in> unsafe_methods \<and> rq_pattern req \<noteq> Some ''/v1/ai/query''"
      using that unsafe_guarded(2) [OF _ r refl] by blast
  qed
qed

section \<open>An instance\<close>

definition ex_admin :: request where
  "ex_admin = \<lparr>rq_method = ''POST'', rq_url = ''/admin/api/killswitch/engage'', rq_pattern = Some ''/admin/api/killswitch/engage'',
     rq_cookie = None, rq_csrf = None, rq_apiKey = None, rq_authorization = Some ''Bearer tok''\<rparr>"

definition ex_access :: access_db where
  "ex_access = \<lparr>xs_auth = auth_db_init [], xs_tenants = tenant_db_init\<rparr>"

lemma ex_admin_route: "accessForRoute (rq_method ex_admin) (rq_pattern ex_admin) = Some (Operator_access ''admin.killswitch'')"
  by (simp add: ex_admin_def accessForRoute_def routeKey_def ROUTE_ACCESS_def)

lemma ex_admin_passes:
  "gate ex_crypto DEFAULT_SESSION_CONFIG (Some ''tok'') 0 ex_admin ex_access =
     (Inr \<lparr>gr_tenant = None, gr_actor = Some (STATIC_TOKEN_ACTOR, None)\<rparr>, ex_access)"
proof -
  have "readCookie ex_admin SESSION_COOKIE = None" "bearer ex_admin = Some ''tok''"
    by (simp_all add: readCookie_def ex_admin_def bearer_def startsWith_def)
  then show ?thesis
    by (simp add: gate_def tenant_hook_def needsTenantCredential_def ex_admin_route admin_hook_def resolveAuth_def effect_simps
        tokensMatch_def operatorCount_def ex_access_def auth_db_init_def)
qed

theorem requests_are_authorised_witness: "gr_tenant (\<lparr>gr_tenant = None, gr_actor = Some (STATIC_TOKEN_ACTOR, None)\<rparr>) = None
    \<and> operatorCount (xs_auth ex_access) = 0 \<and> bearer ex_admin = Some ''tok''"
proof -
  have "readCookie ex_admin SESSION_COOKIE = None" by (simp add: readCookie_def ex_admin_def)
  with requests_are_authorised [OF ex_admin_passes, of "''admin.killswitch''"] ex_admin_route
  show ?thesis by (auto simp: presents_def bearer_def ex_admin_def startsWith_def)
qed

end
