(* ===== verification/Auth_Routes.thy ===== *)
theory Auth_Routes
  imports Access
begin

text \<open>
  Signing in and out over HTTP: the handlers of \<open>src/api/auth/auth-routes.ts\<close> on the tables of principals and
  the in-memory map of sign-in challenges, and the rule of \<open>src/api/admin/tenant-user-guard.ts\<close>.

  A handler is atomic here, its clock one value, and what it draws at random is in a record of type \<open>fresh\<close>.
  Fields of a body are absent or strings, as the handlers' casts say.
\<close>

section \<open>The enrolment link\<close>

definition hex_upper :: "nat \<Rightarrow> char" where
  "hex_upper n = char_of (if n < 10 then 48 + n else 55 + n)"

definition percent_byte :: "nat \<Rightarrow> string" where
  "percent_byte b = [CHR ''%'', hex_upper (b div 16), hex_upper (b mod 16)]"

text \<open>The code units of the model are below 256, so UTF-8 takes one or two bytes.\<close>

definition percent_char :: "char \<Rightarrow> string" where
  "percent_char c = (let n = of_char c in
     if n < 128 then percent_byte n else percent_byte (192 + n div 64) @ percent_byte (128 + n mod 64))"

definition alphanumeric :: "char \<Rightarrow> bool" where
  "alphanumeric c \<longleftrightarrow> (let n = of_char c :: nat in 48 \<le> n \<and> n \<le> 57 \<or> 65 \<le> n \<and> n \<le> 90 \<or> 97 \<le> n \<and> n \<le> 122)"

definition encodeURIComponent :: "string \<Rightarrow> string" where
  "encodeURIComponent s = concat (map (\<lambda>c.
     if alphanumeric c \<or> c \<in> set (''-_.!~*()'' @ [CHR 0x27]) then [c] else percent_char c) s)"

definition form_encode :: "string \<Rightarrow> string" where
  "form_encode s = concat (map (\<lambda>c.
     if alphanumeric c \<or> c \<in> set ''*-._'' then [c] else if c = CHR '' '' then ''+'' else percent_char c) s)"

definition search_params :: "(string \<times> string) list \<Rightarrow> string" where
  "search_params kvs = join_with ''&'' (map (\<lambda>(k, v). form_encode k @ ''='' @ form_encode v) kvs)"

definition totpEnrolmentUri :: "string \<Rightarrow> string \<Rightarrow> string \<Rightarrow> string" where
  "totpEnrolmentUri secret account issuer =
     ''otpauth://totp/'' @ encodeURIComponent (issuer @ '':'' @ account) @ ''?'' @
     search_params [(''secret'', secret), (''issuer'', issuer), (''algorithm'', ''SHA1''),
       (''digits'', show_int (int TOTP_DIGITS)), (''period'', show_int TOTP_STEP_SECONDS)]"

definition enrolment_link :: "string \<Rightarrow> string \<Rightarrow> string" where
  "enrolment_link secret account = totpEnrolmentUri secret account ''cixtech''"

section \<open>Replies\<close>

record public_principal =
  pp_id :: string
  pp_email :: string
  pp_kind :: PrincipalKind
  pp_role :: string
  pp_tenantId :: "string option"
  pp_totpConfirmed :: bool
  pp_mustChangePassword :: bool
  pp_permissions :: "string list"
  pp_totpRequired :: bool

definition publicPrincipal :: "Principal \<Rightarrow> public_principal" where
  "publicPrincipal p = \<lparr>pp_id = pn_id p, pp_email = pn_email p, pp_kind = pn_kind p, pp_role = pn_role p, pp_tenantId = pn_tenantId p,
     pp_totpConfirmed = pn_totpConfirmed p, pp_mustChangePassword = pn_mustChangePassword p,
     pp_permissions = permissionsFor (pn_kind p) (pn_role p), pp_totpRequired = requiresTotp (pn_role p)\<rparr>"

record listed_session =
  ls_session :: Session
  ls_current :: bool

datatype auth_body =
    Error_body ErrorCode string
  | Signed_in public_principal string int "string list option"
  | Enrol_challenge string string string
  | Code_challenge string
  | Who_am_i public_principal string string int int
  | Done
  | Done_revoked nat
  | Session_list "listed_session list"
  | Totp_secret string string
  | New_recovery_codes "string list"

record reply =
  rp_status :: int
  rp_body :: auth_body
  rp_setCookie :: "string option"

definition answer :: "auth_body \<Rightarrow> reply" where
  "answer b = \<lparr>rp_status = 200, rp_body = b, rp_setCookie = None\<rparr>"

definition bad_request :: "string \<Rightarrow> reply" where
  "bad_request message = \<lparr>rp_status = 400, rp_body = Error_body BAD_REQUEST message, rp_setCookie = None\<rparr>"

section \<open>State\<close>

record challenge =
  ch_principalId :: string
  ch_expires :: int

record auth_api =
  aa_db :: auth_db
  aa_challenges :: "(string, challenge) jsmap"

abbreviation on_db :: "(auth_db, 'e, 'a) eff \<Rightarrow> (auth_api, 'e, 'a) eff" where
  "on_db \<equiv> zoom aa_db (\<lambda>t. aa_db_update (\<lambda>_. t))"

record fresh =
  fr_uuid :: string
  fr_token :: string
  fr_csrf :: string
  fr_salt :: "byte list"
  fr_secret :: "byte list"
  fr_picks :: "nat list list"
  fr_challenge :: string

definition CHALLENGE_MS :: int where
  "CHALLENGE_MS = 2 * 60000"

definition sweepChallenges :: "int \<Rightarrow> auth_api \<Rightarrow> auth_api" where
  "sweepChallenges now a = a\<lparr>aa_challenges := filter (\<lambda>(k, v). \<not> ch_expires v < now) (aa_challenges a)\<rparr>"

definition set_challenge :: "string \<Rightarrow> challenge \<Rightarrow> auth_api \<Rightarrow> auth_api" where
  "set_challenge k c a = a\<lparr>aa_challenges := AList.update k c (aa_challenges a)\<rparr>"

definition delete_challenge :: "string \<Rightarrow> auth_api \<Rightarrow> auth_api" where
  "delete_challenge k a = a\<lparr>aa_challenges := AList.delete k (aa_challenges a)\<rparr>"

definition attempt :: "string \<Rightarrow> string option \<Rightarrow> PrincipalKind \<Rightarrow> string \<Rightarrow> string option \<Rightarrow> client_meta \<Rightarrow> int \<Rightarrow> attempt_row" where
  "attempt email pid kind oc detail meta now =
     \<lparr>at_at = now, at_email = Some email, at_principal_id = pid, at_kind = kind_name kind, at_outcome = oc,
      at_ip = cm_ip meta, at_user_agent = cm_userAgent meta, at_detail = detail\<rparr>"

definition attempt_of :: "Principal \<Rightarrow> string \<Rightarrow> client_meta \<Rightarrow> int \<Rightarrow> attempt_row" where
  "attempt_of p oc meta now = attempt (pn_email p) (Some (pn_id p)) (pn_kind p) oc None meta now"

section \<open>Signing in\<close>

definition given :: "string option \<Rightarrow> string option" where
  "given s = (if s = Some [] then None else s)"

record login_body =
  lb_email :: "string option"
  lb_password :: "string option"
  lb_kind :: "string option"
  lb_tenantId :: "string option"

record mfa_body =
  mb_challenge :: "string option"
  mb_code :: "string option"
  mb_enrol :: bool

definition issueSession ::
  "crypto \<Rightarrow> SessionConfig \<Rightarrow> CookieOptions \<Rightarrow> fresh \<Rightarrow> client_meta \<Rightarrow> int \<Rightarrow> Principal \<Rightarrow> string list option \<Rightarrow>
   (auth_api, app_error, reply) eff" where
  "issueSession cr cfg cookie fr meta now p codes =
     bind (on_db (createSession cr cfg (fr_uuid fr) (fr_token fr) (fr_csrf fr) (pn_id p) meta now)) (\<lambda>i.
     bind (on_db (recordAttempt (attempt_of p ''session_created'' meta now))) (\<lambda>_.
       ret \<lparr>rp_status = 200,
            rp_body = Signed_in (publicPrincipal p) (is_csrfToken i) (sn_expiresAt (is_session i)) codes,
            rp_setCookie = Some (setSessionCookie (is_token i) (sn_expiresAt (is_session i)) cookie now)\<rparr>))"

definition login_kind :: "login_body \<Rightarrow> PrincipalKind" where
  "login_kind b = (if lb_kind b = Some ''tenant_user'' then Tenant_user else Operator)"

definition login_tenant :: "(string \<Rightarrow> string option \<Rightarrow> string option) option \<Rightarrow> login_body \<Rightarrow> string \<Rightarrow> string option" where
  "login_tenant resolver b email =
     (if login_kind b = Tenant_user
      then (case resolver of Some f \<Rightarrow> f email (lb_tenantId b) | None \<Rightarrow> lb_tenantId b)
      else None)"

definition open_challenge :: "fresh \<Rightarrow> int \<Rightarrow> Principal \<Rightarrow> (auth_api, app_error, unit) eff" where
  "open_challenge fr now p =
     bind (modify (sweepChallenges now)) (\<lambda>_.
       modify (set_challenge (fr_challenge fr) \<lparr>ch_principalId = pn_id p, ch_expires = now + CHALLENGE_MS\<rparr>))"

definition login ::
  "crypto \<Rightarrow> SessionConfig \<Rightarrow> CookieOptions \<Rightarrow> (string \<Rightarrow> string option \<Rightarrow> string option) option \<Rightarrow> fresh \<Rightarrow> client_meta \<Rightarrow> int \<Rightarrow>
   login_body \<Rightarrow> (auth_api, app_error, reply) eff" where
  "login cr cfg cookie resolver fr meta now b =
     (case (given (lb_email b), given (lb_password b)) of
        (Some email, Some password) \<Rightarrow>
          try_catch
            (bind (on_db (verifyCredentials cr cfg (fr_salt fr) now (login_kind b) email password (login_tenant resolver b email))) (\<lambda>(oc, p).
               if oc = Login_ok then issueSession cr cfg cookie fr meta now p None
               else bind (open_challenge fr now p) (\<lambda>_.
                 if oc = Mfa_enrolment_required
                 then bind (on_db (beginTotpEnrolment (fr_secret fr) (pn_id p))) (\<lambda>secret.
                   ret (answer (Enrol_challenge (fr_challenge fr) secret (enrolment_link secret (pn_email p)))))
                 else ret (answer (Code_challenge (fr_challenge fr))))))
            (\<lambda>err.
               bind (on_db (recordAttempt (attempt email None (login_kind b) ''failed'' (Some (err_message err)) meta now))) (\<lambda>_.
                 throw err))
      | _ \<Rightarrow> ret (bad_request ''email and password are required''))"

definition auth_failed :: "string \<Rightarrow> app_error" where
  "auth_failed message = AppError AUTH_FAILED message True"

definition mfa ::
  "crypto \<Rightarrow> SessionConfig \<Rightarrow> CookieOptions \<Rightarrow> fresh \<Rightarrow> client_meta \<Rightarrow> int \<Rightarrow> mfa_body \<Rightarrow> (auth_api, app_error, reply) eff" where
  "mfa cr cfg cookie fr meta now b =
     bind (modify (sweepChallenges now)) (\<lambda>_.
     bind (reads (\<lambda>a. case given (mb_challenge b) of
         None \<Rightarrow> None | Some k \<Rightarrow> map_option (\<lambda>c. (k, c)) (map_of (aa_challenges a) k))) (\<lambda>pending.
     case pending of
       None \<Rightarrow> throw (auth_failed ''That sign-in attempt has expired. Start again.'')
     | Some (k, c) \<Rightarrow>
         (case given (mb_code b) of
            None \<Rightarrow> ret (bad_request ''code is required'')
          | Some code \<Rightarrow>
              bind (on_db (reads (loadById (ch_principalId c)))) (\<lambda>found.
              case found of
                None \<Rightarrow> throw (auth_failed ''Account no longer exists'')
              | Some p \<Rightarrow>
                  if mb_enrol b
                  then bind (on_db (confirmTotp cr (fr_picks fr) now (pn_id p) code)) (\<lambda>codes.
                    bind (modify (delete_challenge k)) (\<lambda>_.
                    bind (on_db (reads (loadById (pn_id p)))) (\<lambda>again.
                      issueSession cr cfg cookie fr meta now (case again of Some q \<Rightarrow> q | None \<Rightarrow> p) (Some codes))))
                  else bind (on_db (verifySecondFactor cr now (pn_id p) code)) (\<lambda>ok.
                    if \<not> ok
                    then bind (on_db (recordAttempt (attempt_of p ''mfa_failed'' meta now))) (\<lambda>_. throw (auth_failed ''That code is not correct''))
                    else bind (modify (delete_challenge k)) (\<lambda>_. issueSession cr cfg cookie fr meta now p None))))))"

section \<open>Signed in\<close>

definition session_route :: "crypto \<Rightarrow> SessionConfig \<Rightarrow> int \<Rightarrow> request \<Rightarrow> (auth_api, app_error, reply) eff" where
  "session_route cr cfg now req =
     bind (on_db (resolveAuth cr cfg now req)) (\<lambda>ctx.
       ret (case ctx of
          None \<Rightarrow> \<lparr>rp_status = 401, rp_body = Error_body NOT_AUTHENTICATED ''No session'', rp_setCookie = None\<rparr>
        | Some c \<Rightarrow> answer (Who_am_i (publicPrincipal (ax_principal c)) (ax_csrfToken c) (sn_id (ax_session c))
            (sn_expiresAt (ax_session c)) (sn_idleExpiresAt (ax_session c)))))"

definition logout :: "crypto \<Rightarrow> SessionConfig \<Rightarrow> CookieOptions \<Rightarrow> client_meta \<Rightarrow> int \<Rightarrow> request \<Rightarrow> (auth_api, app_error, reply) eff" where
  "logout cr cfg cookie meta now req =
     bind (on_db (resolveAuth cr cfg now req)) (\<lambda>ctx.
     bind (case ctx of
         None \<Rightarrow> ret ()
       | Some c \<Rightarrow>
           bind (on_db (revokeSession (sn_id (ax_session c)) ''signed out'' now)) (\<lambda>_.
             on_db (recordAttempt (attempt_of (ax_principal c) ''signed_out'' meta now)))) (\<lambda>_.
       ret \<lparr>rp_status = 200, rp_body = Done, rp_setCookie = Some (clearSessionCookie cookie)\<rparr>))"

definition mustBeSignedIn :: "crypto \<Rightarrow> SessionConfig \<Rightarrow> int \<Rightarrow> request \<Rightarrow> (auth_api, app_error, AuthContext) eff" where
  "mustBeSignedIn cr cfg now req =
     bind (on_db (resolveAuth cr cfg now req)) (\<lambda>ctx.
       case ctx of None \<Rightarrow> throw (AppError NOT_AUTHENTICATED ''Sign in to continue'' True) | Some c \<Rightarrow> ret c)"

definition sessions_route :: "crypto \<Rightarrow> SessionConfig \<Rightarrow> int \<Rightarrow> request \<Rightarrow> (auth_api, app_error, reply) eff" where
  "sessions_route cr cfg now req =
     bind (mustBeSignedIn cr cfg now req) (\<lambda>c.
     bind (on_db (reads (listSessions (pn_id (ax_principal c)) now))) (\<lambda>ss.
       ret (answer (Session_list (map (\<lambda>s. \<lparr>ls_session = s, ls_current = (sn_id s = sn_id (ax_session c))\<rparr>) ss)))))"

definition delete_session_route ::
  "crypto \<Rightarrow> SessionConfig \<Rightarrow> CookieOptions \<Rightarrow> int \<Rightarrow> request \<Rightarrow> string \<Rightarrow> (auth_api, app_error, reply) eff" where
  "delete_session_route cr cfg cookie now req sid =
     bind (mustBeSignedIn cr cfg now req) (\<lambda>c.
     bind (on_db (reads (listSessions (pn_id (ax_principal c)) now))) (\<lambda>mine.
       if \<not> list_ex (\<lambda>s. sn_id s = sid) mine
       then ret \<lparr>rp_status = 404, rp_body = Error_body NOT_FOUND ''No such session'', rp_setCookie = None\<rparr>
       else bind (on_db (revokeSession sid ''revoked by user'' now)) (\<lambda>_.
         ret \<lparr>rp_status = 200, rp_body = Done,
              rp_setCookie = (if sid = sn_id (ax_session c) then Some (clearSessionCookie cookie) else None)\<rparr>)))"

definition logout_all :: "crypto \<Rightarrow> SessionConfig \<Rightarrow> CookieOptions \<Rightarrow> int \<Rightarrow> request \<Rightarrow> (auth_api, app_error, reply) eff" where
  "logout_all cr cfg cookie now req =
     bind (mustBeSignedIn cr cfg now req) (\<lambda>c.
     bind (on_db (revokeAllSessions (pn_id (ax_principal c)) ''signed out everywhere'' now)) (\<lambda>n.
       ret \<lparr>rp_status = 200, rp_body = Done_revoked n, rp_setCookie = Some (clearSessionCookie cookie)\<rparr>))"

definition password_route ::
  "crypto \<Rightarrow> SessionConfig \<Rightarrow> CookieOptions \<Rightarrow> fresh \<Rightarrow> client_meta \<Rightarrow> int \<Rightarrow> request \<Rightarrow> string option \<Rightarrow> string option \<Rightarrow>
   (auth_api, app_error, reply) eff" where
  "password_route cr cfg cookie fr meta now req currentPassword newPassword =
     bind (mustBeSignedIn cr cfg now req) (\<lambda>c.
     case (given currentPassword, given newPassword) of
       (Some old, Some new) \<Rightarrow>
         if length new < 12 then ret (bad_request ''New password must be at least 12 characters'')
         else
           (let p = ax_principal c in
            bind (on_db (verifyCredentials cr cfg (fr_salt fr) now (pn_kind p) (pn_email p) old (pn_tenantId p))) (\<lambda>_.
            bind (on_db (setPassword cr (fr_salt fr) (pn_id p) new False)) (\<lambda>_.
            bind (on_db (revokeAllSessions (pn_id p) ''password changed'' now)) (\<lambda>_.
            bind (on_db (reads (loadById (pn_id p)))) (\<lambda>again.
              case again of
                Some q \<Rightarrow> issueSession cr cfg cookie fr meta now q None
              | None \<Rightarrow> throw (JsError ''TypeError''))))))
     | _ \<Rightarrow> ret (bad_request ''currentPassword and newPassword are required''))"

definition totp_begin_route :: "crypto \<Rightarrow> SessionConfig \<Rightarrow> fresh \<Rightarrow> int \<Rightarrow> request \<Rightarrow> (auth_api, app_error, reply) eff" where
  "totp_begin_route cr cfg fr now req =
     bind (mustBeSignedIn cr cfg now req) (\<lambda>c.
     bind (on_db (beginTotpEnrolment (fr_secret fr) (pn_id (ax_principal c)))) (\<lambda>secret.
       ret (answer (Totp_secret secret (enrolment_link secret (pn_email (ax_principal c)))))))"

definition totp_confirm_route ::
  "crypto \<Rightarrow> SessionConfig \<Rightarrow> fresh \<Rightarrow> int \<Rightarrow> request \<Rightarrow> string option \<Rightarrow> (auth_api, app_error, reply) eff" where
  "totp_confirm_route cr cfg fr now req code =
     bind (mustBeSignedIn cr cfg now req) (\<lambda>c.
     case given code of
       None \<Rightarrow> ret (bad_request ''code is required'')
     | Some d \<Rightarrow>
         bind (on_db (confirmTotp cr (fr_picks fr) now (pn_id (ax_principal c)) d)) (\<lambda>codes.
           ret (answer (New_recovery_codes codes))))"

section \<open>Users of a tenant\<close>

definition isTenantUserOf :: "Principal option \<Rightarrow> string \<Rightarrow> bool" where
  "isTenantUserOf p0 tenantId =
     (case p0 of
        None \<Rightarrow> False
      | Some p \<Rightarrow> if pn_kind p \<noteq> Tenant_user then False else pn_tenantId p = Some tenantId)"

definition assertTenantUserOf :: "Principal option \<Rightarrow> string \<Rightarrow> app_error + Principal" where
  "assertTenantUserOf p0 tenantId =
     (if \<not> isTenantUserOf p0 tenantId then Inl (AppError PRINCIPAL_NOT_FOUND ''No such user on this tenant'' True)
      else Inr (the p0))"

end
