(* ===== verification/Sign_In.thy ===== *)
theory Sign_In
  imports Auth_Routes
begin

text \<open>
  What signing in over HTTP guarantees: a session of an account whose role needs a second factor rests on its
  password and on a code. The invariant is kept by each handler of \<open>Auth_Routes\<close>.
\<close>

section \<open>Calls\<close>

datatype auth_call =
    Post_login login_body
  | Post_mfa mfa_body
  | Get_session request
  | Post_logout request
  | Get_sessions request
  | Delete_session request string
  | Post_logout_all request
  | Post_password request "string option" "string option"
  | Post_totp_begin request
  | Post_totp_confirm request "string option"

fun serve ::
  "crypto \<Rightarrow> SessionConfig \<Rightarrow> CookieOptions \<Rightarrow> (string \<Rightarrow> string option \<Rightarrow> string option) option \<Rightarrow> fresh \<Rightarrow> client_meta \<Rightarrow> int \<Rightarrow>
   auth_call \<Rightarrow> (auth_api, app_error, reply) eff" where
  "serve cr cfg cookie f fr meta now (Post_login b) = login cr cfg cookie f fr meta now b"
| "serve cr cfg cookie f fr meta now (Post_mfa b) = mfa cr cfg cookie fr meta now b"
| "serve cr cfg cookie f fr meta now (Get_session req) = session_route cr cfg now req"
| "serve cr cfg cookie f fr meta now (Post_logout req) = logout cr cfg cookie meta now req"
| "serve cr cfg cookie f fr meta now (Get_sessions req) = sessions_route cr cfg now req"
| "serve cr cfg cookie f fr meta now (Delete_session req sid) = delete_session_route cr cfg cookie now req sid"
| "serve cr cfg cookie f fr meta now (Post_logout_all req) = logout_all cr cfg cookie now req"
| "serve cr cfg cookie f fr meta now (Post_password req old new) = password_route cr cfg cookie fr meta now req old new"
| "serve cr cfg cookie f fr meta now (Post_totp_begin req) = totp_begin_route cr cfg fr now req"
| "serve cr cfg cookie f fr meta now (Post_totp_confirm req code) = totp_confirm_route cr cfg fr now req code"

text \<open>What a call shows of its caller, said in terms of the stored hash, secret and recovery codes: the password of an account
  that may sign in, or a code of the account a sign-in challenge was opened for.\<close>

datatype shown = Knows_password string | Holds_factor string

definition password_shown :: "crypto \<Rightarrow> int \<Rightarrow> PrincipalKind \<Rightarrow> string \<Rightarrow> string \<Rightarrow> string option \<Rightarrow> auth_db \<Rightarrow> shown list" where
  "password_shown cr now kind email password tenant db =
     (case byEmail kind email tenant db of
        None \<Rightarrow> []
      | Some r \<Rightarrow> if \<not> locked now r \<and> pr_status r = Active \<and> verifyPassword cr password (pr_password_hash r)
                  then [Knows_password (pr_id r)] else [])"

definition factor_shown :: "crypto \<Rightarrow> int \<Rightarrow> bool \<Rightarrow> string \<Rightarrow> string \<Rightarrow> auth_db \<Rightarrow> shown list" where
  "factor_shown cr now enrol pid code db =
     (if enrol
      then (case pendingSecret pid db of
              Some secret \<Rightarrow> if \<exists>k. verifyTotp cr secret code now None = Inr (Some k) then [Holds_factor pid] else []
            | None \<Rightarrow> [])
      else if factor_used cr now pid code db \<noteq> None then [Holds_factor pid] else [])"

fun call_shows :: "crypto \<Rightarrow> (string \<Rightarrow> string option \<Rightarrow> string option) option \<Rightarrow> int \<Rightarrow> auth_call \<Rightarrow> auth_api \<Rightarrow> shown list" where
  "call_shows cr f now (Post_login b) a =
     (case (given (lb_email b), given (lb_password b)) of
        (Some email, Some password) \<Rightarrow> password_shown cr now (login_kind b) email password (login_tenant f b email) (aa_db a)
      | _ \<Rightarrow> [])"
| "call_shows cr f now (Post_mfa b) a =
     (case (mb_challenge b, mb_code b) of
        (Some k, Some code) \<Rightarrow>
          (case map_of (aa_challenges (sweepChallenges now a)) k of
             Some c \<Rightarrow> factor_shown cr now (mb_enrol b) (ch_principalId c) code (aa_db a)
           | None \<Rightarrow> [])
      | _ \<Rightarrow> [])"
| "call_shows cr f now c a = []"

text \<open>Runs of the service, with what the calls so far have shown: calls, and between them any statement on the tables of principals
  and sessions but the insertion of a session.\<close>

inductive auth_served :: "crypto \<Rightarrow> SessionConfig \<Rightarrow> CookieOptions \<Rightarrow> (string \<Rightarrow> string option \<Rightarrow> string option) option \<Rightarrow> auth_api \<Rightarrow> shown list \<Rightarrow> bool"
  for cr cfg cookie f where
  start: "auth_served cr cfg cookie f \<lparr>aa_db = auth_db_init tenants, aa_challenges = []\<rparr> []"
| call: "auth_served cr cfg cookie f a L \<Longrightarrow>
    auth_served cr cfg cookie f (snd (serve cr cfg cookie f fr meta now c a)) (L @ call_shows cr f now c a)"
| statement: "auth_served cr cfg cookie f a L \<Longrightarrow> auth_sql cfg (aa_db a) d \<Longrightarrow> length (ad_sessions d) = length (ad_sessions (aa_db a)) \<Longrightarrow>
    auth_served cr cfg cookie f (a\<lparr>aa_db := d\<rparr>) L"

subsection \<open>Accounts that hold a session\<close>

definition roles_in :: "auth_db \<Rightarrow> (string \<times> string) set" where
  "roles_in s = (\<lambda>r. (pr_id r, pr_role r)) ` set (ad_principals s)"

definition holders :: "auth_db \<Rightarrow> string set" where
  "holders s = ss_principal_id ` set (ad_sessions s)"

definition strong :: "auth_db \<Rightarrow> string set" where
  "strong s = {pid. \<exists>role. (pid, role) \<in> roles_in s \<and> requiresTotp role}"

lemma holders_map: "(\<And>x. ss_principal_id (g x) = ss_principal_id x) \<Longrightarrow> holders (s\<lparr>ad_sessions := map g (ad_sessions s)\<rparr>) = holders s"
  by (simp add: holders_def image_image)

lemma roles_map: "(\<And>x. pr_id (g x) = pr_id x \<and> pr_role (g x) = pr_role x) \<Longrightarrow> roles_in (s\<lparr>ad_principals := map g (ad_principals s)\<rparr>) = roles_in s"
  by (simp add: roles_in_def image_image)

lemma frame_simps [simp]:
  "keeps_account g \<Longrightarrow> roles_in (update_principal pid g s) = roles_in s" "holders (update_principal pid g s) = holders s"
  "roles_in (slide sid x y s) = roles_in s" "holders (slide sid x y s) = holders s"
  "roles_in (snd (revoke_where P reason now s)) = roles_in s" "holders (snd (revoke_where P reason now s)) = holders s"
proof -
  show "roles_in (update_principal pid g s) = roles_in s" if "keeps_account g"
    unfolding update_principal_def using that by (intro roles_map) (simp add: keeps_account_def)
  show "holders (slide sid x y s) = holders s" unfolding slide_def by (rule holders_map) simp
  show "holders (snd (revoke_where P reason now s)) = holders s" unfolding revoke_where_def snd_conv by (rule holders_map) simp
  show "holders (update_principal pid g s) = holders s" "roles_in (slide sid x y s) = roles_in s"
    "roles_in (snd (revoke_where P reason now s)) = roles_in s"
    by (simp_all add: holders_def roles_in_def update_principal_def slide_def revoke_where_def)
qed

lemma frame_factor_simps [simp]:
  "roles_in (s\<lparr>ad_totps := t\<rparr>) = roles_in s" "holders (s\<lparr>ad_totps := t\<rparr>) = holders s"
  "roles_in (s\<lparr>ad_codes := c\<rparr>) = roles_in s" "holders (s\<lparr>ad_codes := c\<rparr>) = holders s"
  "roles_in (s\<lparr>ad_attempts := at\<rparr>) = roles_in s" "holders (s\<lparr>ad_attempts := at\<rparr>) = holders s"
  by (simp_all add: roles_in_def holders_def)

lemma strong_same: "roles_in s' = roles_in s \<Longrightarrow> strong s' = strong s"
  by (simp add: strong_def)

text \<open>The invariant of a run, for the accounts \<open>G\<close> that have shown both factors and \<open>K\<close> that have shown their password;
  \<open>X\<close> are accounts known not to need a second factor.\<close>

definition db_inv :: "SessionConfig \<Rightarrow> string set \<Rightarrow> string set \<Rightarrow> auth_db \<Rightarrow> bool" where
  "db_inv cfg G X s \<longleftrightarrow> auth_ok cfg s \<and> holders s \<inter> strong s \<subseteq> G \<and> X \<inter> strong s \<subseteq> G"

definition api_inv :: "SessionConfig \<Rightarrow> string set \<Rightarrow> string set \<Rightarrow> string set \<Rightarrow> auth_api \<Rightarrow> bool" where
  "api_inv cfg G K X a \<longleftrightarrow> db_inv cfg G X (aa_db a) \<and> (\<forall>(k, c) \<in> set (aa_challenges a). ch_principalId c \<in> K)"

lemma preserves_on_db [intro]: "preserves (db_inv cfg G X) m \<Longrightarrow> preserves (api_inv cfg G K X) (on_db m)"
  by (rule preserves_zoom) (auto simp: api_inv_def dest: preservesD)

abbreviation still :: "(string \<times> string) set \<Rightarrow> string set \<Rightarrow> (auth_db, app_error, 'a) eff \<Rightarrow> bool" where
  "still R H m \<equiv> preserves (\<lambda>s. roles_in s = R \<and> holders s = H) m"

lemma keeps_inv:
  assumes "runs_statements cfg m" "\<And>R H. still R H m"
  shows "preserves (db_inv cfg G X) m"
proof (rule preservesI)
  fix s assume s: "db_inv cfg G X s"
  from assms(2) [of "roles_in s" "holders s"] have f: "roles_in (snd (m s)) = roles_in s" "holders (snd (m s)) = holders s"
    by (auto dest: preservesD [of _ _ s])
  from assms(1) s have "auth_ok cfg (snd (m s))" by (auto simp: db_inv_def runs_statements_def intro: auth_sqls_ok)
  with s f show "db_inv cfg G X (snd (m s))" by (simp add: db_inv_def strong_same [OF f(1)])
qed

lemma still_modify: "(\<And>s. roles_in (g s) = roles_in s) \<Longrightarrow> (\<And>s. holders (g s) = holders s) \<Longrightarrow> still R H (modify g)"
  by (rule preserves_modify) simp

lemma still_one: "(\<And>s. roles_in (snd (m s)) = roles_in s) \<Longrightarrow> (\<And>s. holders (snd (m s)) = holders s) \<Longrightarrow> still R H m"
  by (rule preservesI) simp

lemma still_updates [intro]:
  "still R H (modify (q_recordFailure pid n l))" "still R H (modify (clearFailures pid))" "still R H (modify (rehashPassword pid h))"
  "still R H (modify (q_setPassword pid h b))" "still R H (modify (touchLastLogin pid now))" "still R H (modify (advanceStep pid k))"
  "still R H (modify (upsertPending pid secret))" "still R H (modify (slide sid now idle))"
  by (rule still_modify; simp add: q_recordFailure_def clearFailures_def rehashPassword_def q_setPassword_def touchLastLogin_def
      advanceStep_def upsertPending_def update_totp_def)+

lemma still_steps [intro]:
  "still R H (recordAttempt a)" "still R H (consumeRecoveryCode cr now pid code)"
  "still R H (revokeSession sid reason now)" "still R H (revokeAllSessions pid reason now)"
proof -
  show "still R H (recordAttempt a)" unfolding recordAttempt_def by (rule still_modify) simp_all
  show "still R H (consumeRecoveryCode cr now pid code)" by (rule still_one) (simp_all add: consumeRecoveryCode_def spend_def)
  have r: "snd (revokeSession sid reason now s) = snd (revoke_where (\<lambda>x. ss_id x = sid) reason now s)"
    "snd (revokeAllSessions pid reason now s) = snd (revoke_where (\<lambda>x. ss_principal_id x = pid) reason now s)" for s
    by (simp_all add: revokeSession_def revokeAllSessions_def split: prod.splits)
  show "still R H (revokeSession sid reason now)" "still R H (revokeAllSessions pid reason now)"
    by (rule still_one; simp add: r)+
qed

lemmas preserves_intros = preserves_bind preserves_ret preserves_throw preserves_lift preserves_reads

lemma still_methods:
  "still R H (verifyCredentials cr cfg salt now kind email password tenant)"
  "still R H (verifySecondFactor cr now pid code)"
  "still R H (beginTotpEnrolment random pid)"
  "still R H (setPassword cr salt pid password mustChange)"
  "still R H (resolveSession cr cfg token now)"
  "still R H (resolveAuth cr cfg now req)"
proof -
  show "still R H (verifyCredentials cr cfg salt now kind email password tenant)"
    unfolding verifyCredentials_def rehash_if_needed_def Let_def by (auto intro!: preserves_bind split: option.splits)
  show "still R H (verifySecondFactor cr now pid code)"
    unfolding verifySecondFactor_def by (auto intro!: preserves_intros still_updates still_steps split: option.splits)
  show "still R H (beginTotpEnrolment random pid)"
    unfolding beginTotpEnrolment_def Let_def by (auto intro!: preserves_bind)
  show "still R H (setPassword cr salt pid password mustChange)"
    unfolding setPassword_def by (auto intro!: preserves_bind)
  show r: "still R H (resolveSession cr cfg token now)" for token
    unfolding resolveSession_def Let_def by (auto intro!: preserves_bind split: list.splits)
  show "still R H (resolveAuth cr cfg now req)"
    unfolding resolveAuth_def by (auto intro!: preserves_bind r split: option.splits)
qed

lemma preserves_transaction: "preserves I m \<Longrightarrow> preserves I (transaction m)"
  by (auto simp: preserves_def transaction_def split: prod.splits sum.splits)

lemma confirmTotp_frame: "\<exists>t c. snd (confirmTotp cr picks now pid code s) = s\<lparr>ad_totps := t, ad_codes := c, ad_attempts := ad_attempts s\<rparr>"
proof -
  let ?I = "\<lambda>x. ad_tenants x = ad_tenants s \<and> ad_principals x = ad_principals s \<and> ad_sessions x = ad_sessions s \<and> ad_attempts x = ad_attempts s"
  have ins: "preserves ?I (recovery_insert pid h)" for h by (rule preservesI) (auto simp: recovery_insert_def)
  have "preserves ?I (bind (modify (q_confirm pid step now)) (\<lambda>_. bind (modify (recovery_deleteFor pid)) (\<lambda>_.
      for_each (\<lambda>c _. recovery_insert pid (hashToken cr c)) (generateRecoveryCodes picks) ())))" for step
    by (auto intro!: preserves_bind preserves_modify preserves_for_each ins simp: q_confirm_def update_totp_def recovery_deleteFor_def)
  then have "preserves ?I (transaction (bind (modify (q_confirm pid step now)) (\<lambda>_. bind (modify (recovery_deleteFor pid)) (\<lambda>_.
      for_each (\<lambda>c _. recovery_insert pid (hashToken cr c)) (generateRecoveryCodes picks) ()))))" for step
    by (rule preserves_transaction)
  then have "preserves ?I (confirmTotp cr picks now pid code)"
    unfolding confirmTotp_def Let_def by (auto intro!: preserves_intros split: option.splits)
  then have "?I (snd (confirmTotp cr picks now pid code s))" by (rule preservesD) simp
  then show ?thesis by (intro exI [of _ "ad_totps (snd (confirmTotp cr picks now pid code s))"] exI [of _ "ad_codes (snd (confirmTotp cr picks now pid code s))"]) simp
qed

lemma confirmTotp_runs: "runs_statements cfg (confirmTotp cr picks now pid code)" "still R H (confirmTotp cr picks now pid code)"
proof -
  show "runs_statements cfg (confirmTotp cr picks now pid code)" unfolding runs_statements_def
  proof
    fix s
    from confirmTotp_frame obtain t c where "snd (confirmTotp cr picks now pid code s) = s\<lparr>ad_totps := t, ad_codes := c, ad_attempts := ad_attempts s\<rparr>" by blast
    with auth_sql.factors [where cfg = cfg and s = s and t = t and c = c and a = "ad_attempts s"] show "auth_runs cfg s (snd (confirmTotp cr picks now pid code s))" by auto
  qed
  have "roles_in (snd (confirmTotp cr picks now pid code s)) = roles_in s \<and> holders (snd (confirmTotp cr picks now pid code s)) = holders s" for s
    using confirmTotp_frame [of cr picks now pid code s] by (auto simp: roles_in_def holders_def)
  then show "still R H (confirmTotp cr picks now pid code)" by (intro still_one) simp_all
qed

lemma runs_resolveAuth: "runs_statements cfg (resolveAuth cr cfg now req)"
  unfolding resolveAuth_def by (auto intro!: runs_bind runs_methods split: option.splits)

lemmas method_inv [intro] =
  runs_methods(3) [THEN keeps_inv, OF still_methods(4)]
  runs_methods(4) [THEN keeps_inv, OF still_methods(1)]
  runs_methods(5) [THEN keeps_inv, OF still_methods(2)]
  runs_methods(6) [THEN keeps_inv, OF still_methods(3)]
  runs_methods(9) [THEN keeps_inv, OF still_steps(1)]
  confirmTotp_runs(1) [THEN keeps_inv, OF confirmTotp_runs(2)]
  runs_resolveAuth [THEN keeps_inv, OF still_methods(6)]
  runs_revoke(1) [THEN keeps_inv, OF still_steps(4)]
  runs_revoke(2) [THEN keeps_inv, OF still_steps(3)]

subsection \<open>The handlers keep the invariant\<close>

lemma createSession_inv:
  assumes "pid \<in> G \<union> X"
  shows "preserves (db_inv cfg G X) (createSession cr cfg uuid token csrf pid meta now)"
proof (rule preservesI)
  fix s assume s: "db_inv cfg G X s"
  let ?s = "snd (createSession cr cfg uuid token csrf pid meta now s)"
  have "auth_runs cfg s ?s" using runs_methods(7) [of cfg cr uuid token csrf pid meta now] by (simp add: runs_statements_def)
  then have "auth_ok cfg ?s" by (rule auth_sqls_ok) (use s in \<open>simp add: db_inv_def\<close>)
  moreover have "roles_in ?s = roles_in s \<and> holders ?s \<subseteq> insert pid (holders s)"
  proof (cases "fst (session_insert (session_of cr cfg uuid token csrf pid meta now) s)")
    case (Inl e)
    then have "session_insert (session_of cr cfg uuid token csrf pid meta now) s = (Inl e, s)"
      by (auto simp: session_insert_def split: if_splits)
    then show ?thesis by (auto simp: createSession_def effect_simps)
  next
    case (Inr u)
    then have "session_insert (session_of cr cfg uuid token csrf pid meta now) s =
        (Inr u, s\<lparr>ad_sessions := ad_sessions s @ [session_of cr cfg uuid token csrf pid meta now]\<rparr>)"
      by (auto simp: session_insert_def split: if_splits)
    moreover have "roles_in (touchLastLogin pid now x) = roles_in x" "holders (touchLastLogin pid now x) = holders x" for x
      by (simp_all add: touchLastLogin_def)
    moreover have "roles_in (s\<lparr>ad_sessions := l\<rparr>) = roles_in s" for l by (simp add: roles_in_def)
    ultimately show ?thesis by (auto simp: createSession_def effect_simps holders_def session_of_def)
  qed
  ultimately show "db_inv cfg G X ?s" using s assms strong_same [of ?s s] by (auto simp: db_inv_def)
qed

lemma issueSession_inv: "pn_id p \<in> G \<union> X \<Longrightarrow> preserves (api_inv cfg G K X) (issueSession cr cfg cookie fr meta now p codes)"
  unfolding issueSession_def by (intro preserves_intros preserves_on_db createSession_inv method_inv)

lemma db_inv_holder: "db_inv cfg G X s \<Longrightarrow> pid \<in> holders s \<Longrightarrow> db_inv cfg G (insert pid X) s"
  by (auto simp: db_inv_def)

lemma api_inv_fewer: "api_inv cfg G K X a \<Longrightarrow> X' \<subseteq> X \<Longrightarrow> api_inv cfg G K X' a"
  by (auto simp: api_inv_def db_inv_def)

lemma loadById_id: "loadById pid s = Some p \<Longrightarrow> pn_id p = pid"
  by (auto simp: loadById_def byId_def toPrincipal_def find_Some_iff)

lemma reloaded_Some: "\<exists>s. again = loadById pid s \<Longrightarrow> again = Some q \<Longrightarrow> pn_id q = pid"
  by (metis loadById_id)

lemma reloaded: "\<exists>s. again = loadById (pn_id p) s \<Longrightarrow> pn_id (case again of Some q \<Rightarrow> q | None \<Rightarrow> p) = pn_id p"
  by (cases again) (auto dest: reloaded_Some loadById_id [OF sym])

lemma preserves_reads_bind:
  "(\<And>x. \<exists>s. x = g s \<Longrightarrow> preserves (api_inv cfg G K X) (h x)) \<Longrightarrow> preserves (api_inv cfg G K X) (bind (on_db (reads g)) h)"
  by (auto simp: preserves_def bind_def zoom_def reads_def)

text \<open>Behind a session the account that holds it may be given another.\<close>

lemma signed_in_inv:
  assumes "\<And>c. preserves (api_inv cfg G K {pn_id (ax_principal c)}) (h c)"
  shows "preserves (api_inv cfg G K {}) (bind (mustBeSignedIn cr cfg now req) h)"
proof (rule preservesI)
  fix a assume a: "api_inv cfg G K {} a"
  obtain res t where r: "resolveAuth cr cfg now req (aa_db a) = (res, t)" by fastforce
  let ?a = "a\<lparr>aa_db := t\<rparr>"
  have on: "on_db (resolveAuth cr cfg now req) a = (res, ?a)" using r by (simp add: zoom_def)
  have ok: "api_inv cfg G K {} ?a"
    using preservesD [OF preserves_on_db [OF method_inv(7)] a, of cr now req] on by simp
  show "api_inv cfg G K {} (snd (bind (mustBeSignedIn cr cfg now req) h a))"
  proof (cases res)
    case (Inl e)
    with on ok show ?thesis by (simp add: mustBeSignedIn_def effect_simps bind_def)
  next
    case (Inr ctx)
    show ?thesis
    proof (cases ctx)
      case None
      with Inr on ok show ?thesis by (simp add: mustBeSignedIn_def bind_def throw_def)
    next
      case (Some c)
      with r Inr obtain p where "presents cr now req (aa_db a) p" "ax_principal c = toPrincipal (aa_db a) p"
        by (auto elim: resolveAuth_Some)
      then have "pn_id (ax_principal c) \<in> holders (aa_db a)"
        by (auto simp: presents_def holders_def toPrincipal_def byId_def find_Some_iff)
      then have "db_inv cfg G {pn_id (ax_principal c)} (aa_db a)" using a db_inv_holder [of cfg G "{}"] by (simp add: api_inv_def)
      with a have "api_inv cfg G K {pn_id (ax_principal c)} a" by (simp add: api_inv_def)
      then have "api_inv cfg G K {pn_id (ax_principal c)} ?a"
        using preservesD [OF preserves_on_db [OF method_inv(7)], of cfg G K "{pn_id (ax_principal c)}" a cr now req] on by simp
      from preservesD [OF assms this] have "api_inv cfg G K {} (snd (h c ?a))" by (rule api_inv_fewer) simp
      with Inr Some on show ?thesis by (simp add: mustBeSignedIn_def bind_def ret_def)
    qed
  qed
qed

lemma verify_result:
  assumes "auth_ok cfg s" "verifyCredentials cr cfg salt now kind email password tenant s = (Inr (oc, p), s')"
  shows "password_shown cr now kind email password tenant s = [Knows_password (pn_id p)]"
    and "oc = Login_ok \<Longrightarrow> pn_id p \<notin> strong s'"
proof -
  from assms(2) obtain r where r: "byEmail kind email tenant s = Some r" "\<not> locked now r" "pr_status r = Active"
      "verifyPassword cr password (pr_password_hash r)" and p: "p = toPrincipal s r" and oc: "oc = Login_ok \<Longrightarrow> \<not> requiresTotp (pn_role p)"
    by (auto simp: verifyCredentials_def effect_simps Let_def bind_Inr_iff ret_def throw_def split: option.splits if_splits)
  then show "password_shown cr now kind email password tenant s = [Knows_password (pn_id p)]"
    by (simp add: password_shown_def toPrincipal_def)
  from r(1) have "r \<in> set (ad_principals s)" by (auto simp: byEmail_def find_Some_iff)
  with assms(1) have "role = pr_role r" if "(pr_id r, role) \<in> roles_in s" for role
    using that by (auto simp: roles_in_def auth_ok_def distinct_map inj_on_def)
  moreover have "roles_in s' = roles_in s"
    using still_methods(1) [of "roles_in s" "holders s", THEN preservesD, of s] assms(2) by (metis snd_conv)
  ultimately show "pn_id p \<notin> strong s'" if "oc = Login_ok" using oc [OF that] p by (auto simp: strong_def toPrincipal_def)
qed

lemma update_entries: "x \<in> set (AList.update k v m) \<Longrightarrow> x = (k, v) \<or> x \<in> set m"
  by (induction m) (auto split: if_splits)

lemma open_challenge_inv: "pn_id p \<in> K \<Longrightarrow> preserves (api_inv cfg G K X) (open_challenge fr now p)"
  unfolding open_challenge_def
  by (intro preserves_bind preserves_modify)
    (auto simp: api_inv_def sweepChallenges_def set_challenge_def dest!: update_entries split: prod.splits)

lemma try_catch_inv: "I (snd (m s)) \<Longrightarrow> (\<And>e. preserves I (h e)) \<Longrightarrow> I (snd (try_catch m h s))"
  by (cases "m s") (auto simp: try_catch_def dest: preservesD split: sum.splits)

lemma db_step_inv:
  assumes "api_inv cfg G K X a" "preserves (db_inv cfg G X) m"
    and "\<And>x t. m (aa_db a) = (Inr x, t) \<Longrightarrow> api_inv cfg G K X (a\<lparr>aa_db := t\<rparr>) \<Longrightarrow> api_inv cfg G K X (snd (go x (a\<lparr>aa_db := t\<rparr>)))"
  shows "api_inv cfg G K X (snd (bind (on_db m) go a))"
proof -
  obtain res t where r: "m (aa_db a) = (res, t)" by fastforce
  with preservesD [OF assms(2), of "aa_db a"] assms(1) have "api_inv cfg G K X (a\<lparr>aa_db := t\<rparr>)" by (simp add: api_inv_def)
  with assms(3) r show ?thesis by (cases res) (simp_all add: bind_def zoom_def)
qed

lemma login_inv:
  assumes "api_inv cfg G K {} a" "\<And>pid. Knows_password pid \<in> set (call_shows cr f now (Post_login b) a) \<Longrightarrow> pid \<in> K"
  shows "api_inv cfg G K {} (snd (login cr cfg cookie f fr meta now b a))"
proof (cases "given (lb_email b) = None \<or> given (lb_password b) = None")
  case True
  with assms(1) show ?thesis by (auto simp: login_def ret_def split: option.splits)
next
  case False
  then obtain email password where g: "given (lb_email b) = Some email" "given (lb_password b) = Some password" by auto
  show ?thesis unfolding login_def g option.case prod.case
  proof (rule try_catch_inv, rule db_step_inv [OF assms(1) method_inv(2)])
    fix x t
    assume v: "verifyCredentials cr cfg (fr_salt fr) now (login_kind b) email password (login_tenant f b email) (aa_db a) = (Inr x, t)"
      and ok: "api_inv cfg G K {} (a\<lparr>aa_db := t\<rparr>)"
    obtain oc p where x: "x = (oc, p)" by (cases x)
    have "auth_ok cfg (aa_db a)" using assms(1) by (simp add: api_inv_def db_inv_def)
    note v = verify_result [OF this v [unfolded x]]
    have K: "pn_id p \<in> K" using assms(2) [of "pn_id p"] g v(1) by simp
    let ?go = "if oc = Login_ok then issueSession cr cfg cookie fr meta now p None
               else bind (open_challenge fr now p) (\<lambda>_.
                 if oc = Mfa_enrolment_required
                 then bind (on_db (beginTotpEnrolment (fr_secret fr) (pn_id p))) (\<lambda>secret.
                   ret (answer (Enrol_challenge (fr_challenge fr) secret (enrolment_link secret (pn_email p)))))
                 else ret (answer (Code_challenge (fr_challenge fr))))"
    have "api_inv cfg G K {} (snd (?go (a\<lparr>aa_db := t\<rparr>)))"
    proof (cases "oc = Login_ok")
      case True
      with v(2) ok have "api_inv cfg G K {pn_id p} (a\<lparr>aa_db := t\<rparr>)" by (simp add: api_inv_def db_inv_def)
      from preservesD [OF issueSession_inv this, of p cr cookie fr meta now None] have "api_inv cfg G K {pn_id p} (snd (?go (a\<lparr>aa_db := t\<rparr>)))"
        using True by simp
      then show ?thesis by (rule api_inv_fewer) simp
    next
      case False
      then have "preserves (api_inv cfg G K {}) ?go"
        by (auto intro!: preserves_intros preserves_on_db method_inv open_challenge_inv K)
      from preservesD [OF this ok] show ?thesis .
    qed
    then show "api_inv cfg G K {} (snd ((case x of (oc, p) \<Rightarrow> if oc = Login_ok then issueSession cr cfg cookie fr meta now p None
               else bind (open_challenge fr now p) (\<lambda>_.
                 if oc = Mfa_enrolment_required
                 then bind (on_db (beginTotpEnrolment (fr_secret fr) (pn_id p))) (\<lambda>secret.
                   ret (answer (Enrol_challenge (fr_challenge fr) secret (enrolment_link secret (pn_email p)))))
                 else ret (answer (Code_challenge (fr_challenge fr))))) (a\<lparr>aa_db := t\<rparr>)))"
      by (simp add: x)
  qed (intro preserves_intros preserves_on_db method_inv)
qed

lemma confirmTotp_shows:
  assumes "confirmTotp cr picks now pid code s = (Inr codes, t)"
  obtains secret k where "pendingSecret pid s = Some secret" "verifyTotp cr secret code now None = Inr (Some k)"
proof (cases "pendingSecret pid s")
  case None
  with assms show ?thesis by (simp add: confirmTotp_def effect_simps)
next
  case (Some secret)
  show ?thesis
  proof (cases "verifyTotp cr secret code now None")
    case (Inl e)
    with assms Some show ?thesis by (simp add: confirmTotp_def effect_simps split: if_splits)
  next
    case (Inr r)
    with assms Some show ?thesis by (cases r) (auto simp: confirmTotp_def effect_simps intro: that split: if_splits)
  qed
qed

lemma mfa_enrol:
  assumes "given (mb_challenge b) = Some k" "map_of (aa_challenges (sweepChallenges now a)) k = Some c" "given (mb_code b) = Some code"
    "loadById (ch_principalId c) (aa_db a) = Some p" "mb_enrol b"
  shows "mfa cr cfg cookie fr meta now b a = bind (on_db (confirmTotp cr (fr_picks fr) now (pn_id p) code)) (\<lambda>codes.
          bind (modify (delete_challenge k)) (\<lambda>_. bind (on_db (reads (loadById (pn_id p)))) (\<lambda>again.
            issueSession cr cfg cookie fr meta now (case again of Some q \<Rightarrow> q | None \<Rightarrow> p) (Some codes)))) (sweepChallenges now a)"
proof -
  have "aa_db (sweepChallenges now a) = aa_db a" by (simp add: sweepChallenges_def)
  with assms show ?thesis by (simp add: mfa_def effect_simps zoom_def)
qed

lemma mfa_inv:
  assumes "api_inv cfg G K {} a" "\<And>pid. pid \<in> K \<Longrightarrow> Holds_factor pid \<in> set (call_shows cr f now (Post_mfa b) a) \<Longrightarrow> pid \<in> G"
  shows "api_inv cfg G K {} (snd (mfa cr cfg cookie fr meta now b a))"
proof -
  let ?a = "sweepChallenges now a"
  have a: "api_inv cfg G K {} ?a" and db: "aa_db ?a = aa_db a" using assms(1) by (auto simp: api_inv_def sweepChallenges_def)
  have del: "preserves (api_inv cfg G K {}) (modify (delete_challenge k))" for k
    by (rule preserves_modify) (auto simp: api_inv_def delete_challenge_def AList.delete_eq)
  show ?thesis
  proof (cases "\<exists>k c code p. given (mb_challenge b) = Some k \<and> map_of (aa_challenges ?a) k = Some c \<and> given (mb_code b) = Some code
      \<and> loadById (ch_principalId c) (aa_db a) = Some p")
    case False
    with a db show ?thesis
      by (auto simp: mfa_def effect_simps zoom_def split: option.splits)
  next
    case True
    then obtain k c code p where h: "given (mb_challenge b) = Some k" "map_of (aa_challenges ?a) k = Some c" "given (mb_code b) = Some code"
      "loadById (ch_principalId c) (aa_db a) = Some p" by blast
    have pid: "pn_id p = ch_principalId c" using h(4) by (rule loadById_id)
    have K: "pn_id p \<in> K" using a h(2) map_of_SomeD [of "aa_challenges ?a" k c] by (auto simp: api_inv_def pid)
    have call: "call_shows cr f now (Post_mfa b) a = factor_shown cr now (mb_enrol b) (pn_id p) code (aa_db a)"
      using h pid by (auto simp: given_def split: if_splits option.splits)
    have G: "pn_id p \<in> G" if "factor_shown cr now (mb_enrol b) (pn_id p) code (aa_db a) \<noteq> []"
    proof -
      from that have "Holds_factor (pn_id p) \<in> set (factor_shown cr now (mb_enrol b) (pn_id p) code (aa_db a))"
        by (auto simp: factor_shown_def split: option.splits if_splits)
      with assms(2) K show ?thesis unfolding call by blast
    qed
    show ?thesis
    proof (cases "mb_enrol b")
      case enrol: True
      show ?thesis unfolding mfa_enrol [OF h enrol]
      proof (rule db_step_inv [OF a method_inv(6)])
        fix codes t
        assume "confirmTotp cr (fr_picks fr) now (pn_id p) code (aa_db ?a) = (Inr codes, t)" and ok: "api_inv cfg G K {} (?a\<lparr>aa_db := t\<rparr>)"
        then have "factor_shown cr now (mb_enrol b) (pn_id p) code (aa_db a) \<noteq> []" unfolding db
          using enrol by (auto simp: factor_shown_def elim!: confirmTotp_shows)
        then have Gp: "pn_id p \<in> G" by (rule G)
        have "preserves (api_inv cfg G K {}) (bind (modify (delete_challenge k)) (\<lambda>_. bind (on_db (reads (loadById (pn_id p)))) (\<lambda>again.
            issueSession cr cfg cookie fr meta now (case again of Some q \<Rightarrow> q | None \<Rightarrow> p) (Some codes))))"
          by (rule preserves_bind [OF del], rule preserves_reads_bind, rule issueSession_inv)
            (use Gp in \<open>simp add: reloaded\<close>)
        from this ok show "api_inv cfg G K {} (snd (bind (modify (delete_challenge k)) (\<lambda>_. bind (on_db (reads (loadById (pn_id p)))) (\<lambda>again.
            issueSession cr cfg cookie fr meta now (case again of Some q \<Rightarrow> q | None \<Rightarrow> p) (Some codes))) (?a\<lparr>aa_db := t\<rparr>)))"
          by (rule preservesD)
      qed
    next
      case no: False
      let ?go = "\<lambda>ok. if \<not> ok
                    then bind (on_db (recordAttempt (attempt_of p ''mfa_failed'' meta now))) (\<lambda>_. throw (auth_failed ''That code is not correct''))
                    else bind (modify (delete_challenge k)) (\<lambda>_. issueSession cr cfg cookie fr meta now p None)"
      have "mfa cr cfg cookie fr meta now b a = bind (on_db (verifySecondFactor cr now (pn_id p) code)) ?go ?a"
        using h no db by (simp add: mfa_def effect_simps zoom_def)
      also have "api_inv cfg G K {} (snd \<dots>)"
      proof (rule db_step_inv [OF a method_inv(3)])
        fix x t
        assume r: "verifySecondFactor cr now (pn_id p) code (aa_db ?a) = (Inr x, t)" and ok: "api_inv cfg G K {} (?a\<lparr>aa_db := t\<rparr>)"
        have "pn_id p \<in> G" if x
          using r no that unfolding db by (intro G) (auto simp: factor_shown_def factor_used_def split: option.splits)
        then have "preserves (api_inv cfg G K {}) (?go x)"
          by (auto intro!: preserves_intros preserves_on_db method_inv issueSession_inv del)
        from this ok show "api_inv cfg G K {} (snd (?go x (?a\<lparr>aa_db := t\<rparr>)))" by (rule preservesD)
      qed
      finally show ?thesis .
    qed
  qed
qed

lemma signed_in_routes_inv:
  "preserves (api_inv cfg G K {}) (session_route cr cfg now req)"
  "preserves (api_inv cfg G K {}) (logout cr cfg cookie meta now req)"
  "preserves (api_inv cfg G K {}) (sessions_route cr cfg now req)"
  "preserves (api_inv cfg G K {}) (delete_session_route cr cfg cookie now req sid)"
  "preserves (api_inv cfg G K {}) (logout_all cr cfg cookie now req)"
  "preserves (api_inv cfg G K {}) (totp_begin_route cr cfg fr now req)"
  "preserves (api_inv cfg G K {}) (totp_confirm_route cr cfg fr now req code)"
proof -
  note steps = preserves_intros preserves_on_db method_inv
  show "preserves (api_inv cfg G K {}) (session_route cr cfg now req)" unfolding session_route_def by (intro steps)
  show "preserves (api_inv cfg G K {}) (logout cr cfg cookie meta now req)"
    unfolding logout_def by (rule preserves_bind, intro steps) (auto intro!: steps split: option.splits)
  show "preserves (api_inv cfg G K {}) (sessions_route cr cfg now req)"
    unfolding sessions_route_def by (rule signed_in_inv) (intro steps)
  show "preserves (api_inv cfg G K {}) (delete_session_route cr cfg cookie now req sid)"
    unfolding delete_session_route_def by (rule signed_in_inv) (auto intro!: steps)
  show "preserves (api_inv cfg G K {}) (logout_all cr cfg cookie now req)"
    unfolding logout_all_def by (rule signed_in_inv) (intro steps)
  show "preserves (api_inv cfg G K {}) (totp_begin_route cr cfg fr now req)"
    unfolding totp_begin_route_def by (rule signed_in_inv) (intro steps)
  show "preserves (api_inv cfg G K {}) (totp_confirm_route cr cfg fr now req code)"
    unfolding totp_confirm_route_def by (rule signed_in_inv) (auto intro!: steps split: option.splits)
qed

lemma password_route_inv: "preserves (api_inv cfg G K {}) (password_route cr cfg cookie fr meta now req old new)"
  unfolding password_route_def Let_def
proof (rule signed_in_inv)
  fix c
  let ?p = "ax_principal c"
  let ?I = "api_inv cfg G K {pn_id ?p}"
  have "preserves ?I (case again of Some q \<Rightarrow> issueSession cr cfg cookie fr meta now q None | None \<Rightarrow> throw (JsError ''TypeError''))"
    if "\<exists>s. again = loadById (pn_id ?p) s" for again
  proof (cases again)
    case (Some q)
    with reloaded_Some [OF that Some] show ?thesis by (simp add: issueSession_inv)
  qed (simp add: preserves_throw)
  note fin = preserves_reads_bind [OF this]
  show "preserves ?I (case (given old, given new) of
       (Some old, Some new) \<Rightarrow>
         if length new < 12 then ret (bad_request ''New password must be at least 12 characters'')
         else
            bind (on_db (verifyCredentials cr cfg (fr_salt fr) now (pn_kind ?p) (pn_email ?p) old (pn_tenantId ?p))) (\<lambda>_.
            bind (on_db (setPassword cr (fr_salt fr) (pn_id ?p) new False)) (\<lambda>_.
            bind (on_db (revokeAllSessions (pn_id ?p) ''password changed'' now)) (\<lambda>_.
            bind (on_db (reads (loadById (pn_id ?p)))) (\<lambda>again.
              case again of
                Some q \<Rightarrow> issueSession cr cfg cookie fr meta now q None
              | None \<Rightarrow> throw (JsError ''TypeError'')))))
     | _ \<Rightarrow> ret (bad_request ''currentPassword and newPassword are required''))"
    by (cases "given old"; cases "given new"; simp)
      (intro impI conjI preserves_ret preserves_bind [OF preserves_on_db [OF method_inv(2)]] preserves_bind [OF preserves_on_db [OF method_inv(1)]]
        preserves_bind [OF preserves_on_db [OF method_inv(8)]] fin)+
qed

lemma serve_inv:
  assumes "api_inv cfg G K {} a" "\<And>pid. Knows_password pid \<in> set (call_shows cr f now c a) \<Longrightarrow> pid \<in> K"
    and "\<And>pid. pid \<in> K \<Longrightarrow> Holds_factor pid \<in> set (call_shows cr f now c a) \<Longrightarrow> pid \<in> G"
  shows "api_inv cfg G K {} (snd (serve cr cfg cookie f fr meta now c a))"
proof (cases c)
  case (Post_login b)
  with assms(1,2) login_inv show ?thesis by simp
next
  case (Post_mfa b)
  with assms(1,3) mfa_inv show ?thesis by simp
qed (use assms(1) signed_in_routes_inv password_route_inv in \<open>simp_all add: preserves_def\<close>)

subsection \<open>Runs\<close>

definition knows :: "shown list \<Rightarrow> string set" where
  "knows L = {pid. Knows_password pid \<in> set L}"

definition holds :: "shown list \<Rightarrow> string set" where
  "holds L = {pid. Holds_factor pid \<in> set L}"

text \<open>Between the calls: an account added later has an id no session has.\<close>

lemma statement_inv:
  assumes "auth_sql cfg s d" "length (ad_sessions d) = length (ad_sessions s)" "db_inv cfg G {} s"
  shows "db_inv cfg G {} d"
proof -
  have ok: "auth_ok cfg s" using assms(3) by (simp add: db_inv_def)
  with assms(1) have "auth_ok cfg d" by (rule auth_sql_ok)
  moreover have "holders d \<inter> strong d \<subseteq> holders s \<inter> strong s"
    using assms(1,2) ok
  proof (induction rule: auth_sql.induct)
    case (add_principal r s res s')
    show ?case
    proof (cases "s' = s")
      case False
      with add_principal(1) have s': "s' = s\<lparr>ad_principals := ad_principals s @ [r]\<rparr>" "pr_id r \<notin> pr_id ` set (ad_principals s)"
        by (auto simp: principal_insert_def list_ex_iff split: if_splits)
      moreover have "holders s \<subseteq> pr_id ` set (ad_principals s)" using add_principal(4) by (auto simp: auth_ok_def holders_def)
      ultimately have "pr_id r \<notin> holders s" by blast
      then show ?thesis by (auto simp: s'(1) holders_def strong_def roles_in_def) (metis imageI)
    qed simp
  next
    case (change_principal g s pid)
    then have "roles_in (update_principal pid g s) = roles_in s" by simp
    from strong_same [OF this] show ?case by simp
  next
    case (factors s at c t)
    have "roles_in (s\<lparr>ad_totps := t, ad_codes := c, ad_attempts := at\<rparr>) = roles_in s" by (simp add: roles_in_def)
    from strong_same [OF this] show ?case by (simp add: holders_def)
  next
    case (add_session cr uuid token csrf pid meta now s res s')
    then have "s' = s" by (auto simp: session_insert_def split: if_splits)
    then show ?case by simp
  next
    case (use_session r s now)
    from strong_same [OF frame_simps(3)] show ?case by simp
  next
    case (end_sessions s P reason now)
    from strong_same [OF frame_simps(5)] show ?case by simp
  qed
  ultimately show ?thesis using assms(3) by (auto simp: db_inv_def)
qed

lemma api_inv_mono: "api_inv cfg G K {} a \<Longrightarrow> G \<subseteq> G' \<Longrightarrow> K \<subseteq> K' \<Longrightarrow> api_inv cfg G' K' {} a"
  by (auto simp: api_inv_def db_inv_def)

lemma auth_served_inv: "auth_served cr cfg cookie f a L \<Longrightarrow> api_inv cfg (knows L \<inter> holds L) (knows L) {} a"
proof (induction rule: auth_served.induct)
  case (start tenants)
  show ?case using auth_ok_init by (simp add: api_inv_def db_inv_def holders_def auth_db_init_def)
next
  case (call a L fr meta now c)
  let ?L = "L @ call_shows cr f now c a"
  from call(2) have "api_inv cfg (knows ?L \<inter> holds ?L) (knows ?L) {} a"
    by (rule api_inv_mono) (auto simp: knows_def holds_def)
  then show ?case by (rule serve_inv) (auto simp: knows_def holds_def)
next
  case (statement a L d)
  then show ?case using statement_inv by (auto simp: api_inv_def)
qed

text \<open>C6. Whatever requests the service answers, in any order and with any statements on its tables in between, a session of
  an account whose role needs a second factor exists only if some request showed that account's password while it was active and
  not locked, and some request on a sign-in challenge opened for it showed a code of its authenticator or an unused recovery code.\<close>

theorem sessions_need_both_factors:
  assumes "auth_served cr cfg cookie f a L"
    and "x \<in> set (ad_sessions (aa_db a))" "p \<in> set (ad_principals (aa_db a))" "pr_id p = ss_principal_id x" "requiresTotp (pr_role p)"
  shows "Knows_password (pr_id p) \<in> set L \<and> Holds_factor (pr_id p) \<in> set L"
proof -
  from auth_served_inv [OF assms(1)] have "holders (aa_db a) \<inter> strong (aa_db a) \<subseteq> knows L \<inter> holds L" by (simp add: api_inv_def db_inv_def)
  moreover have "pr_id p \<in> holders (aa_db a) \<inter> strong (aa_db a)" using assms(2-5) by (force simp: holders_def strong_def roles_in_def)
  ultimately show ?thesis by (auto simp: knows_def holds_def)
qed

text \<open>An owner signs in: enrolment challenge after the password, then the first code.\<close>

definition ex_owner :: new_principal where
  "ex_owner = \<lparr>np_kind = Operator, np_tenantId = None, np_email = ''o@x.io'', np_password = ''secret'', np_role = ''owner'', np_mustChangePassword = False\<rparr>"

definition ex_cookie :: CookieOptions where
  "ex_cookie = \<lparr>co_crossSite = False, co_secure = True, co_domain = None\<rparr>"

definition ex_fresh :: fresh where
  "ex_fresh = \<lparr>fr_uuid = ''s1'', fr_token = ''tok'', fr_csrf = ''csrf'', fr_salt = [7], fr_secret = [1, 2, 3, 4, 5], fr_picks = [], fr_challenge = ''ch''\<rparr>"

definition ex_login :: login_body where
  "ex_login = \<lparr>lb_email = Some ''o@x.io'', lb_password = Some ''secret'', lb_kind = None, lb_tenantId = None\<rparr>"

definition ex_code :: mfa_body where
  "ex_code = \<lparr>mb_challenge = Some ''ch'', mb_code = Some ''000001'', mb_enrol = True\<rparr>"

definition ex_owner_row :: PrincipalRow where
  "ex_owner_row = principal_row ex_owner ''p1'' (ex_hash ''secret'') ''owner'' 0"

definition ex_api0 :: auth_api where
  "ex_api0 = \<lparr>aa_db = (auth_db_init [])\<lparr>ad_principals := [ex_owner_row]\<rparr>, aa_challenges = []\<rparr>"

abbreviation ex_serve :: "int \<Rightarrow> auth_call \<Rightarrow> (auth_api, app_error, reply) eff" where
  "ex_serve \<equiv> serve ex_crypto DEFAULT_SESSION_CONFIG ex_cookie None ex_fresh ex_meta"

definition ex_secret :: string where
  "ex_secret = base32Encode [1, 2, 3, 4, 5]"

definition ex_api1 :: auth_api where
  "ex_api1 = \<lparr>aa_db = (auth_db_init [])\<lparr>ad_principals := [ex_owner_row],
       ad_totps := [\<lparr>tt_principal_id = ''p1'', tt_secret = ex_secret, tt_confirmed_at = None, tt_last_step = None\<rparr>]\<rparr>,
     aa_challenges = [(''ch'', \<lparr>ch_principalId = ''p1'', ch_expires = 120000\<rparr>)]\<rparr>"

lemma ex_found: "byEmail Operator ''o@x.io'' None (aa_db ex_api0) = Some ex_owner_row"
proof -
  have "js_trim ''o@x.io'' = ''o@x.io''" by code_simp
  then show ?thesis by (simp add: byEmail_def ex_api0_def ex_owner_row_def principal_row_def ex_owner_def)
qed

lemma ex_scrypt_length: "cr_scrypt ex_crypto x y l ps = Some k \<Longrightarrow> length k = l"
  by (auto simp: ex_crypto_def)

lemma ex_login_run: "snd (ex_serve 0 (Post_login ex_login) ex_api0) = ex_api1"
  "Knows_password ''p1'' \<in> set (call_shows ex_crypto None 0 (Post_login ex_login) ex_api0)"
proof -
  have r: "\<not> locked 0 ex_owner_row" "pr_status ex_owner_row = Active" "pr_id ex_owner_row = ''p1''" "pr_role ex_owner_row = ''owner''"
    "pr_password_hash ex_owner_row = ex_hash ''secret''" "ex_owner_row\<lparr>pr_failed_logins := 0, pr_locked_until := None\<rparr> = ex_owner_row"
    by (simp_all add: ex_owner_row_def principal_row_def locked_def)
  have nr: "\<not> needsRehash (ex_hash ''secret'')" by (rule verifyPassword_hash(2) [OF ex_hashPassword ex_scrypt_length])
  show "Knows_password ''p1'' \<in> set (call_shows ex_crypto None 0 (Post_login ex_login) ex_api0)"
    by (simp add: ex_login_def given_def login_kind_def login_tenant_def password_shown_def ex_found r ex_verifyPassword)
  show "snd (ex_serve 0 (Post_login ex_login) ex_api0) = ex_api1"
    using ex_found
    by (simp add: ex_login_def given_def login_kind_def login_tenant_def login_def try_catch_def bind_def zoom_def reads_def ret_def modify_def
        verifyCredentials_def r nr ex_verifyPassword rehash_if_needed_def requiresTotp_def TOTP_REQUIRED_def toPrincipal_def totp_confirmed_def totp_of_def
        open_challenge_def sweepChallenges_def set_challenge_def beginTotpEnrolment_def upsertPending_def clearFailures_def update_principal_def
        ex_api0_def ex_api1_def auth_db_init_def ex_fresh_def CHALLENGE_MS_def ex_secret_def generateTotpSecret_def Let_def)
qed

lemma ex_totpCode: "totpCode ex_crypto secret 0 = Inr ''000000''" "totpCode ex_crypto secret 1 = Inr ''000001''"
proof -
  have d: "padStart 6 (CHR ''0'') (show_nat 0) = ''000000''" "padStart 6 (CHR ''0'') (show_nat 1) = ''000001''" by code_simp+
  have c: "counter_bytes 0 = Inr [0, 0, 0, 0, 0, 0, 0, 0]" "counter_bytes 1 = Inr [0, 0, 0, 0, 0, 0, 0, 1]"
    by (simp_all add: counter_bytes_def upt_conv_Cons)
  have h: "cr_hmac_sha1 ex_crypto k [a, 0, 0, 0, 0, 0, 0, b] = [a, 0, 0, 0, 0, 0, 0, b, 0, 0, 0, 0, 0, 0, 0, 0, 0, 0, 0, 4]" for a b k
    by (simp add: ex_crypto_def numeral_eq_Suc)
  have t: "totp_binary [0, 0, 0, 0, 0, 0, 0, 0, 0, 0, 0, 0, 0, 0, 0, 0, 0, 0, 0, 4] = 0"
    "totp_binary [0, 0, 0, 0, 0, 0, 0, 1, 0, 0, 0, 0, 0, 0, 0, 0, 0, 0, 0, 4] = 1"
    by (simp_all add: totp_binary_def totp_offset_def byte_at_def Let_def)
  show "totpCode ex_crypto secret 0 = Inr ''000000''" "totpCode ex_crypto secret 1 = Inr ''000001''"
    using d by (simp_all add: totpCode_def c h t TOTP_DIGITS_def)
qed

lemma ex_totp: "verifyTotp ex_crypto secret ''000001'' 30000 None = Inr (Some 1)"
proof -
  have "totp_clean ''000001'' = ''000001''" "list_all is_digit ''000001''" by code_simp+
  moreover have "currentTotpStep 30000 = 1" "[- TOTP_WINDOW..TOTP_WINDOW] = [-1, 0, 1]"
    by (simp_all add: currentTotpStep_def TOTP_STEP_SECONDS_def TOTP_WINDOW_def upto_rec1)
  ultimately show ?thesis by (simp add: verifyTotp_def ex_totpCode)
qed

lemma ex_mfa_run: "ad_sessions (aa_db (snd (ex_serve 30000 (Post_mfa ex_code) ex_api1))) =
    [session_of ex_crypto DEFAULT_SESSION_CONFIG ''s1'' ''tok'' ''csrf'' ''p1'' ex_meta 30000]"
  "ad_principals (aa_db (snd (ex_serve 30000 (Post_mfa ex_code) ex_api1))) = [ex_owner_row\<lparr>pr_last_login_at := Some 30000\<rparr>]"
  "Holds_factor ''p1'' \<in> set (call_shows ex_crypto None 30000 (Post_mfa ex_code) ex_api1)"
proof -
  have sw: "sweepChallenges 30000 ex_api1 = ex_api1" by (simp add: sweepChallenges_def ex_api1_def)
  have pend: "pendingSecret ''p1'' (aa_db ex_api1) = Some ex_secret" by (simp add: pendingSecret_def totp_of_def ex_api1_def)
  have ne: "ex_secret \<noteq> []" unfolding ex_secret_def by code_simp
  have ch: "map_of (aa_challenges (sweepChallenges 30000 ex_api1)) ''ch'' = Some \<lparr>ch_principalId = ''p1'', ch_expires = 120000\<rparr>"
    unfolding sw by (simp add: ex_api1_def)
  then show "Holds_factor ''p1'' \<in> set (call_shows ex_crypto None 30000 (Post_mfa ex_code) ex_api1)"
    using pend by (simp add: ex_code_def factor_shown_def ex_totp)
  have p: "pr_id ex_owner_row = ''p1''" by (simp add: ex_owner_row_def principal_row_def)
  obtain t where c: "confirmTotp ex_crypto [] 30000 ''p1'' ''000001'' (aa_db ex_api1) = (Inr [], (aa_db ex_api1)\<lparr>ad_totps := t, ad_codes := []\<rparr>)"
  proof
    show "confirmTotp ex_crypto [] 30000 ''p1'' ''000001'' (aa_db ex_api1) =
        (Inr [], (aa_db ex_api1)\<lparr>ad_totps := map (\<lambda>t. if tt_principal_id t = ''p1'' then t\<lparr>tt_confirmed_at := Some 30000, tt_last_step := Some 1\<rparr> else t)
           (ad_totps (aa_db ex_api1)), ad_codes := []\<rparr>)"
      using pend ne by (simp add: confirmTotp_def effect_simps generateRecoveryCodes_def transaction_def q_confirm_def update_totp_def
          recovery_deleteFor_def ex_totp) (simp add: ex_api1_def auth_db_init_def)
  qed
  define q where "q = toPrincipal (aa_db ex_api1) ex_owner_row"
  have q: "loadById ''p1'' (aa_db ex_api1) = Some q" "pn_id q = ''p1''"
    by (simp_all add: loadById_def byId_def q_def ex_api1_def p toPrincipal_def)
  let ?s = "(aa_db ex_api1)\<lparr>ad_totps := t, ad_codes := []\<rparr>"
  obtain q' where q': "loadById ''p1'' ?s = Some q'" "pn_id q' = ''p1''"
    by (simp add: loadById_def byId_def ex_api1_def p toPrincipal_def)
  have "session_insert (session_of ex_crypto DEFAULT_SESSION_CONFIG ''s1'' ''tok'' ''csrf'' ''p1'' ex_meta 30000) ?s =
      (Inr (), ?s\<lparr>ad_sessions := [session_of ex_crypto DEFAULT_SESSION_CONFIG ''s1'' ''tok'' ''csrf'' ''p1'' ex_meta 30000]\<rparr>)"
    by (simp add: session_insert_def session_of_def byId_def ex_api1_def auth_db_init_def p)
  with mfa_enrol [of ex_code "''ch''" 30000 ex_api1 _ "''000001''" q, OF _ ch _ _ _] c q q'
  show "ad_sessions (aa_db (snd (ex_serve 30000 (Post_mfa ex_code) ex_api1))) =
      [session_of ex_crypto DEFAULT_SESSION_CONFIG ''s1'' ''tok'' ''csrf'' ''p1'' ex_meta 30000]"
    "ad_principals (aa_db (snd (ex_serve 30000 (Post_mfa ex_code) ex_api1))) = [ex_owner_row\<lparr>pr_last_login_at := Some 30000\<rparr>]"
    by (simp_all add: sw ex_code_def given_def ex_fresh_def zoom_def bind_def modify_def reads_def ret_def delete_challenge_def issueSession_def
        createSession_def touchLastLogin_def update_principal_def recordAttempt_def p) (simp_all add: ex_api1_def auth_db_init_def p)
qed

theorem sessions_need_both_factors_witness:
  "\<exists>a L. auth_served ex_crypto DEFAULT_SESSION_CONFIG ex_cookie None a L \<and> ad_sessions (aa_db a) \<noteq> []
     \<and> Knows_password ''p1'' \<in> set L \<and> Holds_factor ''p1'' \<in> set L"
proof -
  let ?run = "auth_served ex_crypto DEFAULT_SESSION_CONFIG ex_cookie None"
  have "auth_sql DEFAULT_SESSION_CONFIG (auth_db_init []) (aa_db ex_api0)"
    by (rule auth_sql.add_principal [of ex_owner_row _ "Inr ()"])
      (simp_all add: principal_insert_def tenant_shape_def ex_owner_row_def principal_row_def ex_owner_def auth_db_init_def ex_api0_def
        roles_of_def OPERATOR_ROLES_def)
  with auth_served.statement [OF auth_served.start, of DEFAULT_SESSION_CONFIG "[]" "aa_db ex_api0"]
  have "?run ex_api0 []" by (simp add: ex_api0_def auth_db_init_def)
  from auth_served.call [OF this, of ex_fresh ex_meta 0 "Post_login ex_login"]
  have run1: "?run ex_api1 (call_shows ex_crypto None 0 (Post_login ex_login) ex_api0)" unfolding ex_login_run(1) by simp
  note run = auth_served.call [OF run1, of ex_fresh ex_meta 30000 "Post_mfa ex_code"]
  let ?a = "snd (ex_serve 30000 (Post_mfa ex_code) ex_api1)"
  let ?L = "call_shows ex_crypto None 0 (Post_login ex_login) ex_api0 @ call_shows ex_crypto None 30000 (Post_mfa ex_code) ex_api1"
  have r: "requiresTotp (pr_role ex_owner_row)" "pr_id ex_owner_row = ''p1''"
    by (simp_all add: ex_owner_row_def principal_row_def requiresTotp_def TOTP_REQUIRED_def)
  have "Knows_password ''p1'' \<in> set ?L \<and> Holds_factor ''p1'' \<in> set ?L"
    using sessions_need_both_factors [OF run, of "session_of ex_crypto DEFAULT_SESSION_CONFIG ''s1'' ''tok'' ''csrf'' ''p1'' ex_meta 30000"
        "ex_owner_row\<lparr>pr_last_login_at := Some 30000\<rparr>"] r
    by (simp only: ex_mfa_run) (simp add: session_of_def)
  with run show ?thesis unfolding ex_mfa_run(1) [symmetric] by (intro exI [of _ ?a] exI [of _ ?L]) (simp add: ex_mfa_run(1) del: serve.simps)
qed

end
