(* ===== verification/Tenant_Api.thy ===== *)
theory Tenant_Api
  imports Payout Access Webhooks Deposit_Sources
begin

text \<open>
  The tenant routes of \<open>src/api/app.ts\<close> on the state of the engine: accounts, deposit addresses, the allow-list,
  withdrawals and their approval. A handler gets what the hook recorded for the request, see \<open>Access\<close>; requests
  have passed the schema of their route. Errors carry no context here, so the counts and the date that a held withdrawal
  reports from it are left out of its reply; so are the asset registry and the environment that the list of chains carries.
\<close>

section \<open>State and replies\<close>

record engine_state =
  en_world :: World
  en_tenants :: tenant_db
  en_webhooks :: webhook_db

abbreviation on_world :: "(World, 'e, 'a) eff \<Rightarrow> (engine_state, 'e, 'a) eff" where
  "on_world \<equiv> zoom en_world (\<lambda>t. en_world_update (\<lambda>_. t))"

abbreviation on_accounts :: "(tenant_db, 'e, 'a) eff \<Rightarrow> (engine_state, 'e, 'a) eff" where
  "on_accounts \<equiv> zoom en_tenants (\<lambda>t. en_tenants_update (\<lambda>_. t))"

abbreviation on_pool :: "(pool_table, 'e, 'a) eff \<Rightarrow> (World, 'e, 'a) eff" where
  "on_pool \<equiv> zoom w_pool (\<lambda>t. w_pool_update (\<lambda>_. t))"

datatype api_body =
    Json string
  | Endpoint_body string string
  | Account_body string "string option"
  | Accounts_body "(Account \<times> int) list"
  | Chains_body "string list"
  | Address_body string string string
  | Balance_body string int
  | Allowed_body string string int
  | Removed_body string string
  | Held_body string string
  | Settled_body string string string "string list"
  | Pending_body string int int
  | Failure_body ErrorCode string

record api_reply =
  ar_status :: int
  ar_body :: api_body

definition replied :: "int \<Rightarrow> api_body \<Rightarrow> ('s, app_error, api_reply) eff" where
  "replied status body = ret \<lparr>ar_status = status, ar_body = body\<rparr>"

section \<open>Destinations and chains\<close>

text \<open>The chains of the router with their families, and the decoder of the base58 library.\<close>

record chain_setup =
  cs_families :: "(string, string) jsmap"
  cs_base58check :: "string \<Rightarrow> byte list option"
  cs_pool :: "pool_table pool_config"
  cs_xpub :: string
  cs_allowlistCooldownMs :: int

definition chain_has :: "chain_setup \<Rightarrow> string \<Rightarrow> bool" where
  "chain_has cs chain \<longleftrightarrow> map_of (cs_families cs) (toUpperCase chain) \<noteq> None"

definition familyOf :: "chain_setup \<Rightarrow> string \<Rightarrow> string option" where
  "familyOf cs chain = map_of (cs_families cs) (toUpperCase chain)"

definition router_chains :: "chain_setup \<Rightarrow> string list" where
  "router_chains cs = map fst (cs_families cs)"

definition invalid_destination :: "string \<Rightarrow> string \<Rightarrow> app_error" where
  "invalid_destination address c = AppError INVALID_DESTINATION (address @ '' is not a valid '' @ c @ '' address'') True"

definition assertValidDestination :: "chain_setup \<Rightarrow> string \<Rightarrow> string \<Rightarrow> string option \<Rightarrow> app_error + unit" where
  "assertValidDestination cs chain address family =
     (let c = toUpperCase chain in
      if family = Some ''TRON''
      then (case cs_base58check cs address of
              None \<Rightarrow> Inl (invalid_destination address c)
            | Some payload \<Rightarrow> if length payload \<noteq> 21 then Inl (invalid_destination address c) else Inr ())
      else if family = Some ''EVM''
      then (case normalizeHexAddress address of Inl _ \<Rightarrow> Inl (invalid_destination address c) | Inr _ \<Rightarrow> Inr ())
      else Inl (AppError UNSUPPORTED_CHAIN (''No address validator for chain '' @ c) False))"

definition unsupported_chain :: "string \<Rightarrow> app_error" where
  "unsupported_chain chain = AppError UNSUPPORTED_CHAIN (''Chain not supported: '' @ chain) False"

definition require_chain :: "chain_setup \<Rightarrow> string \<Rightarrow> app_error + unit" where
  "require_chain cs chain = (if chain_has cs chain then Inr () else Inl (unsupported_chain chain))"

section \<open>Accounts, addresses and the allow-list\<close>

definition WEBHOOK_SECRET_PREFIX :: string where
  "WEBHOOK_SECRET_PREFIX = ''cxs_''"

text \<open>\<open>check\<close> is \<open>assertPublicWebhookUrl\<close>; the secret is a random UUID without its dashes.\<close>

definition put_webhook :: "(string \<Rightarrow> app_error + unit) \<Rightarrow> string \<Rightarrow> Tenant option \<Rightarrow> string \<Rightarrow> (engine_state, app_error, api_reply) eff" where
  "put_webhook check uuid authed url =
     bind (lift (tenantOf authed ''move-funds'')) (\<lambda>t.
     bind (lift (check url)) (\<lambda>_.
     let secret = WEBHOOK_SECRET_PREFIX @ filter (\<lambda>c. c \<noteq> CHR ''-'') uuid in
     bind (modify (en_webhooks_update (endpoint_set (te_id t) url secret))) (\<lambda>_.
       replied 201 (Endpoint_body url secret))))"

definition post_accounts :: "string \<Rightarrow> int \<Rightarrow> Tenant option \<Rightarrow> string option \<Rightarrow> (engine_state, app_error, api_reply) eff" where
  "post_accounts uuid now authed externalRef =
     bind (lift (tenantOf authed ''move-funds'')) (\<lambda>t.
     bind (on_accounts (createAccount uuid now (te_id t) externalRef)) (\<lambda>a.
       replied 201 (Account_body (ca_id a) (ca_externalRef a))))"

definition limitOf :: "int option \<Rightarrow> int" where
  "limitOf limit = min (case limit of Some n \<Rightarrow> n | None \<Rightarrow> 50) 200"

definition get_accounts :: "Tenant option \<Rightarrow> int option \<Rightarrow> (engine_state, app_error, api_reply) eff" where
  "get_accounts authed limit =
     bind (lift (tenantOf authed ''read'')) (\<lambda>t.
     bind (on_accounts (reads (listAccounts (te_id t) (nat (limitOf limit))))) (\<lambda>rows. replied 200 (Accounts_body rows)))"

definition get_chains :: "chain_setup \<Rightarrow> Tenant option \<Rightarrow> (engine_state, app_error, api_reply) eff" where
  "get_chains cs authed = bind (lift (tenantOf authed ''read'')) (\<lambda>_. replied 200 (Chains_body (router_chains cs)))"

definition post_deposit_address ::
  "chain_setup \<Rightarrow> string \<Rightarrow> string \<Rightarrow> Tenant option \<Rightarrow> string \<Rightarrow> string \<Rightarrow> string \<Rightarrow> (engine_state, app_error, api_reply) eff" where
  "post_deposit_address cs rowId invoiceId authed accountId chain asset =
     bind (lift (tenantOf authed ''move-funds'')) (\<lambda>t.
     bind (on_accounts (requireAccount (te_id t) accountId)) (\<lambda>_.
     let c = toUpperCase chain; a = toUpperCase asset in
     bind (lift (require_chain cs c)) (\<lambda>_.
     bind (on_world (on_pool (assign SqlPoolStore (cs_pool cs) rowId (te_id t) accountId c invoiceId (cs_xpub cs)))) (\<lambda>address.
       replied 201 (Address_body address c a)))))"

definition get_balance :: "Tenant option \<Rightarrow> string \<Rightarrow> string \<Rightarrow> (engine_state, app_error, api_reply) eff" where
  "get_balance authed accountId asset =
     bind (lift (tenantOf authed ''read'')) (\<lambda>t.
     bind (on_accounts (requireAccount (te_id t) accountId)) (\<lambda>_.
     bind (on_world (on_ledger (availableBalance SqlLedgerStore (''merchant_available:'' @ te_id t @ '':'' @ accountId) (mk_Asset asset)))) (\<lambda>n.
       replied 200 (Balance_body (toUpperCase asset) n))))"

definition post_allowlist :: "chain_setup \<Rightarrow> int \<Rightarrow> Tenant option \<Rightarrow> string \<Rightarrow> string \<Rightarrow> string \<Rightarrow> (engine_state, app_error, api_reply) eff" where
  "post_allowlist cs now authed accountId chain address =
     bind (lift (tenantOf authed ''move-funds'')) (\<lambda>t.
     bind (on_accounts (requireAccount (te_id t) accountId)) (\<lambda>_.
     let c = toUpperCase chain in
     bind (lift (require_chain cs c)) (\<lambda>_.
     bind (lift (assertValidDestination cs c address (familyOf cs c))) (\<lambda>_.
     bind (on_world (on_policy (\<lambda>s. case allow_add (te_id t) accountId c address (cs_allowlistCooldownMs cs) now s of (u, s') \<Rightarrow> (Inr u, s')))) (\<lambda>usableAt.
       replied 201 (Allowed_body c address usableAt))))))"

definition delete_allowlist :: "Tenant option \<Rightarrow> string \<Rightarrow> string \<Rightarrow> string \<Rightarrow> (engine_state, app_error, api_reply) eff" where
  "delete_allowlist authed accountId chain address =
     bind (lift (tenantOf authed ''move-funds'')) (\<lambda>t.
     bind (on_accounts (requireAccount (te_id t) accountId)) (\<lambda>_.
     bind (on_world (on_policy (\<lambda>s. case allow_remove (te_id t) accountId (toUpperCase chain) address s of (r, s') \<Rightarrow> (Inr r, s')))) (\<lambda>removed.
       if \<not> removed then replied 404 (Failure_body NOT_FOUND ''Destination is not allow-listed'')
       else replied 200 (Removed_body (toUpperCase chain) address))))"

section \<open>Withdrawals\<close>

record withdrawal =
  wb_chain :: string
  wb_asset :: string
  wb_amount :: string
  wb_destination :: string

definition HELD_CODES :: "ErrorCode list" where
  "HELD_CODES = [POLICY_APPROVAL_REQUIRED, POLICY_TIME_LOCKED]"

definition intent_key :: "Tenant \<Rightarrow> string \<Rightarrow> string" where
  "intent_key t key = te_id t @ '':'' @ key"

definition withdrawal_params :: "Tenant \<Rightarrow> string \<Rightarrow> string \<Rightarrow> withdrawal \<Rightarrow> int \<Rightarrow> PayoutParams" where
  "withdrawal_params t accountId key b amount =
     \<lparr>pp_tenant = te_id t, pp_merchant = accountId, pp_chain = toUpperCase (wb_chain b), pp_asset = wb_asset b,
      pp_amountBaseUnits = amount, pp_destination = wb_destination b, pp_idempotencyKey = intent_key t key,
      pp_requester = Some (te_keyId t), pp_approvals = None\<rparr>"

definition payout_json :: "PayoutResult \<Rightarrow> string" where
  "payout_json r = ''{\"txId\":'' @ json_string (rs_txId r) @ '',\"from\":'' @ json_string (rs_from r) @ '',\"status\":\"settled\"}''"

definition withdraw_body ::
  "PayoutService \<Rightarrow> string \<Rightarrow> int \<Rightarrow> Tenant \<Rightarrow> string \<Rightarrow> string \<Rightarrow> withdrawal \<Rightarrow> (engine_state, app_error, api_reply) eff" where
  "withdraw_body sv uuid now t accountId key b =
     bind (lift (js_BigInt (wb_amount b))) (\<lambda>amount.
     bind (on_world (payout sv uuid now (withdrawal_params t accountId key b amount))) (\<lambda>result.
     bind (on_accounts (idem_complete (te_id t) key 200 (payout_json result))) (\<lambda>_.
       replied 200 (Json (payout_json result)))))"

definition withdraw_failed :: "PayoutService \<Rightarrow> Tenant \<Rightarrow> string \<Rightarrow> app_error \<Rightarrow> (engine_state, app_error, api_reply) eff" where
  "withdraw_failed sv t key err =
     bind (on_accounts (idem_release (te_id t) key)) (\<lambda>_.
     bind (on_world (reads (findIntent sv (intent_key t key)))) (\<lambda>held.
     case (held, err_code err) of
       (Some i, Some code) \<Rightarrow>
         if code \<in> set HELD_CODES
         then replied 202 (Held_body (pi_id i) (if code = POLICY_TIME_LOCKED then ''TIME_LOCKED'' else ''PENDING_APPROVAL''))
         else throw err
     | _ \<Rightarrow> throw err))"

definition post_withdrawal ::
  "chain_setup \<Rightarrow> PayoutService \<Rightarrow> string \<Rightarrow> int \<Rightarrow> Tenant option \<Rightarrow> string \<Rightarrow> string \<Rightarrow> withdrawal \<Rightarrow>
   (engine_state, app_error, api_reply) eff" where
  "post_withdrawal cs sv uuid now authed accountId key b =
     bind (lift (tenantOf authed ''move-funds'')) (\<lambda>t.
     bind (on_accounts (requireAccount (te_id t) accountId)) (\<lambda>_.
     let c = toUpperCase (wb_chain b) in
     bind (lift (require_chain cs c)) (\<lambda>_.
     bind (lift (assertValidDestination cs c (wb_destination b) (familyOf cs c))) (\<lambda>_.
     bind (on_accounts (idem_begin (te_id t) key)) (\<lambda>replay.
     case replay of
       Some r \<Rightarrow> replied (sr_status r) (Json (sr_body r))
     | None \<Rightarrow> try_catch (withdraw_body sv uuid now t accountId key b) (withdraw_failed sv t key))))))"

definition approve_withdrawal ::
  "PayoutService \<Rightarrow> string \<Rightarrow> int \<Rightarrow> Tenant option \<Rightarrow> string \<Rightarrow> (engine_state, app_error, api_reply) eff" where
  "approve_withdrawal sv uuid now authed withdrawalId =
     bind (lift (tenantOf authed ''approve'')) (\<lambda>t.
     bind (on_world (payout_approve sv uuid now (te_id t) withdrawalId (te_keyId t))) (\<lambda>result.
       case result of
         ApproveSettled tx from approvals \<Rightarrow> replied 200 (Settled_body withdrawalId tx from approvals)
       | ApprovePending needed approvals \<Rightarrow> replied 202 (Pending_body withdrawalId needed (int (length approvals)))))"

section \<open>One answer per key\<close>

text \<open>The checks before the key is looked at, which change nothing.\<close>

definition owns :: "string \<Rightarrow> string \<Rightarrow> tenant_db \<Rightarrow> bool" where
  "owns tid accountId db \<longleftrightarrow> (\<exists>a \<in> set (td_accounts db). ac_id a = accountId \<and> ac_tenant_id a = tid)"

definition admitted :: "chain_setup \<Rightarrow> Tenant option \<Rightarrow> string \<Rightarrow> withdrawal \<Rightarrow> tenant_db \<Rightarrow> app_error + Tenant" where
  "admitted cs authed accountId b db =
     rbind (tenantOf authed ''move-funds'') (\<lambda>t.
     rbind (fst (requireAccount (te_id t) accountId db)) (\<lambda>_.
     rbind (require_chain cs (toUpperCase (wb_chain b))) (\<lambda>_.
     rbind (assertValidDestination cs (toUpperCase (wb_chain b)) (wb_destination b) (familyOf cs (toUpperCase (wb_chain b)))) (\<lambda>_.
       Inr t))))"

lemma requireAccount_frame: "snd (requireAccount tid acc db) = db"
  by (auto simp: requireAccount_def effect_simps split: option.splits)

lemma requireAccount_owns: "fst (requireAccount tid acc db) = Inr a \<Longrightarrow> owns tid acc db"
  by (auto simp: requireAccount_def owns_def effect_simps find_Some_iff split: option.splits)

lemma admitted_owns: "admitted cs authed acc b db = Inr t \<Longrightarrow> tenantOf authed ''move-funds'' = Inr t \<and> owns (te_id t) acc db"
  by (auto simp: admitted_def rbind_Inr_iff intro: requireAccount_owns)

definition stored :: "string \<Rightarrow> string \<Rightarrow> engine_state \<Rightarrow> idempotency_row option" where
  "stored tid key s = find (ik_is tid key) (td_idempotency (en_tenants s))"

definition reserved_for :: "string \<Rightarrow> string \<Rightarrow> engine_state \<Rightarrow> engine_state" where
  "reserved_for tid key s = s\<lparr>en_tenants := (en_tenants s)\<lparr>td_idempotency := td_idempotency (en_tenants s) @
     [\<lparr>ik_tenant_id = tid, ik_key = key, ik_status = None, ik_response = None\<rparr>]\<rparr>\<rparr>"

definition answer_of :: "idempotency_row \<Rightarrow> api_reply" where
  "answer_of r = (case ik_response r of
     None \<Rightarrow> \<lparr>ar_status = sr_status in_progress, ar_body = Json (sr_body in_progress)\<rparr>
   | Some body \<Rightarrow> \<lparr>ar_status = (case ik_status r of Some n \<Rightarrow> n | None \<Rightarrow> 0), ar_body = Json body\<rparr>)"

lemma post_withdrawal_run:
  "post_withdrawal cs sv uuid now authed acc key b s =
     (case admitted cs authed acc b (en_tenants s) of
        Inl e \<Rightarrow> (Inl e, s)
      | Inr t \<Rightarrow> (case stored (te_id t) key s of
            Some r \<Rightarrow> (Inr (answer_of r), s)
          | None \<Rightarrow> try_catch (withdraw_body sv uuid now t acc key b) (withdraw_failed sv t key) (reserved_for (te_id t) key s)))"
proof -
  have z: "on_accounts (requireAccount tid acc) s = (fst (requireAccount tid acc (en_tenants s)), s)" for tid
    using requireAccount_frame [of tid acc "en_tenants s"] by (cases "requireAccount tid acc (en_tenants s)") (simp add: zoom_def)
  have i: "on_accounts (idem_begin tid key) s = (case stored tid key s of
      None \<Rightarrow> (Inr None, reserved_for tid key s)
    | Some r \<Rightarrow> (Inr (Some (case ik_response r of None \<Rightarrow> in_progress
         | Some body \<Rightarrow> \<lparr>sr_status = (case ik_status r of Some n \<Rightarrow> n | None \<Rightarrow> 0), sr_body = body\<rparr>)), s))" for tid
    by (simp add: zoom_def idem_begin_def stored_def reserved_for_def split: option.splits)
  note run = post_withdrawal_def admitted_def Let_def
  show ?thesis
  proof (cases "tenantOf authed ''move-funds''")
    case (Inl e)
    then show ?thesis by (simp add: run effect_simps)
  next
    case t: (Inr t)
    show ?thesis
    proof (cases "fst (requireAccount (te_id t) acc (en_tenants s))")
      case (Inl e)
      with t show ?thesis by (simp add: run effect_simps z)
    next
      case a: (Inr a)
      show ?thesis
      proof (cases "rbind (require_chain cs (toUpperCase (wb_chain b))) (\<lambda>_.
          assertValidDestination cs (toUpperCase (wb_chain b)) (wb_destination b) (familyOf cs (toUpperCase (wb_chain b))))")
        case (Inl e)
        with t a show ?thesis by (auto simp: run effect_simps z rbind_Inl_iff)
      next
        case (Inr u)
        with t a show ?thesis
          by (cases "stored (te_id t) key s") (auto simp: run effect_simps z i rbind_Inr_iff replied_def answer_of_def split: option.splits)
      qed
    qed
  qed
qed

text \<open>Steps of the engine: withdrawals, and anything else that leaves the table of answered requests alone.\<close>

inductive engine_step :: "chain_setup \<Rightarrow> engine_state \<Rightarrow> engine_state \<Rightarrow> bool" for cs where
  withdraw: "engine_step cs s (snd (post_withdrawal cs sv uuid now authed acc key b s))"
| other: "td_idempotency (en_tenants s') = td_idempotency (en_tenants s) \<Longrightarrow> engine_step cs s s'"

abbreviation engine_steps :: "chain_setup \<Rightarrow> engine_state \<Rightarrow> engine_state \<Rightarrow> bool" where
  "engine_steps cs \<equiv> (engine_step cs)\<^sup>*\<^sup>*"

text \<open>What a withdrawal may do to the table: its own rows only.\<close>

definition others_kept :: "string \<Rightarrow> string \<Rightarrow> engine_state \<Rightarrow> engine_state \<Rightarrow> bool" where
  "others_kept tid key s s' \<longleftrightarrow> (\<forall>tid' key'. (tid', key') \<noteq> (tid, key) \<longrightarrow> stored tid' key' s' = stored tid' key' s)"

lemma others_kept_trans: "others_kept tid key s s' \<Longrightarrow> others_kept tid key s' s'' \<Longrightarrow> others_kept tid key s s''"
  by (simp add: others_kept_def)

lemma find_append_skip: "\<not> P x \<Longrightarrow> find P (xs @ [x]) = find P xs"
  by (induction xs) auto

lemma find_map_skip: "(\<And>x. Q x \<Longrightarrow> \<not> P x \<and> \<not> P (f x)) \<Longrightarrow> find P (map (\<lambda>x. if Q x then f x else x) xs) = find P xs"
  by (induction xs) auto

lemma find_filter_skip: "(\<And>x. Q x \<Longrightarrow> \<not> P x) \<Longrightarrow> find P (filter (\<lambda>x. \<not> Q x) xs) = find P xs"
  by (induction xs) auto

lemma others_kept_reserved: "others_kept tid key s (reserved_for tid key s)"
  by (auto simp: others_kept_def stored_def reserved_for_def find_append_skip ik_is_def)

lemma others_kept_complete: "others_kept tid key s (snd (on_accounts (idem_complete tid key status body) s))"
  unfolding others_kept_def stored_def idem_complete_def
  by (auto simp: zoom_def modify_def ik_is_def intro!: find_map_skip)

lemma others_kept_release: "others_kept tid key s (snd (on_accounts (idem_release tid key) s))"
proof -
  have "find (ik_is tid' key') (filter (\<lambda>r. \<not> ik_is tid key r) xs) = find (ik_is tid' key') xs" if "(tid', key') \<noteq> (tid, key)" for tid' key' xs
    using that by (intro find_filter_skip) (auto simp: ik_is_def)
  then show ?thesis by (simp add: others_kept_def stored_def idem_release_def zoom_def modify_def)
qed

lemma others_kept_world: "others_kept tid key s (snd (on_world m s))"
  by (auto simp: others_kept_def stored_def zoom_def split: prod.splits)

lemma others_kept_frame:
  assumes "\<And>x. others_kept tid key x (snd (m x))"
  shows "preserves (others_kept tid key s) m"
  using assms others_kept_trans by (auto simp: preserves_def)

lemmas others_kept_frames [intro] =
  others_kept_frame [OF others_kept_world] others_kept_frame [OF others_kept_complete] others_kept_frame [OF others_kept_release]

lemma others_kept_body: "preserves (others_kept (te_id t) key s) (withdraw_body sv uuid now t acc key b)"
  unfolding withdraw_body_def replied_def
  by (intro preserves_bind preserves_lift preserves_ret others_kept_frames)

lemma others_kept_failed: "preserves (others_kept (te_id t) key s) (withdraw_failed sv t key e)"
proof -
  have "preserves (others_kept (te_id t) key s) (case (held, err_code e) of
      (Some i, Some code) \<Rightarrow> if code \<in> set HELD_CODES then replied 202 (f i code) else throw e
    | _ \<Rightarrow> throw e)" for held :: "PayoutIntent option" and f
    by (cases held; cases "err_code e") (auto simp: replied_def)
  then show ?thesis unfolding withdraw_failed_def by (intro preserves_bind others_kept_frames)
qed

lemma others_kept_withdraw:
  "others_kept (te_id t) key s (snd (try_catch (withdraw_body sv uuid now t acc key b) (withdraw_failed sv t key) s))"
proof -
  have "preserves (others_kept (te_id t) key s) (try_catch (withdraw_body sv uuid now t acc key b) (withdraw_failed sv t key))"
    by (intro preserves_try_catch others_kept_body others_kept_failed)
  then show ?thesis by (rule preservesD) (simp add: others_kept_def)
qed

definition answered :: "string \<Rightarrow> string \<Rightarrow> api_reply \<Rightarrow> engine_state \<Rightarrow> bool" where
  "answered tid key rep s \<longleftrightarrow> (\<exists>r. stored tid key s = Some r \<and> answer_of r = rep)"

lemma answered_step: "engine_step cs s s' \<Longrightarrow> answered tid key rep s \<Longrightarrow> answered tid key rep s'"
proof (induction rule: engine_step.induct)
  case (withdraw s sv uuid now authed acc key' b)
  show ?case
  proof (cases "admitted cs authed acc b (en_tenants s)")
    case (Inr t)
    show ?thesis
    proof (cases "stored (te_id t) key' s")
      case None
      with withdraw have "(tid, key) \<noteq> (te_id t, key')" by (auto simp: answered_def)
      with others_kept_trans [OF others_kept_reserved others_kept_withdraw] Inr None withdraw show ?thesis
        by (simp add: post_withdrawal_run answered_def others_kept_def)
    qed (use Inr withdraw in \<open>simp add: post_withdrawal_run\<close>)
  qed (use withdraw in \<open>simp add: post_withdrawal_run\<close>)
qed (simp add: answered_def stored_def)

lemma answered_steps: "engine_steps cs s s' \<Longrightarrow> answered tid key rep s \<Longrightarrow> answered tid key rep s'"
  by (induction rule: rtranclp_induct) (auto intro: answered_step)

lemma failed_not_200: "withdraw_failed sv t key e s = (Inr rep, s') \<Longrightarrow> ar_status rep = 202"
  by (auto simp: withdraw_failed_def bind_def replied_def ret_def throw_def split: prod.splits sum.splits option.splits if_splits)

lemma stored_reserved: "stored tid key s = None \<Longrightarrow> stored tid key (reserved_for tid key s) =
    Some \<lparr>ik_tenant_id = tid, ik_key = key, ik_status = None, ik_response = None\<rparr>"
proof -
  have "find P xs = None \<Longrightarrow> P x \<Longrightarrow> find P (xs @ [x]) = Some x" for P x and xs :: "idempotency_row list"
    by (induction xs) (auto split: if_splits)
  then show "stored tid key s = None \<Longrightarrow> ?thesis" by (simp add: stored_def reserved_for_def ik_is_def)
qed

lemma find_map_hit: "find P xs = Some x \<Longrightarrow> (\<And>y. P (f y) = P y) \<Longrightarrow> find P (map (\<lambda>y. if P y then f y else y) xs) = Some (f x)"
  by (induction xs) (auto split: if_splits)

text \<open>The body, once the payout is known.\<close>

lemma withdraw_body_cases:
  "withdraw_body sv uuid now t acc key b s =
     (case js_BigInt (wb_amount b) of
        Inl e \<Rightarrow> (Inl e, s)
      | Inr amount \<Rightarrow> (case payout sv uuid now (withdrawal_params t acc key b amount) (en_world s) of
          (Inl e, w) \<Rightarrow> (Inl e, s\<lparr>en_world := w\<rparr>)
        | (Inr res, w) \<Rightarrow> (Inr \<lparr>ar_status = 200, ar_body = Json (payout_json res)\<rparr>,
            snd (on_accounts (idem_complete (te_id t) key 200 (payout_json res)) (s\<lparr>en_world := w\<rparr>)))))"
  by (simp add: withdraw_body_def bind_def lift_def zoom_def idem_complete_def modify_def replied_def ret_def split: sum.splits prod.splits)

lemma stored_complete:
  assumes "stored tid key s = Some r"
  shows "stored tid key (snd (on_accounts (idem_complete tid key n body) s)) = Some (r\<lparr>ik_status := Some n, ik_response := Some body\<rparr>)"
proof -
  have "find (ik_is tid key) (map (\<lambda>r. if ik_is tid key r then r\<lparr>ik_status := Some n, ik_response := Some body\<rparr> else r)
      (td_idempotency (en_tenants s))) = Some (r\<lparr>ik_status := Some n, ik_response := Some body\<rparr>)"
    using assms by (intro find_map_hit) (auto simp: stored_def ik_is_def)
  then show ?thesis by (simp add: stored_def idem_complete_def zoom_def modify_def)
qed

lemma complete_world: "en_world (snd (on_accounts (idem_complete tid key n body) s)) = en_world s"
  by (simp add: zoom_def idem_complete_def modify_def)

lemma withdraw_body_run:
  assumes "withdraw_body sv uuid now t acc key b (reserved_for (te_id t) key s) = (Inr rep, s')" "stored (te_id t) key s = None"
  shows "answered (te_id t) key rep s' \<and> ar_status rep = 200 \<and> (\<exists>amount res. js_BigInt (wb_amount b) = Inr amount
    \<and> payout sv uuid now (withdrawal_params t acc key b amount) (en_world s) = (Inr res, en_world s') \<and> ar_body rep = Json (payout_json res))"
proof -
  let ?s = "reserved_for (te_id t) key s"
  have world: "en_world ?s = en_world s" by (simp add: reserved_for_def)
  obtain amount where a: "js_BigInt (wb_amount b) = Inr amount"
    using assms(1) by (cases "js_BigInt (wb_amount b)") (auto simp: withdraw_body_cases)
  obtain res w where p: "payout sv uuid now (withdrawal_params t acc key b amount) (en_world s) = (Inr res, w)"
    using assms(1) a world by (auto simp: withdraw_body_cases split: sum.splits prod.splits)
  have s': "s' = snd (on_accounts (idem_complete (te_id t) key 200 (payout_json res)) (?s\<lparr>en_world := w\<rparr>))"
    and rep: "rep = \<lparr>ar_status = 200, ar_body = Json (payout_json res)\<rparr>"
    using assms(1) a p world by (simp_all add: withdraw_body_cases)
  have "stored (te_id t) key (?s\<lparr>en_world := w\<rparr>) = Some \<lparr>ik_tenant_id = te_id t, ik_key = key, ik_status = None, ik_response = None\<rparr>"
    using stored_reserved [OF assms(2)] by (simp add: stored_def)
  from stored_complete [OF this, of 200 "payout_json res"] have "answered (te_id t) key rep s'"
    unfolding s' rep answered_def by (simp add: answer_of_def)
  moreover have "en_world s' = w" unfolding s' complete_world by simp
  ultimately show ?thesis using a p rep by auto
qed

text \<open>Once a withdrawal was answered with 200, every later withdrawal request with its key, of the same tenant and passing the
  same checks, gets that answer and changes nothing, whatever its amount and destination and whatever happened in between. The first
  such answer is the result of one run of the payout for the tenant, account, amount and destination asked for.\<close>

theorem withdrawals_answered_once:
  assumes "post_withdrawal cs sv uuid now authed acc key b s = (Inr rep, s1)" and "ar_status rep = 200"
    and "tenantOf authed ''move-funds'' = Inr t" and "engine_steps cs s1 s2"
  shows "(\<forall>t'. admitted cs authed' acc' b' (en_tenants s2) = Inr t' \<and> te_id t' = te_id t \<longrightarrow>
      post_withdrawal cs sv' uuid' now' authed' acc' key b' s2 = (Inr rep, s2))
    \<and> (stored (te_id t) key s = None \<longrightarrow> owns (te_id t) acc (en_tenants s) \<and> (\<exists>amount res. js_BigInt (wb_amount b) = Inr amount
        \<and> payout sv uuid now (withdrawal_params t acc key b amount) (en_world s) = (Inr res, en_world s1)
        \<and> ar_body rep = Json (payout_json res)))"
proof -
  from assms(1) obtain t0 where t0: "admitted cs authed acc b (en_tenants s) = Inr t0"
    by (cases "admitted cs authed acc b (en_tenants s)") (auto simp: post_withdrawal_run)
  with assms(3) admitted_owns have t: "t0 = t" "owns (te_id t) acc (en_tenants s)" by fastforce+
  note run = assms(1) [unfolded post_withdrawal_run t0 t(1) sum.case]
  have first: "answered (te_id t) key rep s1 \<and> (stored (te_id t) key s = None \<longrightarrow> (\<exists>amount res. js_BigInt (wb_amount b) = Inr amount
        \<and> payout sv uuid now (withdrawal_params t acc key b amount) (en_world s) = (Inr res, en_world s1)
        \<and> ar_body rep = Json (payout_json res)))"
  proof (cases "stored (te_id t) key s")
    case (Some r)
    with run show ?thesis by (auto simp: answered_def)
  next
    case None
    with run have "withdraw_body sv uuid now t acc key b (reserved_for (te_id t) key s) = (Inr rep, s1)"
      using failed_not_200 assms(2) by (fastforce simp: try_catch_def split: prod.splits sum.splits)
    from withdraw_body_run [OF this None] show ?thesis by blast
  qed
  then have "answered (te_id t) key rep s2" using answered_steps [OF assms(4)] by blast
  then have "post_withdrawal cs sv' uuid' now' authed' acc' key b' s2 = (Inr rep, s2)"
    if "admitted cs authed' acc' b' (en_tenants s2) = Inr t'" "te_id t' = te_id t" for t'
    using that by (auto simp: post_withdrawal_run answered_def)
  with first t(2) show ?thesis by blast
qed

text \<open>A withdrawal request changes anything only if its credential has the scope \<open>move-funds\<close>, the account is one of the
  credential's tenant, the chain is routed, the destination is valid for its family, and its key is not reserved or answered yet;
  what it then does to the payout state is a payout debiting that account, requested by that credential.\<close>

theorem withdrawal_needs_own_account:
  assumes "post_withdrawal cs sv uuid now authed acc key b s = (r, s')" and "s' \<noteq> s"
  shows "\<exists>t. authed = Some t \<and> ''move-funds'' \<in> set (te_scopes t) \<and> owns (te_id t) acc (en_tenants s)
    \<and> chain_has cs (wb_chain b) \<and> stored (te_id t) key s = None
    \<and> assertValidDestination cs (toUpperCase (wb_chain b)) (wb_destination b) (familyOf cs (wb_chain b)) = Inr ()
    \<and> (en_world s' = en_world s \<or> (\<exists>amount p. js_BigInt (wb_amount b) = Inr amount \<and> p = withdrawal_params t acc key b amount
         \<and> available_account p = ''merchant_available:'' @ te_id t @ '':'' @ acc \<and> pp_requester p = Some (te_keyId t)
         \<and> pp_amountBaseUnits p = amount \<and> pp_destination p = wb_destination b
         \<and> en_world s' = snd (payout sv uuid now p (en_world s))))"
proof -
  from assms obtain t where t: "admitted cs authed acc b (en_tenants s) = Inr t"
    by (cases "admitted cs authed acc b (en_tenants s)") (auto simp: post_withdrawal_run)
  with assms have n: "stored (te_id t) key s = None"
    by (cases "stored (te_id t) key s") (auto simp: post_withdrawal_run)
  from t have ok: "tenantOf authed ''move-funds'' = Inr t" "owns (te_id t) acc (en_tenants s)" "chain_has cs (wb_chain b)"
    "assertValidDestination cs (toUpperCase (wb_chain b)) (wb_destination b) (familyOf cs (wb_chain b)) = Inr ()"
    by (auto simp: admitted_def rbind_Inr_iff require_chain_def chain_has_def familyOf_def toUpperCase_idem intro: requireAccount_owns split: if_splits)
  let ?s = "reserved_for (te_id t) key s"
  have s': "s' = snd (try_catch (withdraw_body sv uuid now t acc key b) (withdraw_failed sv t key) ?s)"
    using assms(1) t n by (simp add: post_withdrawal_run)
  have w: "en_world ?s = en_world s" by (simp add: reserved_for_def)
  have fail: "en_world (snd (withdraw_failed sv t key e x)) = en_world x" for e x
    by (auto simp: withdraw_failed_def bind_def zoom_def idem_release_def modify_def reads_def replied_def ret_def throw_def
        split: option.splits)
  have "en_world s' = en_world s \<or> (\<exists>amount. js_BigInt (wb_amount b) = Inr amount
      \<and> en_world s' = snd (payout sv uuid now (withdrawal_params t acc key b amount) (en_world s)))"
  proof (cases "js_BigInt (wb_amount b)")
    case (Inl e)
    then have "withdraw_body sv uuid now t acc key b ?s = (Inl e, ?s)" by (simp add: withdraw_body_def effect_simps)
    then show ?thesis by (simp add: s' try_catch_def fail w)
  next
    case (Inr amount)
    obtain res w' where p: "payout sv uuid now (withdrawal_params t acc key b amount) (en_world s) = (res, w')" by fastforce
    have "en_world s' = w'"
    proof (cases res)
      case (Inl e)
      with Inr p w have "withdraw_body sv uuid now t acc key b ?s = (Inl e, ?s\<lparr>en_world := w'\<rparr>)"
        by (simp add: withdraw_body_def bind_def lift_def zoom_def)
      then show ?thesis by (simp add: s' try_catch_def fail)
    next
      case (Inr x)
      with \<open>js_BigInt (wb_amount b) = Inr amount\<close> p w show ?thesis
        by (simp add: s' try_catch_def withdraw_body_def bind_def lift_def zoom_def idem_complete_def modify_def replied_def ret_def)
    qed
    with Inr p show ?thesis by auto
  qed
  with ok n show ?thesis
    by (intro exI [of _ t]) (auto simp: tenantOf_Inr available_account_def withdrawal_params_def)
qed

section \<open>An instance\<close>

definition ex_setup :: chain_setup where
  "ex_setup = \<lparr>cs_families = [(''TRON'', ''TRON'')], cs_base58check = (\<lambda>a. if a = ''Tdst'' then Some (replicate 21 0) else None),
     cs_pool = \<lparr>pc_derive = (\<lambda>_ _ _. Inr ''addr''), pc_cooldownMs = 0, pc_activeStrategy = None\<rparr>, cs_xpub = ''xpub'', cs_allowlistCooldownMs = 0\<rparr>"

definition ex_tenant :: Tenant where
  "ex_tenant = \<lparr>te_id = ''t'', te_name = ''T'', te_keyId = ''alice'', te_scopes = [''move-funds'']\<rparr>"

definition ex_engine :: engine_state where
  "ex_engine = \<lparr>en_world = ex_world, en_tenants = tenant_db_init\<lparr>td_accounts := [\<lparr>ac_id = ''m'', ac_tenant_id = ''t'', ac_external_ref = None, ac_created_at = 0\<rparr>]\<rparr>, en_webhooks = \<lparr>wh_endpoints = [], wh_deliveries = [], wh_posts = []\<rparr>\<rparr>"

definition ex_withdrawal :: "string \<Rightarrow> withdrawal" where
  "ex_withdrawal amount = \<lparr>wb_chain = ''tron'', wb_asset = ''USDT'', wb_amount = amount, wb_destination = ''Tdst''\<rparr>"

abbreviation ex_request :: "string \<Rightarrow> engine_state \<Rightarrow> (app_error + api_reply) \<times> engine_state" where
  "ex_request amount \<equiv> post_withdrawal ex_setup (ex_service ex_bare 20) ''u'' 20 (Some ex_tenant) ''m'' ''q'' (ex_withdrawal amount)"

lemma ex_request_settles:
  "case ex_request ''100'' ex_engine of (r, s) \<Rightarrow>
     (case r of Inl _ \<Rightarrow> False | Inr rep \<Rightarrow> ar_status rep = 200)
     \<and> (case admitted ex_setup (Some ex_tenant) ''m'' (ex_withdrawal ''250'') (en_tenants s) of Inl _ \<Rightarrow> False | Inr t \<Rightarrow> te_id t = ''t'')"
  by code_simp

theorem withdrawals_answered_once_witness:
  "\<exists>rep s. ex_request ''100'' ex_engine = (Inr rep, s) \<and> ex_request ''250'' s = (Inr rep, s)"
proof -
  obtain rep s where r: "ex_request ''100'' ex_engine = (Inr rep, s)" and n: "ar_status rep = 200"
    using ex_request_settles by (cases "ex_request ''100'' ex_engine") (auto split: sum.splits)
  obtain t' where t': "admitted ex_setup (Some ex_tenant) ''m'' (ex_withdrawal ''250'') (en_tenants s) = Inr t'" "te_id t' = ''t''"
    using ex_request_settles unfolding r by (auto split: sum.splits)
  have "tenantOf (Some ex_tenant) ''move-funds'' = Inr ex_tenant" "te_id ex_tenant = ''t''" by code_simp+
  with withdrawals_answered_once [OF r n _ rtranclp.rtrancl_refl, of ex_tenant] t' r show ?thesis by auto
qed

theorem withdrawal_needs_own_account_witness:
  "owns ''t'' ''m'' (en_tenants ex_engine) \<and> stored ''t'' ''q'' ex_engine = None"
proof -
  obtain rep s where r: "ex_request ''100'' ex_engine = (rep, s)" by fastforce
  have d: "td_idempotency (en_tenants (snd (ex_request ''100'' ex_engine))) \<noteq> []" by code_simp
  have "td_idempotency (en_tenants ex_engine) = []" "te_id ex_tenant = ''t''" by code_simp+
  with d r have "s \<noteq> ex_engine" by auto
  from withdrawal_needs_own_account [OF r this] \<open>te_id ex_tenant = ''t''\<close> show ?thesis by auto
qed

end
