(* ===== verification/Spec2Isabelle.thy ===== *)
theory Spec2Isabelle
  imports Payout Deposit_Sources Mpc Tron_Verify Sign_In Tenant_Api
begin

text \<open>
  A verification library for the crypto payment engine under \<open>src/backend\<close>.
\<close>

end
